(* ===== verification/Zhios_Base.thy ===== *)
theory Zhios_Base
  imports Main "HOL-Library.Word" "HOL-Library.Signed_Division"
begin

text \<open>
  Shared vocabulary of the zhios development: the machine types of the i686 target, the
  constants of \<^verbatim>\<open>src/src/config.h\<close> and \<^verbatim>\<open>src/src/status.h\<close>, the flat byte
  memory with its little-endian 32-bit accesses, address regions, and the generic lemmas on
  words and lists that the component theories use.  Two collections carry automation:
  \<open>mem_simps\<close> (reads over writes) and \<open>region_simps\<close> (membership in address regions).
\<close>

unbundle bit_operations_syntax

named_theorems mem_simps "reads over writes of the byte memory"
named_theorems region_simps "membership in address regions"

section \<open>Machine types\<close>

text \<open>
  The kernel is compiled for i686: pointers and \<^verbatim>\<open>size_t\<close> are 32 bits wide, \<^verbatim>\<open>char\<close> is a
  byte.  Memory is one flat array of bytes, so that an access outside the object the
  programmer had in mind reads or writes some other byte, as it does on the machine.
\<close>

type_synonym u8 = "8 word"
type_synonym u16 = "16 word"
type_synonym u32 = "32 word"
type_synonym addr = "32 word"
type_synonym memory = "addr \<Rightarrow> u8"

section \<open>Constants of config.h and status.h\<close>

abbreviation (input) ZHIOS_HEAP_SIZE_BYTES :: "'a::numeral" where
  "ZHIOS_HEAP_SIZE_BYTES \<equiv> 104857600"

abbreviation (input) ZHIOS_HEAP_BLOCK_SIZE :: "'a::numeral" where
  "ZHIOS_HEAP_BLOCK_SIZE \<equiv> 4096"

abbreviation (input) ZHIOS_DISK_SECTOR_SIZE :: "'a::numeral" where
  "ZHIOS_DISK_SECTOR_SIZE \<equiv> 512"

abbreviation (input) ZHIOS_MAX_PATH :: "'a::numeral" where
  "ZHIOS_MAX_PATH \<equiv> 100"

abbreviation (input) EINARG :: "'a::numeral" where
  "EINARG \<equiv> 1"

abbreviation (input) EMEM :: "'a::numeral" where
  "EMEM \<equiv> 2"

abbreviation (input) EIO :: "'a::numeral" where
  "EIO \<equiv> 3"

abbreviation (input) EINFORMAT :: "'a::numeral" where
  "EINFORMAT \<equiv> 4"

section \<open>Words\<close>

lemma unat_u32_less: "unat (w :: u32) < 4294967296"
  using unsigned_less [of w, where ?'a = nat] by simp

lemma unat_add_small:
  fixes a :: u32
  assumes "unat a + k < 4294967296"
  shows "unat (a + of_nat k) = unat a + k"
  using assms by (simp add: unat_word_ariths unat_of_nat)

lemma unat_diff_le:
  fixes a b :: u32
  assumes "b \<le> a"
  shows "unat (a - b) = unat a - unat b"
  using assms by (simp add: unat_sub)

lemma unat_of_nat_small [simp]:
  assumes "k < 4294967296"
  shows "unat (of_nat k :: u32) = k"
  using assms by (simp add: unat_of_nat)

lemma sint_eq_uint_small:
  fixes w :: u32
  assumes "unat w < 2147483648"
  shows "sint w = int (unat w)"
proof -
  have "uint w < 2147483648" using assms unfolding uint_nat by (simp only: of_nat_less_numeral_iff)
  then have "signed_take_bit 31 (uint w) = uint w"
    by (intro signed_take_bit_int_eq_self) (simp_all add: order_trans [OF _ uint_ge_0])
  then show ?thesis by (simp add: sint_uint)
qed

section \<open>Regions of the address space\<close>

text \<open>
  \<open>region p n\<close> is the set of the \<open>n\<close> addresses from \<open>p\<close> on, modulo the size of the address
  space.  Membership is decidable by one subtraction, which keeps it executable.
\<close>

definition region :: "addr \<Rightarrow> nat \<Rightarrow> addr set" where
  "region p n = {a. unat (a - p) < n}"

lemma in_region [region_simps]: "a \<in> region p n \<longleftrightarrow> unat (a - p) < n"
  by (simp add: region_def)

lemma region_0 [simp]: "region p 0 = {}"
  by (simp add: region_def)

lemma region_mono: "n \<le> k \<Longrightarrow> region p n \<subseteq> region p k"
  by (auto simp: region_def)

lemma region_base [simp]: "0 < n \<Longrightarrow> p \<in> region p n"
  by (simp add: region_def)

lemma region_add:
  assumes "k < n" "n \<le> 4294967296"
  shows "p + of_nat k \<in> region p n"
  using assms by (simp add: region_def)

lemma region_elem:
  assumes "a \<in> region p n"
  obtains k where "k < n" "a = p + of_nat k"
  using assms by (intro that [of "unat (a - p)"]) (simp_all add: region_def)

lemma region_offset:
  fixes a p :: addr
  assumes "k < 4294967296"
  shows "a = p + of_nat k \<longleftrightarrow> unat (a - p) = k"
proof
  assume "unat (a - p) = k"
  then have "of_nat k = a - p" by auto
  then show "a = p + of_nat k" by simp
next
  assume "a = p + of_nat k"
  then show "unat (a - p) = k" using assms by simp
qed

lemma region_Suc:
  assumes "n < 4294967296"
  shows "region p (Suc n) = insert (p + of_nat n) (region p n)"
  using assms by (auto simp: region_def region_offset less_Suc_eq)

text \<open>
  A region that does not run past the top of the address space is an interval of \<^typ>\<open>nat\<close>,
  so disjointness of two such regions is arithmetic.
\<close>

lemma region_interval:
  assumes "unat p + n \<le> 4294967296"
  shows "a \<in> region p n \<longleftrightarrow> unat p \<le> unat a \<and> unat a < unat p + n"
proof (cases "p \<le> a")
  case True
  then show ?thesis
    using assms by (auto simp: region_def unat_diff_le word_le_nat_alt)
next
  case False
  then have less: "unat a < unat p" by (simp add: word_le_nat_alt)
  have "unat (a - p) = 4294967296 + unat a - unat p"
  proof -
    have "a - p = of_nat (4294967296 + unat a - unat p)"
      using unat_u32_less [of p] less by (simp add: of_nat_diff)
    then have "unat (a - p) = unat (of_nat (4294967296 + unat a - unat p) :: u32)"
      by (rule arg_cong)
    also have "\<dots> = 4294967296 + unat a - unat p"
      using less by (intro unat_of_nat_small) simp
    finally show ?thesis .
  qed
  then show ?thesis using less assms unat_u32_less [of p] by (auto simp: region_def)
qed

lemma region_shift:
  assumes "k + n \<le> 4294967296" "0 < n"
  shows "a \<in> region (p + of_nat k) n \<longleftrightarrow> k \<le> unat (a - p) \<and> unat (a - p) < k + n"
proof -
  have k: "unat (of_nat k :: u32) = k" using assms by simp
  have "a \<in> region (p + of_nat k) n \<longleftrightarrow> a - p \<in> region (of_nat k) n"
    by (simp add: region_def algebra_simps)
  then show ?thesis using assms region_interval [of "of_nat k" n "a - p"] by (simp add: k)
qed

lemma region_shift_subset:
  assumes "k + n \<le> l" "l \<le> 4294967296"
  shows "region (p + of_nat k) n \<subseteq> region p l"
  using assms by (cases "n = 0") (auto simp: region_shift, simp add: region_def)

lemma region_shift_disjoint:
  assumes "k + n \<le> l" "l + j \<le> 4294967296"
  shows "region (p + of_nat k) n \<inter> region (p + of_nat l) j = {}"
  using assms by (cases "n = 0"; cases "j = 0") (auto simp: region_shift)

lemma region_disjoint:
  assumes "unat p + n \<le> unat q" "unat q + k \<le> 4294967296"
  shows "region p n \<inter> region q k = {}"
  using assms by (auto simp: region_interval)

section \<open>Little-endian accesses\<close>

definition read32 :: "memory \<Rightarrow> addr \<Rightarrow> u32" where
  "read32 m a =
     ucast (m a) OR push_bit 8 (ucast (m (a + 1)))
       OR push_bit 16 (ucast (m (a + 2))) OR push_bit 24 (ucast (m (a + 3)))"

definition write32 :: "memory \<Rightarrow> addr \<Rightarrow> u32 \<Rightarrow> memory" where
  "write32 m a v =
     m(a := ucast v, a + 1 := ucast (drop_bit 8 v),
       a + 2 := ucast (drop_bit 16 v), a + 3 := ucast (drop_bit 24 v))"

definition read16 :: "memory \<Rightarrow> addr \<Rightarrow> u16" where
  "read16 m a = ucast (m a) OR push_bit 8 (ucast (m (a + 1)))"

lemma bytes_of_u32:
  "ucast (ucast v :: u8) OR push_bit 8 (ucast (ucast (drop_bit 8 v) :: u8))
     OR push_bit 16 (ucast (ucast (drop_bit 16 v) :: u8))
     OR push_bit 24 (ucast (ucast (drop_bit 24 v) :: u8)) = (v :: u32)"
proof (rule bit_word_eqI)
  fix n
  assume "n < LENGTH(32)"
  then consider "n < 8" | "8 \<le> n" "n < 16" | "16 \<le> n" "n < 24" | "24 \<le> n" "n < 32"
    by fastforce
  then show "bit (ucast (ucast v :: u8) OR push_bit 8 (ucast (ucast (drop_bit 8 v) :: u8))
     OR push_bit 16 (ucast (ucast (drop_bit 16 v) :: u8))
     OR push_bit 24 (ucast (ucast (drop_bit 24 v) :: u8)) :: u32) n \<longleftrightarrow> bit v n"
    by cases (auto simp: bit_simps)
qed

lemma read32_write32_same [simp, mem_simps]: "read32 (write32 m a v) a = v"
  by (simp add: read32_def write32_def bytes_of_u32)

lemma write32_outside [mem_simps]: "b \<notin> region a 4 \<Longrightarrow> write32 m a v b = m b"
  by (auto simp: write32_def region_def)

lemma read32_cong:
  assumes "\<And>b. b \<in> region a 4 \<Longrightarrow> m b = m' b"
  shows "read32 m a = read32 m' a"
proof -
  have "a + of_nat k \<in> region a 4" if "k < 4" for k
    using that by (rule region_add) simp
  from this [of 0] this [of 1] this [of 2] this [of 3] assms show ?thesis
    by (simp add: read32_def)
qed

lemma read32_write32_disjoint [mem_simps]:
  assumes "region a 4 \<inter> region b 4 = {}"
  shows "read32 (write32 m a v) b = read32 m b"
  using assms by (intro read32_cong write32_outside) auto

definition aligned4 :: "addr \<Rightarrow> bool" where
  "aligned4 a \<longleftrightarrow> unat a mod 4 = 0"

lemma aligned4_disjoint:
  assumes "aligned4 a" "aligned4 b" "a \<noteq> b"
  shows "region a 4 \<inter> region b 4 = {}"
proof -
  have fits: "unat c + 4 \<le> 4294967296" if "aligned4 c" for c
    using that unat_u32_less [of c] unfolding aligned4_def by presburger
  have "unat a \<noteq> unat b" using assms(3) by (simp add: word_unat_eq_iff)
  then have "unat a + 4 \<le> unat b \<or> unat b + 4 \<le> unat a"
    using assms(1,2) unfolding aligned4_def by presburger
  then show ?thesis
    using region_disjoint [of a 4 b 4] region_disjoint [of b 4 a 4] fits assms(1,2) by blast
qed

lemma read32_write32_aligned [mem_simps]:
  assumes "aligned4 a" "aligned4 b"
  shows "read32 (write32 m a v) b = (if a = b then v else read32 m b)"
  using assms by (auto simp: read32_write32_disjoint aligned4_disjoint)

end
