(* ===== verification/Zhios_Memory.thy ===== *)
theory Zhios_Memory
  imports Zhios_Base
begin

text \<open>
  The byte routines of \<^verbatim>\<open>src/lib/src/memory.c\<close>: \<open>memset\<close>, \<open>memcmp\<close> and \<open>memcpy\<close> over the
  flat byte memory.  Each counting loop is a recursive definition that carries the source's
  index and the number of iterations left; the lemmas give its closed form.  Note the
  argument order of this library: \<open>memcpy\<close> takes the source first and the destination second.
\<close>

section \<open>memset\<close>

fun memset_loop :: "memory \<Rightarrow> addr \<Rightarrow> u8 \<Rightarrow> nat \<Rightarrow> nat \<Rightarrow> memory" where
  "memset_loop m ptr_ch c i 0 = m"
| "memset_loop m ptr_ch c i (Suc left) =
     memset_loop (m(ptr_ch + of_nat i := c)) ptr_ch c (Suc i) left"

definition memset :: "memory \<Rightarrow> addr \<Rightarrow> int \<Rightarrow> u32 \<Rightarrow> memory" where
  "memset m ptr n sz = memset_loop m ptr (of_int n) 0 (unat sz)"

section \<open>memcmp\<close>

text \<open>
  The loop of \<open>memcmp\<close> counts down but never advances its two pointers, and on a difference
  it compares the bytes before them, as signed characters.
\<close>

fun memcmp_loop :: "memory \<Rightarrow> addr \<Rightarrow> addr \<Rightarrow> nat \<Rightarrow> int" where
  "memcmp_loop m c1 c2 0 = 0"
| "memcmp_loop m c1 c2 (Suc count) =
     (if m c1 \<noteq> m c2 then (if sint (m (c1 - 1)) > sint (m (c2 - 1)) then 1 else -1)
      else memcmp_loop m c1 c2 count)"

definition memcmp :: "memory \<Rightarrow> addr \<Rightarrow> addr \<Rightarrow> int \<Rightarrow> int" where
  "memcmp m ptr1 ptr2 count = memcmp_loop m ptr1 ptr2 (nat count)"

section \<open>memcpy\<close>

fun memcpy_loop :: "memory \<Rightarrow> addr \<Rightarrow> addr \<Rightarrow> nat \<Rightarrow> nat \<Rightarrow> memory" where
  "memcpy_loop m src dest i 0 = m"
| "memcpy_loop m src dest i (Suc left) =
     memcpy_loop (m(dest + of_nat i := m (src + of_nat i))) src dest (Suc i) left"

definition memcpy :: "memory \<Rightarrow> addr \<Rightarrow> addr \<Rightarrow> int \<Rightarrow> memory" where
  "memcpy m ptr1 ptr2 count = memcpy_loop m ptr1 ptr2 0 (nat count)"

section \<open>Closed forms\<close>

lemma memset_loop_eq:
  assumes "i + n \<le> 4294967296"
  shows "memset_loop m p c i n a =
    (if i \<le> unat (a - p) \<and> unat (a - p) < i + n then c else m a)"
  using assms
proof (induction n arbitrary: m i)
  case 0
  then show ?case by auto
next
  case (Suc n)
  have "a = p + of_nat i \<longleftrightarrow> unat (a - p) = i"
    using Suc.prems by (simp add: region_offset)
  then show ?case using Suc by auto
qed

lemma memset_eq [mem_simps]:
  "memset m p n sz a = (if a \<in> region p (unat sz) then of_int n else m a)"
  using unat_u32_less [of sz] by (simp add: memset_def memset_loop_eq region_def)

text \<open>
  What a forward copy leaves behind: in a disjoint copy the destination ends up with the
  bytes the source had, and nothing else changes.
\<close>

lemma memcpy_loop_frame:
  assumes "i + n \<le> 4294967296" "unat (a - dest) < i \<or> i + n \<le> unat (a - dest)"
  shows "memcpy_loop m src dest i n a = m a"
  using assms
proof (induction n arbitrary: m i)
  case 0
  then show ?case by simp
next
  case (Suc n)
  have "a \<noteq> dest + of_nat i" using Suc.prems by (auto simp: region_offset)
  moreover have "memcpy_loop m' src dest (Suc i) n a = m' a" for m'
    using Suc.prems by (intro Suc.IH) auto
  ultimately show ?case by simp
qed

lemma memcpy_loop_dest:
  assumes "i \<le> k" "k < i + n" "i + n \<le> 4294967296"
    and "region src (i + n) \<inter> region dest (i + n) = {}"
  shows "memcpy_loop m src dest i n (dest + of_nat k) = m (src + of_nat k)"
  using assms
proof (induction n arbitrary: m i)
  case 0
  then show ?case by simp
next
  case (Suc n)
  show ?case
  proof (cases "i = k")
    case True
    with Suc.prems show ?thesis by (simp add: memcpy_loop_frame)
  next
    case False
    have "src + of_nat k \<in> region src (i + Suc n)" "dest + of_nat i \<in> region dest (i + Suc n)"
      using Suc.prems by (simp_all add: region_def)
    then have "src + of_nat k \<noteq> dest + of_nat i" using Suc.prems(4) by auto
    with False Suc show ?thesis by simp
  qed
qed

lemma memcpy_disjoint [mem_simps]:
  assumes "region src (nat n) \<inter> region dest (nat n) = {}" "n \<le> 4294967296"
  shows "memcpy m src dest n a =
    (if a \<in> region dest (nat n) then m (src + (a - dest)) else m a)"
proof (cases "a \<in> region dest (nat n)")
  case True
  then obtain k where k: "k < nat n" "a = dest + of_nat k" by (rule region_elem)
  then show ?thesis
    using assms True by (simp add: memcpy_def memcpy_loop_dest)
next
  case False
  with assms(2) show ?thesis by (simp add: memcpy_def memcpy_loop_frame region_def)
qed

lemma memcmp_loop_eq: "memcmp_loop m p q n = 0 \<longleftrightarrow> n = 0 \<or> m p = m q"
  by (induction n) auto

section \<open>Properties\<close>

text \<open>
  \<^verbatim>\<open>memcmp\<close> compares one byte.  The loop never advances, so for a positive count the
  result is 0 exactly when the first bytes are equal, whatever the others are.
\<close>

lemma memcmp_first_byte: "memcmp m p q n = 0 \<longleftrightarrow> n \<le> 0 \<or> m p = m q"
  by (auto simp: memcmp_def memcmp_loop_eq)

end
