(* ===== verification/Zhios_Heap.thy ===== *)
theory Zhios_Heap
  imports Zhios_Memory
begin

text \<open>
  The block allocator of \<^verbatim>\<open>src/src/memory/heap/heap.c\<close>.  The allocation table is an array of
  bytes in memory, one per 4096-byte block, at address \<open>entries\<close>; an operation reads and
  writes \<open>entries + i\<close> whatever \<open>i\<close> is, so that running past the table touches the memory
  behind it, as in the C code.  The abstraction is \<open>runs\<close>: the set of allocated runs
  (first block, number of blocks) that the table encodes.  The lemmas show that allocation
  inserts one run into free blocks and that freeing a run's first block removes exactly it.
\<close>

section \<open>Definitions\<close>

abbreviation (input) HEAP_BLOCK_TAKEN :: u8 where
  "HEAP_BLOCK_TAKEN \<equiv> 0x01"

abbreviation (input) HEAP_BLOCK_FREE :: u8 where
  "HEAP_BLOCK_FREE \<equiv> 0x00"

abbreviation (input) HEAP_BLOCK_HAS_NEXT :: u8 where
  "HEAP_BLOCK_HAS_NEXT \<equiv> 0x80"

abbreviation (input) HEAP_BLOCK_IS_FIRST :: u8 where
  "HEAP_BLOCK_IS_FIRST \<equiv> 0x40"

record heap_table =
  total :: u32
  entries :: addr

record heap =
  table :: heap_table
  start_address :: addr

definition is_valid_alignment :: "addr \<Rightarrow> bool" where
  "is_valid_alignment ptr \<longleftrightarrow> ptr mod ZHIOS_HEAP_BLOCK_SIZE = 0"

definition is_valid_table :: "addr \<Rightarrow> addr \<Rightarrow> heap_table \<Rightarrow> bool" where
  "is_valid_table ptr end_ptr tab =
     (let sz = end_ptr - ptr; total_blocks = sz div ZHIOS_HEAP_BLOCK_SIZE
      in \<not> (total tab \<noteq> total_blocks))"

text \<open>The table is cleared before its size is checked.\<close>

definition heap_create ::
  "heap \<Rightarrow> addr \<Rightarrow> addr \<Rightarrow> heap_table \<Rightarrow> memory \<Rightarrow> int \<times> heap \<times> memory" where
  "heap_create hp ptr end_ptr tab m =
     (if \<not> is_valid_alignment ptr \<or> \<not> is_valid_alignment end_ptr then (- EINARG, hp, m)
      else (let m' = memset m (entries tab) 0 (1 * total tab) in
            if \<not> is_valid_table ptr end_ptr tab then (- EINARG, hp, m')
            else (0, hp\<lparr>start_address := ptr, table := tab\<rparr>, m')))"

definition heap_get_entry_type :: "u8 \<Rightarrow> int" where
  "heap_get_entry_type entry = uint (entry AND HEAP_BLOCK_TAKEN)"

text \<open>
  The scan of \<open>heap_get_free_block\<close>: \<open>left\<close> entries remain from index \<open>i\<close> on.  It stops early
  when \<open>total_blocks\<close> free entries in a row have been seen; at the end of the table it
  returns whatever \<open>start_block\<close> is then.
\<close>

fun heap_scan :: "memory \<Rightarrow> addr \<Rightarrow> nat \<Rightarrow> nat \<Rightarrow> nat \<Rightarrow> nat \<Rightarrow> int \<Rightarrow> int" where
  "heap_scan m es total_blocks i 0 block_count start_block = start_block"
| "heap_scan m es total_blocks i (Suc left) block_count start_block =
     (if heap_get_entry_type (m (es + of_nat i)) \<noteq> 0
      then heap_scan m es total_blocks (Suc i) left 0 (-1)
      else (let start_block' = (if start_block = -1 then int i else start_block);
                block_count' = Suc block_count
            in if block_count' = total_blocks then start_block'
               else heap_scan m es total_blocks (Suc i) left block_count' start_block'))"

definition heap_get_free_block :: "heap \<Rightarrow> u32 \<Rightarrow> memory \<Rightarrow> int" where
  "heap_get_free_block hp total_blocks m =
     (let start_block =
            heap_scan m (entries (table hp)) (unat total_blocks) 0 (unat (total (table hp))) 0 (-1)
      in if start_block = -1 then - EMEM else start_block)"

definition get_offset :: "int \<Rightarrow> u32" where
  "get_offset block = ZHIOS_HEAP_BLOCK_SIZE * of_int block"

text \<open>The marking loop of \<open>heap_allocate_blocks\<close>, with \<open>entry\<close> the mark for block \<open>i\<close>.\<close>

function heap_mark :: "memory \<Rightarrow> addr \<Rightarrow> int \<Rightarrow> int \<Rightarrow> u8 \<Rightarrow> memory" where
  "heap_mark m es i end_block entry =
     (if i \<le> end_block
      then heap_mark (m(es + of_int i := entry)) es (i + 1) end_block
             (if i \<noteq> end_block - 1 then HEAP_BLOCK_TAKEN OR HEAP_BLOCK_HAS_NEXT
              else HEAP_BLOCK_TAKEN)
      else m)"
  by pat_completeness auto
termination
  by (relation "measure (\<lambda>(m, es, i, end_block, entry). nat (end_block + 1 - i))") auto

definition heap_allocate_blocks :: "heap \<Rightarrow> int \<Rightarrow> int \<Rightarrow> memory \<Rightarrow> memory" where
  "heap_allocate_blocks hp start_block total_blocks m =
     (let end_block = (total_blocks + start_block) - 1;
          entry = HEAP_BLOCK_TAKEN OR HEAP_BLOCK_IS_FIRST;
          entry' = (if total_blocks > 1 then entry OR HEAP_BLOCK_HAS_NEXT else entry)
      in heap_mark m (entries (table hp)) start_block end_block entry')"

definition heap_malloc_blocks :: "heap \<Rightarrow> u32 \<Rightarrow> memory \<Rightarrow> addr \<times> memory" where
  "heap_malloc_blocks hp total_blocks m =
     (let start_block = heap_get_free_block hp total_blocks m in
      if start_block < 0 then (0, m)
      else (start_address hp + get_offset start_block,
            heap_allocate_blocks hp start_block (sint total_blocks) m))"

definition heap_align_size :: "u32 \<Rightarrow> u32" where
  "heap_align_size sz =
     (let misaligned_size = sz mod ZHIOS_HEAP_BLOCK_SIZE in
      if misaligned_size = 0 then sz
      else (sz - misaligned_size) + ZHIOS_HEAP_BLOCK_SIZE)"

text \<open>The pointer difference is signed and the division truncates towards zero.\<close>

definition address_to_heap_block :: "heap \<Rightarrow> addr \<Rightarrow> int" where
  "address_to_heap_block hp address =
     sint (address - start_address hp) sdiv ZHIOS_HEAP_BLOCK_SIZE"

function heap_clear :: "memory \<Rightarrow> addr \<Rightarrow> int \<Rightarrow> int \<Rightarrow> memory" where
  "heap_clear m es i tot =
     (if i < tot
      then (let entry = m (es + of_int i); m' = m(es + of_int i := HEAP_BLOCK_FREE)
            in if entry AND HEAP_BLOCK_HAS_NEXT = 0 then m' else heap_clear m' es (i + 1) tot)
      else m)"
  by pat_completeness auto
termination
  by (relation "measure (\<lambda>(m, es, i, tot). nat (tot - i))") auto

definition heap_free_blocks :: "heap \<Rightarrow> int \<Rightarrow> memory \<Rightarrow> memory" where
  "heap_free_blocks hp block m =
     heap_clear m (entries (table hp)) block (sint (total (table hp)))"

definition heap_malloc :: "heap \<Rightarrow> u32 \<Rightarrow> memory \<Rightarrow> addr \<times> memory" where
  "heap_malloc hp sz m =
     (let aligned_size = heap_align_size sz;
          total_blocks = aligned_size div ZHIOS_HEAP_BLOCK_SIZE
      in heap_malloc_blocks hp total_blocks m)"

definition heap_free :: "heap \<Rightarrow> addr \<Rightarrow> memory \<Rightarrow> memory" where
  "heap_free hp ptr m = heap_free_blocks hp (address_to_heap_block hp ptr) m"

declare heap_mark.simps [simp del] heap_clear.simps [simp del]

section \<open>The abstraction: allocated runs\<close>

definition blocks :: "heap \<Rightarrow> nat" where
  "blocks hp = unat (total (table hp))"

definition entry_at :: "heap \<Rightarrow> memory \<Rightarrow> nat \<Rightarrow> u8" where
  "entry_at hp m i = m (entries (table hp) + of_nat i)"

definition free_at :: "heap \<Rightarrow> memory \<Rightarrow> nat \<Rightarrow> bool" where
  "free_at hp m i \<longleftrightarrow> heap_get_entry_type (entry_at hp m i) = 0"

definition free_run :: "heap \<Rightarrow> memory \<Rightarrow> nat \<Rightarrow> nat \<Rightarrow> bool" where
  "free_run hp m s n \<longleftrightarrow> s + n \<le> blocks hp \<and> (\<forall>k<n. free_at hp m (s + k))"

text \<open>The mark of the \<open>k\<close>-th block of a run of \<open>n\<close> blocks.\<close>

definition mark :: "nat \<Rightarrow> nat \<Rightarrow> u8" where
  "mark n k =
     (HEAP_BLOCK_TAKEN OR (if k = 0 then HEAP_BLOCK_IS_FIRST else 0))
       OR (if Suc k < n then HEAP_BLOCK_HAS_NEXT else 0)"

definition run_at :: "heap \<Rightarrow> memory \<Rightarrow> nat \<Rightarrow> nat \<Rightarrow> bool" where
  "run_at hp m b n \<longleftrightarrow>
     0 < n \<and> b + n \<le> blocks hp \<and> (\<forall>k<n. entry_at hp m (b + k) = mark n k)"

definition runs :: "heap \<Rightarrow> memory \<Rightarrow> (nat \<times> nat) set" where
  "runs hp m = {(b, n). run_at hp m b n}"

text \<open>
  The shape of a heap: the table and the managed blocks lie in the address space without
  wrap-around, do not overlap, and the managed blocks do not start at the null address.
\<close>

definition heap_shape :: "heap \<Rightarrow> bool" where
  "heap_shape hp \<longleftrightarrow>
     0 < unat (start_address hp) \<and> unat (start_address hp) mod 4096 = 0 \<and>
     blocks hp < 524288 \<and>
     unat (start_address hp) + 4096 * blocks hp \<le> 4294967296 \<and>
     unat (entries (table hp)) + blocks hp \<le> unat (start_address hp)"

text \<open>The invariant: every entry is free or part of an allocated run.\<close>

definition heap_ok :: "heap \<Rightarrow> memory \<Rightarrow> bool" where
  "heap_ok hp m \<longleftrightarrow> heap_shape hp \<and>
     (\<forall>i<blocks hp. entry_at hp m i = HEAP_BLOCK_FREE \<or>
        (\<exists>b n. run_at hp m b n \<and> b \<le> i \<and> i < b + n))"

subsection \<open>Marks\<close>

lemma mark_bits [simp]:
  "bit (mark n k) 0" "bit (mark n k) 6 \<longleftrightarrow> k = 0" "bit (mark n k) 7 \<longleftrightarrow> Suc k < n"
  by (simp_all add: mark_def bit_simps)

lemma mark_not_free [simp]: "mark n k \<noteq> 0"
  using mark_bits(1) [of n k] by fastforce

lemma mark_values:
  "mark n 0 = (if 1 < n then 0xC1 else 0x41)"
  "mark n (Suc k) = (if Suc (Suc k) < n then 0x81 else 0x01)"
  by (simp_all add: mark_def)

lemma entry_type_bit: "heap_get_entry_type e = 0 \<longleftrightarrow> \<not> bit e 0"
proof -
  have "e AND 1 = of_bool (bit e 0)"
    by (simp add: and_one_eq mod_2_eq_odd bit_0)
  then show ?thesis by (simp add: heap_get_entry_type_def)
qed

lemma has_next_bit: "e AND 0x80 = 0 \<longleftrightarrow> \<not> bit (e :: u8) 7"
proof -
  have "(0x80 :: u8) = 2 ^ 7" by simp
  then show ?thesis
    by (simp only: and_exp_eq_0_iff_not_bit)
qed

subsection \<open>Addresses of table entries\<close>

lemma entry_offset:
  fixes x es :: addr
  assumes "j < 4294967296"
  shows "x = es + of_int (int j) \<longleftrightarrow> unat (x - es) = j"
  using region_offset [OF assms, of x es] by simp

lemma blocks_small: "blocks hp < 4294967296"
  using unat_u32_less by (simp add: blocks_def)

lemma entry_at_upd:
  assumes "i < blocks hp" "j < blocks hp"
  shows "entry_at hp (m(entries (table hp) + of_nat i := e)) j = (if i = j then e else entry_at hp m j)"
proof -
  have "entries (table hp) + of_nat j = entries (table hp) + of_nat i \<longleftrightarrow> j = i"
    using assms blocks_small [of hp] region_offset [of i "entries (table hp) + of_nat j" "entries (table hp)"]
    by simp
  then show ?thesis by (auto simp: entry_at_def)
qed

section \<open>The scan is first-fit\<close>

lemma heap_scan_spec:
  assumes "i + left = blocks hp" "bc \<le> i" "bc < n"
    and "sb = -1 \<and> bc = 0 \<or> sb = int (i - bc) \<and> 0 < bc"
    and "\<forall>k. i - bc \<le> k \<and> k < i \<longrightarrow> free_at hp m k"
    and "\<forall>s. free_run hp m s n \<longrightarrow> i - bc \<le> s"
    and "bc = 0 \<longrightarrow> i = 0 \<or> \<not> free_at hp m (i - 1)"
    and "r = heap_scan m (entries (table hp)) n i left bc sb"
  shows "(\<exists>s. r = int s \<and> free_run hp m s n \<and> (\<forall>s'. free_run hp m s' n \<longrightarrow> s \<le> s')) \<or>
    (\<forall>s. \<not> free_run hp m s n) \<and>
    (r = -1 \<and> (blocks hp = 0 \<or> \<not> free_at hp m (blocks hp - 1)) \<or>
     (\<exists>s. r = int s \<and> s < blocks hp \<and> blocks hp < s + n \<and>
                  (\<forall>k. s \<le> k \<and> k < blocks hp \<longrightarrow> free_at hp m k)))"
  using assms
proof (induction left arbitrary: i bc sb)
  case 0
  have "\<not> free_run hp m s n" for s
    using 0 by (fastforce simp: free_run_def)
  moreover have "int (blocks hp - bc) = int (blocks hp) - int bc"
    using 0 by (simp add: of_nat_diff)
  ultimately show ?case using 0 by (auto intro!: exI [of _ "blocks hp - bc"])
next
  case (Suc left)
  have ent: "m (entries (table hp) + of_nat i) = entry_at hp m i" by (simp add: entry_at_def)
  show ?case
  proof (cases "free_at hp m i")
    case False
    have "Suc i \<le> s" if s: "free_run hp m s n" for s
    proof (rule ccontr)
      assume "\<not> Suc i \<le> s"
      then have "s \<le> i" by simp
      moreover have "i - bc \<le> s" using Suc.prems(6) s by blast
      ultimately have "i = s + (i - s)" "i - s < n" using Suc.prems(2,3) by auto
      then have "free_at hp m i" using s unfolding free_run_def by metis
      with False show False by simp
    qed
    moreover have "r = heap_scan m (entries (table hp)) n (Suc i) left 0 (-1)"
      using Suc.prems(8) False by (simp add: ent free_at_def)
    ultimately show ?thesis
      using Suc.prems(1,3) False by (intro Suc.IH [of "Suc i" 0 "-1"]) auto
  next
    case True
    let ?sb = "if sb = -1 then int i else sb"
    have sb: "?sb = int (i - bc)" using Suc.prems(4) by auto
    have free: "\<forall>k. i - bc \<le> k \<and> k < Suc i \<longrightarrow> free_at hp m k"
      using Suc.prems(5) True by (auto simp: less_Suc_eq)
    show ?thesis
    proof (cases "Suc bc = n")
      case True
      then have "free_run hp m (i - bc) n"
      proof -
        have "i - bc \<le> i - bc + k \<and> i - bc + k < Suc i" if "k < n" for k
          using that True Suc.prems(2) by linarith
        then have "free_at hp m (i - bc + k)" if "k < n" for k
          using free that by blast
        then show ?thesis using Suc.prems(1,2) True by (simp add: free_run_def)
      qed
      moreover have "r = int (i - bc)"
        using Suc.prems(8) \<open>free_at hp m i\<close> True sb by (simp add: ent free_at_def Let_def)
      ultimately show ?thesis using Suc.prems(6) by blast
    next
      case False
      have "r = heap_scan m (entries (table hp)) n (Suc i) left (Suc bc) ?sb"
        using Suc.prems(8) \<open>free_at hp m i\<close> False by (simp add: ent free_at_def Let_def)
      then show ?thesis
        using Suc.prems False free sb
        by (intro Suc.IH [of "Suc i" "Suc bc" ?sb]) auto
    qed
  qed
qed

lemma heap_get_free_block_fit:
  assumes "0 < unat n" "free_run hp m s0 (unat n)"
  obtains s where "heap_get_free_block hp n m = int s" "free_run hp m s (unat n)"
    "\<forall>s'. free_run hp m s' (unat n) \<longrightarrow> s \<le> s'"
  using heap_scan_spec [of 0 "blocks hp" hp 0 "unat n" "-1" m, OF _ _ _ _ _ _ _ refl] assms that
  by (fastforce simp: heap_get_free_block_def blocks_def)

section \<open>Marking and clearing\<close>

lemma heap_mark_eq:
  assumes "a + k < 4294967296"
  shows "heap_mark m es (int a) (int (a + k)) e x =
    (let j = unat (x - es) in
     if j = a then e
     else if a < j \<and> j \<le> a + k then (if j = a + k then 0x01 else 0x81) else m x)"
  using assms
proof (induction k arbitrary: m a e)
  case 0
  then show ?case
    using entry_offset [of a x es]
    by (auto simp: heap_mark.simps [of m es "int a"] heap_mark.simps [of _ es "int a + 1"] Let_def)
next
  case (Suc k)
  let ?e = "if k \<noteq> 0 then 0x81 else 0x01 :: u8"
  have "heap_mark m es (int a) (int (a + Suc k)) e =
      heap_mark (m(es + of_int (int a) := e)) es (int (Suc a)) (int (Suc a + k)) ?e"
    by (subst heap_mark.simps) (simp add: add.commute)
  moreover have "heap_mark (m(es + of_int (int a) := e)) es (int (Suc a)) (int (Suc a + k)) ?e x =
    (let j = unat (x - es) in
     if j = Suc a then ?e
     else if Suc a < j \<and> j \<le> Suc a + k then (if j = Suc a + k then 0x01 else 0x81)
     else (m(es + of_int (int a) := e)) x)"
    using Suc.prems by (intro Suc.IH) simp
  moreover have "x = es + of_int (int a) \<longleftrightarrow> unat (x - es) = a"
    using Suc.prems by (intro entry_offset) simp
  ultimately show ?case by (auto simp: Let_def)
qed

lemma heap_allocate_blocks_eq:
  assumes "0 < n" "s + n \<le> 4294967296"
  shows "heap_allocate_blocks hp (int s) (int n) m x =
    (let j = unat (x - entries (table hp)) in
     if s \<le> j \<and> j < s + n then mark n (j - s) else m x)"
proof -
  let ?es = "entries (table hp)" and ?e = "if 1 < n then 0xC1 else 0x41 :: u8"
  have eb: "int n + int s - 1 = int (s + (n - 1))" using assms(1) by (simp add: of_nat_diff)
  have "heap_allocate_blocks hp (int s) (int n) m = heap_mark m ?es (int s) (int (s + (n - 1))) ?e"
    unfolding heap_allocate_blocks_def Let_def eb by simp
  moreover have "\<dots> x = (let j = unat (x - ?es) in
     if j = s then ?e
     else if s < j \<and> j \<le> s + (n - 1) then (if j = s + (n - 1) then 0x01 else 0x81) else m x)"
    using assms by (intro heap_mark_eq) simp
  moreover have "mark n (j - s) =
      (if j = s then ?e else if j = s + (n - 1) then 0x01 else 0x81)"
    if "s \<le> j" "j < s + n" for j
    using that by (cases "j - s") (auto simp: mark_values)
  ultimately show ?thesis using assms(1) by (simp add: Let_def) linarith
qed

text \<open>
  Clearing from \<open>b\<close> stops after the first entry without the \<open>HAS_NEXT\<close> bit; on a run of
  \<open>n\<close> blocks that is the run's last block.
\<close>

lemma heap_clear_eq:
  assumes "0 < n" "b + n \<le> tot" "tot < 4294967296"
    and "\<And>k. k < n \<Longrightarrow> bit (m (es + of_nat (b + k))) 7 \<longleftrightarrow> Suc k < n"
  shows "heap_clear m es (int b) (int tot) x =
    (let j = unat (x - es) in if b \<le> j \<and> j < b + n then 0 else m x)"
  using assms
proof (induction n arbitrary: b m)
  case 0
  then show ?case by simp
next
  case (Suc n)
  let ?m = "m(es + of_int (int b) := 0)"
  have x: "x = es + of_int (int b) \<longleftrightarrow> unat (x - es) = b"
    using Suc.prems by (intro entry_offset) simp
  have next_bit: "m (es + of_int (int b)) AND 0x80 = 0 \<longleftrightarrow> n = 0"
    using Suc.prems(4) [of 0] by (simp add: has_next_bit)
  show ?case
  proof (cases "n = 0")
    case True
    then have "heap_clear m es (int b) (int tot) = ?m"
      using Suc.prems next_bit by (subst heap_clear.simps) (simp add: Let_def)
    then show ?thesis using x True by (auto simp: Let_def)
  next
    case False
    then have "heap_clear m es (int b) (int tot) = heap_clear ?m es (int (Suc b)) (int tot)"
      using Suc.prems next_bit by (subst heap_clear.simps) (simp add: Let_def add.commute)
    moreover have "bit (?m (es + of_nat (Suc b + k))) 7 \<longleftrightarrow> Suc k < n" if "k < n" for k
    proof -
      have "unat (es + of_nat (Suc b + k) - es) = Suc b + k"
        using Suc.prems(2,3) that by (simp only: add_diff_cancel_left' unat_of_nat_small)
      then have "es + of_nat (Suc b + k) \<noteq> es + of_int (int b)"
        using entry_offset [of b "es + of_nat (Suc b + k)" es] Suc.prems(2,3) by linarith
      then show ?thesis using Suc.prems(4) [of "Suc k"] that by simp
    qed
    then have "heap_clear ?m es (int (Suc b)) (int tot) x =
        (let j = unat (x - es) in if Suc b \<le> j \<and> j < Suc b + n then 0 else ?m x)"
      using Suc.prems False by (intro Suc.IH) simp_all
    ultimately show ?thesis using x by (auto simp: Let_def)
  qed
qed

text \<open>Whatever the table holds, clearing only ever writes \<open>HEAP_BLOCK_FREE\<close>, first of all to entry \<open>i\<close>.\<close>

lemma heap_clear_cases: "heap_clear m es i tot x = m x \<or> heap_clear m es i tot x = 0"
proof (induction "nat (tot - i)" arbitrary: m i)
  case 0
  then show ?case by (subst (1 2) heap_clear.simps) auto
next
  case (Suc n)
  then have less: "i < tot" and n: "n = nat (tot - (i + 1))" by auto
  let ?m = "m(es + of_int i := 0)"
  have "heap_clear ?m es (i + 1) tot x = ?m x \<or> heap_clear ?m es (i + 1) tot x = 0"
    using Suc.hyps(1) [OF n] .
  then show ?case using less by (subst (1 2) heap_clear.simps) (auto simp: Let_def split: if_splits)
qed

lemma heap_clear_first:
  assumes "i < tot"
  shows "heap_clear m es i tot (es + of_int i) = 0"
  using assms heap_clear_cases [of "m(es + of_int i := 0)" es "i + 1" tot "es + of_int i"]
  by (subst heap_clear.simps) (auto simp: Let_def)

section \<open>Runs under allocation and release\<close>

text \<open>Two runs that share a block are the same run.\<close>

lemma run_start_unique:
  assumes "run_at hp m b n" "run_at hp m c k" "b \<le> i" "i < b + n" "c \<le> i" "i < c + k"
  shows "c \<le> b"
proof (rule ccontr)
  assume "\<not> c \<le> b"
  then obtain d where d: "c = b + d" "0 < d" using less_imp_add_positive by (metis not_le)
  then have "d < n" using assms(4,5) by simp
  then have "entry_at hp m c = mark n d" using assms(1) d(1) by (simp add: run_at_def)
  moreover have "entry_at hp m (c + 0) = mark k 0"
    using assms(2) unfolding run_at_def by blast
  ultimately have "mark n d = mark k 0" by simp
  then have "bit (mark n d) 6 = bit (mark k 0) 6" by simp
  then show False using d(2) by simp
qed

lemma run_unique:
  assumes "run_at hp m b n" "run_at hp m c k" "b \<le> i" "i < b + n" "c \<le> i" "i < c + k"
  shows "b = c \<and> n = k"
proof -
  have bc: "b = c"
    using run_start_unique [OF assms] run_start_unique [OF assms(2,1,5,6,3,4)] by simp
  let ?j = "min n k - 1"
  have pos: "0 < n" "0 < k" using assms(1,2) by (simp_all add: run_at_def)
  then have j: "?j < n" "?j < k" by auto
  have "entry_at hp m (b + ?j) = mark n ?j" using assms(1) j(1) unfolding run_at_def by blast
  moreover have "entry_at hp m (b + ?j) = mark k ?j"
    using assms(2) j(2) bc unfolding run_at_def by blast
  ultimately have "mark n ?j = mark k ?j" by simp
  then have "bit (mark n ?j) 7 = bit (mark k ?j) 7" by simp
  then have "n = k" using pos by (simp split: if_splits) linarith
  with bc show ?thesis by simp
qed

lemma run_at_cong:
  assumes "\<And>i. b \<le> i \<Longrightarrow> i < b + n \<Longrightarrow> entry_at hp m' i = entry_at hp m i"
  shows "run_at hp m' b n \<longleftrightarrow> run_at hp m b n"
  using assms by (auto simp: run_at_def)

lemma run_taken: "run_at hp m b n \<Longrightarrow> b \<le> i \<Longrightarrow> i < b + n \<Longrightarrow> \<not> free_at hp m i"
proof -
  assume r: "run_at hp m b n" and i: "b \<le> i" "i < b + n"
  then obtain k where "i = b + k" "k < n" by (metis le_iff_add nat_add_left_cancel_less)
  with r show ?thesis by (simp add: run_at_def free_at_def entry_type_bit)
qed

lemma heap_ok_free: "heap_ok hp m \<Longrightarrow> free_at hp m i \<Longrightarrow> i < blocks hp \<Longrightarrow> entry_at hp m i = 0"
  unfolding heap_ok_def using run_taken by blast

lemma runs_insert:
  assumes fr: "free_run hp m s n" and n: "0 < n"
    and new: "\<And>i. i < blocks hp \<Longrightarrow>
      entry_at hp m' i = (if s \<le> i \<and> i < s + n then mark n (i - s) else entry_at hp m i)"
  shows "runs hp m' = insert (s, n) (runs hp m)"
proof -
  have sn: "s + n \<le> blocks hp" using fr by (simp add: free_run_def)
  have run: "run_at hp m' s n"
    using n sn by (auto simp: run_at_def new)
  have "run_at hp m b k" if r: "run_at hp m' b k" and ne: "(b, k) \<noteq> (s, n)" for b k
  proof -
    have le: "b + k \<le> blocks hp" using r by (simp add: run_at_def)
    have "\<not> (s \<le> i \<and> i < s + n)" if "b \<le> i" "i < b + k" for i
      using run_unique [OF r run that] ne by auto
    then show ?thesis
      using r le by (subst run_at_cong [of b k hp m m']) (auto simp: new)
  qed
  moreover have "run_at hp m' b k" if r: "run_at hp m b k" for b k
  proof -
    have le: "b + k \<le> blocks hp" using r by (simp add: run_at_def)
    have "\<not> (s \<le> i \<and> i < s + n)" if i: "b \<le> i" "i < b + k" for i
    proof
      assume "s \<le> i \<and> i < s + n"
      then have "free_at hp m (s + (i - s))" using fr unfolding free_run_def
        by (metis less_diff_conv2 add.commute)
      with run_taken [OF r i] \<open>s \<le> i \<and> i < s + n\<close> show False by simp
    qed
    then show ?thesis
      using r le by (subst run_at_cong [of b k hp m' m]) (auto simp: new)
  qed
  ultimately show ?thesis using run by (auto simp: runs_def)
qed

lemma runs_remove:
  assumes r: "run_at hp m s n"
    and new: "\<And>i. i < blocks hp \<Longrightarrow>
      entry_at hp m' i = (if s \<le> i \<and> i < s + n then 0 else entry_at hp m i)"
  shows "runs hp m' = runs hp m - {(s, n)}"
proof -
  have sn: "s + n \<le> blocks hp" "0 < n" using r by (simp_all add: run_at_def)
  have out: "\<not> (s \<le> i \<and> i < s + n)" if "run_at hp m' b k" "b \<le> i" "i < b + k" for b k i
    using run_taken [OF that] that sn(1) by (auto simp: new free_at_def entry_type_bit run_at_def)
  have "run_at hp m b k \<and> (b, k) \<noteq> (s, n)" if q: "run_at hp m' b k" for b k
  proof -
    have le: "b + k \<le> blocks hp" "0 < k" using q by (simp_all add: run_at_def)
    have "run_at hp m b k"
      using q le out [OF q] by (subst run_at_cong [of b k hp m m']) (auto simp: new)
    moreover have "(b, k) \<noteq> (s, n)" using out [OF q, of b] le(2) sn by auto
    ultimately show ?thesis by simp
  qed
  moreover have "run_at hp m' b k" if q: "run_at hp m b k" and ne: "(b, k) \<noteq> (s, n)" for b k
  proof -
    have le: "b + k \<le> blocks hp" using q by (simp add: run_at_def)
    have "\<not> (s \<le> i \<and> i < s + n)" if "b \<le> i" "i < b + k" for i
      using run_unique [OF q r that] ne by auto
    then show ?thesis
      using q le by (subst run_at_cong [of b k hp m' m]) (auto simp: new)
  qed
  ultimately show ?thesis by (auto simp: runs_def)
qed

section \<open>malloc and free\<close>

definition blocks_for :: "u32 \<Rightarrow> nat" where
  "blocks_for sz = (unat sz + 4095) div 4096"

lemma heap_align_size_blocks:
  assumes "unat sz \<le> 4294963200"
  shows "unat (heap_align_size sz div 4096) = blocks_for sz"
proof -
  have m: "unat (sz mod 4096) = unat sz mod 4096" by (simp add: unat_mod)
  have le: "sz mod 4096 \<le> sz" by (simp add: word_le_nat_alt m)
  have eq0: "sz mod 4096 = 0 \<longleftrightarrow> unat sz mod 4096 = 0"
    using m by (metis unat_eq_zero)
  show ?thesis
  proof (cases "unat sz mod 4096 = 0")
    case True
    then obtain k where "unat sz = 4096 * k" by (metis mod_0_imp_dvd dvdE)
    then show ?thesis
      using True eq0 by (simp add: heap_align_size_def blocks_for_def unat_div)
  next
    case False
    have "unat (sz - sz mod 4096 + of_nat 4096) = unat sz - unat sz mod 4096 + 4096"
    proof -
      have "unat (sz - sz mod 4096) = unat sz - unat sz mod 4096"
        using le m by (simp add: unat_diff_le)
      then show ?thesis using assms False by (subst unat_add_small) linarith+
    qed
    then have "unat (heap_align_size sz div 4096) = (unat sz - unat sz mod 4096 + 4096) div 4096"
      using False eq0 by (simp add: heap_align_size_def unat_div)
    also have "\<dots> = blocks_for sz"
    proof -
      obtain q r where u: "unat sz = 4096 * q + r" "r < 4096"
        using mult_div_mod_eq [of 4096 "unat sz"] mod_less_divisor [of 4096 "unat sz"]
        by (metis zero_less_numeral)
      with False have "0 < r" by simp
      then have "(r + 4095) div 4096 = 1" using u(2) by (simp add: div_nat_eqI)
      moreover have "(4096 * q + (r + 4095)) div 4096 = q + (r + 4095) div 4096" by simp
      ultimately show ?thesis using u by (simp add: blocks_for_def add.assoc)
    qed
    finally show ?thesis .
  qed
qed

lemma heap_shape_sint:
  fixes n :: u32
  assumes "heap_shape hp" "unat n \<le> blocks hp"
  shows "sint n = int (unat n)"
  using assms by (intro sint_eq_uint_small) (simp add: heap_shape_def)

lemma entry_of_offset:
  assumes "i < blocks hp"
  shows "unat (entries (table hp) + of_nat i - entries (table hp)) = i"
  using assms blocks_small [of hp] by simp

lemma blocks_in_table:
  assumes "x \<notin> region (entries (table hp)) (blocks hp)" "s + n \<le> blocks hp"
  shows "\<not> (s \<le> unat (x - entries (table hp)) \<and> unat (x - entries (table hp)) < s + n)"
  using assms by (simp add: region_def)

text \<open>
  Allocation when some run of free blocks is large enough: the lowest such run is taken,
  the table gains exactly that run, and memory outside the table does not change.
\<close>

lemma heap_malloc_blocks_fit:
  assumes ok: "heap_ok hp m" and n: "0 < unat n" and fit: "free_run hp m s0 (unat n)"
  obtains s m' where "heap_malloc_blocks hp n m = (start_address hp + of_nat (4096 * s), m')"
    "free_run hp m s (unat n)" "\<forall>s'. free_run hp m s' (unat n) \<longrightarrow> s \<le> s'"
    "\<And>x. m' x = (let j = unat (x - entries (table hp)) in
        if s \<le> j \<and> j < s + unat n then mark (unat n) (j - s) else m x)"
proof -
  obtain s where s: "heap_get_free_block hp n m = int s" "free_run hp m s (unat n)"
      "\<forall>s'. free_run hp m s' (unat n) \<longrightarrow> s \<le> s'"
    using heap_get_free_block_fit [OF n fit] by blast
  have sn: "s + unat n \<le> blocks hp" using s(2) by (simp add: free_run_def)
  have "sint n = int (unat n)"
    using ok sn by (intro heap_shape_sint) (auto simp: heap_ok_def)
  then have "heap_malloc_blocks hp n m =
      (start_address hp + of_nat (4096 * s), heap_allocate_blocks hp (int s) (int (unat n)) m)"
    by (simp add: heap_malloc_blocks_def s(1) get_offset_def Let_def del: int_nat_eq)
  moreover have "heap_allocate_blocks hp (int s) (int (unat n)) m x =
      (let j = unat (x - entries (table hp)) in
        if s \<le> j \<and> j < s + unat n then mark (unat n) (j - s) else m x)" for x
    using n sn blocks_small [of hp] by (intro heap_allocate_blocks_eq) auto
  ultimately show ?thesis using s that by blast
qed

lemma heap_malloc_blocks_ok:
  assumes ok: "heap_ok hp m" and n: "0 < n" and fr: "free_run hp m s n"
    and upd: "\<And>x. m' x = (let j = unat (x - entries (table hp)) in
        if s \<le> j \<and> j < s + n then mark n (j - s) else m x)"
  shows "heap_ok hp m'" "runs hp m' = insert (s, n) (runs hp m)"
    "\<And>x. x \<notin> region (entries (table hp)) (blocks hp) \<Longrightarrow> m' x = m x"
proof -
  have ent: "entry_at hp m' i = (if s \<le> i \<and> i < s + n then mark n (i - s) else entry_at hp m i)"
    if "i < blocks hp" for i
    using entry_of_offset [OF that] by (simp add: entry_at_def upd Let_def)
  show rs: "runs hp m' = insert (s, n) (runs hp m)"
    using fr n ent by (rule runs_insert)
  show "m' x = m x" if "x \<notin> region (entries (table hp)) (blocks hp)" for x
    using blocks_in_table [OF that, of s n] fr by (auto simp: upd Let_def free_run_def)
  have run: "run_at hp m' b k \<longleftrightarrow> run_at hp m b k \<or> (b, k) = (s, n)" for b k
    using rs by (auto simp: runs_def set_eq_iff)
  show "heap_ok hp m'"
    unfolding heap_ok_def
  proof (intro conjI allI impI)
    show "heap_shape hp" using ok by (simp add: heap_ok_def)
    fix i
    assume i: "i < blocks hp"
    show "entry_at hp m' i = 0 \<or> (\<exists>b n. run_at hp m' b n \<and> b \<le> i \<and> i < b + n)"
    proof (cases "s \<le> i \<and> i < s + n")
      case True
      then show ?thesis using run by auto
    next
      case False
      then have "entry_at hp m' i = entry_at hp m i" using ent [OF i] by auto
      then show ?thesis using ok i run unfolding heap_ok_def by metis
    qed
  qed
qed

lemma address_to_heap_block_start:
  assumes "heap_shape hp" "b < blocks hp"
  shows "address_to_heap_block hp (start_address hp + of_nat (4096 * b)) = int b"
proof -
  have small: "4096 * b < 2147483648" using assms by (simp add: heap_shape_def)
  then have "unat (of_nat (4096 * b) :: u32) = 4096 * b" by (intro unat_of_nat_small) simp
  with small have "sint (of_nat (4096 * b) :: u32) = int (4096 * b)"
    by (subst sint_eq_uint_small) (simp_all only:)
  then show ?thesis
    unfolding address_to_heap_block_def add_diff_cancel_left'
    by (simp add: signed_divide_int_def sgn_if)
qed

text \<open>Releasing the first block of a run clears exactly the run's entries.\<close>

lemma heap_free_run:
  assumes ok: "heap_ok hp m" and r: "run_at hp m b n"
  shows "heap_free hp (start_address hp + of_nat (4096 * b)) m x =
    (let j = unat (x - entries (table hp)) in if b \<le> j \<and> j < b + n then 0 else m x)"
proof -
  have shape: "heap_shape hp" using ok by (simp add: heap_ok_def)
  have bn: "b + n \<le> blocks hp" "0 < n" using r by (simp_all add: run_at_def)
  have "sint (total (table hp)) = int (blocks hp)"
    using heap_shape_sint [OF shape, of "total (table hp)"] by (simp add: blocks_def)
  then have "heap_free hp (start_address hp + of_nat (4096 * b)) m
      = heap_clear m (entries (table hp)) (int b) (int (blocks hp))"
    using bn by (simp add: heap_free_def heap_free_blocks_def
        address_to_heap_block_start [OF shape] del: of_nat_mult of_nat_numeral)
  moreover have "heap_clear m (entries (table hp)) (int b) (int (blocks hp)) x =
    (let j = unat (x - entries (table hp)) in if b \<le> j \<and> j < b + n then 0 else m x)"
  proof (rule heap_clear_eq [OF bn(2,1) blocks_small])
    fix k
    assume "k < n"
    then have "entry_at hp m (b + k) = mark n k" using r by (simp add: run_at_def)
    then show "bit (m (entries (table hp) + of_nat (b + k))) 7 \<longleftrightarrow> Suc k < n"
      by (simp add: entry_at_def)
  qed
  ultimately show ?thesis by simp
qed

lemma heap_free_ok:
  assumes ok: "heap_ok hp m" and r: "run_at hp m b n"
    and upd: "\<And>x. m' x = (let j = unat (x - entries (table hp)) in
        if b \<le> j \<and> j < b + n then 0 else m x)"
  shows "heap_ok hp m'" "runs hp m' = runs hp m - {(b, n)}"
    "\<And>x. x \<notin> region (entries (table hp)) (blocks hp) \<Longrightarrow> m' x = m x"
proof -
  have ent: "entry_at hp m' i = (if b \<le> i \<and> i < b + n then 0 else entry_at hp m i)"
    if "i < blocks hp" for i
    using entry_of_offset [OF that] by (simp add: entry_at_def upd Let_def)
  show rs: "runs hp m' = runs hp m - {(b, n)}"
    using r ent by (rule runs_remove)
  show "m' x = m x" if "x \<notin> region (entries (table hp)) (blocks hp)" for x
    using blocks_in_table [OF that, of b n] r by (auto simp: upd Let_def run_at_def)
  have run: "run_at hp m' c k \<longleftrightarrow> run_at hp m c k \<and> (c, k) \<noteq> (b, n)" for c k
    using rs by (auto simp: runs_def set_eq_iff)
  show "heap_ok hp m'"
    unfolding heap_ok_def
  proof (intro conjI allI impI)
    show "heap_shape hp" using ok by (simp add: heap_ok_def)
    fix i
    assume i: "i < blocks hp"
    show "entry_at hp m' i = 0 \<or> (\<exists>b n. run_at hp m' b n \<and> b \<le> i \<and> i < b + n)"
    proof (cases "b \<le> i \<and> i < b + n")
      case True
      then show ?thesis using i by (simp add: ent)
    next
      case False
      then have "entry_at hp m' i = entry_at hp m i" using ent [OF i] by auto
      moreover have "(c, k) \<noteq> (b, n)" if "c \<le> i \<and> i < c + k" for c k using False that by auto
      ultimately show ?thesis using ok i run unfolding heap_ok_def by metis
    qed
  qed
qed

lemma heap_malloc_eq:
  assumes "unat sz \<le> 4294963200"
  obtains n where "heap_malloc hp sz m = heap_malloc_blocks hp n m" "unat n = blocks_for sz"
  using heap_align_size_blocks [OF assms] by (simp add: heap_malloc_def that)

lemma blocks_for_pos [simp]: "0 < blocks_for sz \<longleftrightarrow> 0 < unat sz"
  by (auto simp: blocks_for_def div_greater_zero_iff)

text \<open>One requested page or less is one block; it fits as soon as one block is free.\<close>

lemma blocks_for_page: "0 < unat sz \<Longrightarrow> unat sz \<le> 4096 \<Longrightarrow> blocks_for sz = 1"
  by (simp add: blocks_for_def div_nat_eqI)

lemma free_run_1: "free_run hp m s 1 \<longleftrightarrow> s < blocks hp \<and> free_at hp m s"
  by (auto simp: free_run_def)

definition free_blocks :: "heap \<Rightarrow> memory \<Rightarrow> nat set" where
  "free_blocks hp m = {i. i < blocks hp \<and> free_at hp m i}"

lemma finite_free_blocks [simp]: "finite (free_blocks hp m)"
  by (simp add: free_blocks_def)

lemma heap_ok_taken:
  assumes "heap_ok hp m" "i < blocks hp"
  shows "free_at hp m i \<longleftrightarrow> (\<forall>b n. (b, n) \<in> runs hp m \<longrightarrow> \<not> (b \<le> i \<and> i < b + n))"
proof
  assume "free_at hp m i"
  then show "\<forall>b n. (b, n) \<in> runs hp m \<longrightarrow> \<not> (b \<le> i \<and> i < b + n)"
    using run_taken by (auto simp: runs_def)
next
  assume "\<forall>b n. (b, n) \<in> runs hp m \<longrightarrow> \<not> (b \<le> i \<and> i < b + n)"
  then have "entry_at hp m i = 0" using assms unfolding heap_ok_def runs_def by blast
  then show "free_at hp m i" by (simp add: free_at_def heap_get_entry_type_def)
qed

lemma free_blocks_insert:
  assumes "heap_ok hp m" "heap_ok hp m'" "runs hp m' = insert (s, n) (runs hp m)"
    and "free_run hp m s n"
  shows "free_blocks hp m' = free_blocks hp m - {s..<s + n}"
proof -
  have "free_at hp m' i \<longleftrightarrow> free_at hp m i \<and> \<not> (s \<le> i \<and> i < s + n)" if "i < blocks hp" for i
    unfolding heap_ok_taken [OF assms(1) that] heap_ok_taken [OF assms(2) that] assms(3) by blast
  then show ?thesis by (auto simp: free_blocks_def)
qed

lemma free_blocks_remove:
  assumes ok: "heap_ok hp m" and r: "run_at hp m b n"
    and upd: "\<And>x. m' x = (let j = unat (x - entries (table hp)) in
        if b \<le> j \<and> j < b + n then 0 else m x)"
  shows "card (free_blocks hp m') = card (free_blocks hp m) + n"
proof -
  note f = heap_free_ok [OF assms]
  have rs: "runs hp m = insert (b, n) (runs hp m')" using f(2) r by (auto simp: runs_def)
  have ent: "entry_at hp m' i = 0" if "b \<le> i" "i < b + n" for i
    using entry_of_offset [of i hp] that r by (simp add: entry_at_def upd Let_def run_at_def)
  have fr: "free_run hp m' b n" using ent r by (auto simp: free_run_def free_at_def run_at_def heap_get_entry_type_def)
  have "free_blocks hp m = free_blocks hp m' - {b..<b + n}" using free_blocks_insert [OF f(1) ok rs fr] .
  moreover have "{b..<b + n} \<subseteq> free_blocks hp m'"
    using ent r by (auto simp: free_blocks_def free_at_def run_at_def heap_get_entry_type_def)
  ultimately show ?thesis
    using card_Diff_subset [of "{b..<b + n}" "free_blocks hp m'"] card_mono [OF finite_free_blocks, of "{b..<b + n}" hp m']
    by simp
qed

lemma heap_ok_empty:
  assumes "heap_shape hp" "\<And>i. i < blocks hp \<Longrightarrow> entry_at hp m i = 0"
  shows "heap_ok hp m" "runs hp m = {}" "free_blocks hp m = {..<blocks hp}"
proof -
  show "heap_ok hp m" using assms by (simp add: heap_ok_def)
  have "\<not> run_at hp m b n" for b n
  proof
    assume r: "run_at hp m b n"
    then have "entry_at hp m (b + 0) = mark n 0" unfolding run_at_def by blast
    moreover have "b < blocks hp" using r by (simp add: run_at_def)
    ultimately show False using assms(2) by simp
  qed
  then show "runs hp m = {}" by (auto simp: runs_def)
  show "free_blocks hp m = {..<blocks hp}"
    using assms(2) by (auto simp: free_blocks_def free_at_def heap_get_entry_type_def)
qed

text \<open>What the scan answers when no free run is large enough.\<close>

lemma heap_get_free_block_no_fit:
  assumes "0 < unat n" "\<forall>s. \<not> free_run hp m s (unat n)"
  shows "heap_get_free_block hp n m = - EMEM \<and> (blocks hp = 0 \<or> \<not> free_at hp m (blocks hp - 1)) \<or>
    (\<exists>s. heap_get_free_block hp n m = int s \<and> s < blocks hp \<and> blocks hp < s + unat n \<and>
         (\<forall>k. s \<le> k \<and> k < blocks hp \<longrightarrow> free_at hp m k))"
  using heap_scan_spec [of 0 "blocks hp" hp 0 "unat n" "-1" m, OF _ _ _ _ _ _ _ refl] assms
  by (fastforce simp: heap_get_free_block_def blocks_def)

text \<open>A four-block heap, used by the witnesses.\<close>

definition heap_ex :: heap where
  "heap_ex = \<lparr>table = \<lparr>total = 4, entries = 0x7E00\<rparr>, start_address = 0x01000000\<rparr>"

lemma heap_ex_simps [simp]:
  "blocks heap_ex = 4" "start_address heap_ex = 0x01000000" "entries (table heap_ex) = 0x7E00"
  "heap_shape heap_ex"
  by (simp_all add: heap_ex_def blocks_def heap_shape_def)

lemma heap_ex_zero [simp]:
  "heap_ok heap_ex (\<lambda>_. 0)" "runs heap_ex (\<lambda>_. 0) = {}" "free_run heap_ex (\<lambda>_. 0) 0 n \<longleftrightarrow> n \<le> 4"
  using heap_ok_empty [of heap_ex "\<lambda>_. 0"]
  by (simp_all add: entry_at_def free_run_def free_at_def heap_get_entry_type_def)

lemma block_address:
  assumes "heap_shape hp" "s < blocks hp"
  shows "unat (start_address hp + of_nat (4096 * s)) = unat (start_address hp) + 4096 * s"
    "start_address hp + of_nat (4096 * s) \<noteq> 0"
proof -
  show u: "unat (start_address hp + of_nat (4096 * s)) = unat (start_address hp) + 4096 * s"
    using assms by (intro unat_add_small) (auto simp: heap_shape_def)
  then have "0 < unat (start_address hp + of_nat (4096 * s))"
    using assms(1) by (simp only: heap_shape_def) linarith
  then show "start_address hp + of_nat (4096 * s) \<noteq> 0" by (metis less_irrefl unat_0)
qed

lemma heap_malloc_fit:
  assumes "heap_ok hp m" "0 < unat sz" "unat sz \<le> 4294963200"
    and "free_run hp m s0 (blocks_for sz)"
  obtains s m' where "heap_malloc hp sz m = (start_address hp + of_nat (4096 * s), m')"
    "free_run hp m s (blocks_for sz)" "\<forall>s'. free_run hp m s' (blocks_for sz) \<longrightarrow> s \<le> s'"
    "heap_ok hp m'" "runs hp m' = insert (s, blocks_for sz) (runs hp m)"
    "\<forall>x. x \<notin> region (entries (table hp)) (blocks hp) \<longrightarrow> m' x = m x"
proof -
  obtain n where n: "heap_malloc hp sz m = heap_malloc_blocks hp n m" "unat n = blocks_for sz"
    using heap_malloc_eq [OF assms(3)] by blast
  then have pos: "0 < unat n" "free_run hp m s0 (unat n)" using assms by simp_all
  obtain s m' where s: "heap_malloc_blocks hp n m = (start_address hp + of_nat (4096 * s), m')"
    "free_run hp m s (unat n)" "\<forall>s'. free_run hp m s' (unat n) \<longrightarrow> s \<le> s'"
    "\<And>x. m' x = (let j = unat (x - entries (table hp)) in
        if s \<le> j \<and> j < s + unat n then mark (unat n) (j - s) else m x)"
    using heap_malloc_blocks_fit [OF assms(1) pos] by blast
  show ?thesis
    using s(1-3) heap_malloc_blocks_ok [OF assms(1) pos(1) s(2,4)] n
    by (intro that [of s m']) simp_all
qed

lemma blocks_for_less: "blocks_for sz < 1048577"
  using unat_u32_less [of sz] by (simp add: blocks_for_def div_less_iff_less_mult)

lemma heap_align_size_wrap:
  assumes "4294963200 < unat sz"
  shows "heap_align_size sz = 0"
proof -
  have lt: "unat sz < 4294967296" by (rule unat_u32_less)
  have q: "unat sz div 4096 = 1048575" using assms lt by (intro div_nat_eqI) auto
  then have r: "unat sz mod 4096 = unat sz - 4294963200"
    using minus_mult_div_eq_mod [of "unat sz" 4096] by simp
  have m: "unat (sz mod 4096) = unat sz mod 4096" by (simp add: unat_mod)
  then have "sz mod 4096 \<noteq> 0" using r assms by (metis less_irrefl unat_0 zero_less_diff)
  moreover have "sz - sz mod 4096 = 4294963200"
  proof -
    have "sz mod 4096 \<le> sz" by (simp add: word_le_nat_alt m)
    then have "unat (sz - sz mod 4096) = 4294963200" using m r assms by (simp add: unat_diff_le)
    then show ?thesis by (simp add: word_unat_eq_iff)
  qed
  ultimately show ?thesis by (simp add: heap_align_size_def)
qed

lemma heap_mark_none: "end_block < i \<Longrightarrow> heap_mark m es i end_block e = m"
  by (subst heap_mark.simps) simp

lemma heap_create_ok:
  assumes "is_valid_alignment ptr" "is_valid_alignment end_ptr" "is_valid_table ptr end_ptr tab"
    and "heap_create hp ptr end_ptr tab m = (r, hp', m')" "heap_shape hp'"
  shows "r = 0" "table hp' = tab" "start_address hp' = ptr" "heap_ok hp' m'" "runs hp' m' = {}"
    "free_blocks hp' m' = {..<blocks hp'}"
    "\<And>x. x \<notin> region (entries tab) (unat (total tab)) \<Longrightarrow> m' x = m x"
proof -
  have c: "r = 0" "hp' = hp\<lparr>start_address := ptr, table := tab\<rparr>"
      "m' = memset m (entries tab) 0 (total tab)"
    using assms by (auto simp: heap_create_def Let_def)
  then show "r = 0" "table hp' = tab" "start_address hp' = ptr" by simp_all
  show "m' x = m x" if "x \<notin> region (entries tab) (unat (total tab))" for x
    using that c(3) by (simp add: memset_eq)
  have z: "entry_at hp' m' i = 0" if "i < blocks hp'" for i
    using that c entry_of_offset [OF that]
    by (simp add: entry_at_def memset_eq region_def blocks_def)
  show "heap_ok hp' m'" "runs hp' m' = {}" "free_blocks hp' m' = {..<blocks hp'}"
    using heap_ok_empty [OF assms(5) z] by simp_all
qed

section \<open>Properties\<close>

text \<open>
  C1: allocation.  In a well-formed heap with a large enough run of free blocks,
  \<^verbatim>\<open>heap_malloc\<close> returns the address of the lowest such run; afterwards the heap is
  well-formed, its allocated runs are the old ones and the new one, and no byte outside the
  allocation table has changed.
\<close>

theorem heap_malloc_first_fit:
  assumes "heap_ok hp m" "0 < unat sz" "unat sz \<le> 4294963200"
    and "free_run hp m s0 (blocks_for sz)"
  shows "\<exists>s m'. heap_malloc hp sz m = (start_address hp + of_nat (4096 * s), m') \<and>
    free_run hp m s (blocks_for sz) \<and> (\<forall>s'. free_run hp m s' (blocks_for sz) \<longrightarrow> s \<le> s') \<and>
    heap_ok hp m' \<and> runs hp m' = insert (s, blocks_for sz) (runs hp m) \<and>
    (\<forall>x. x \<notin> region (entries (table hp)) (blocks hp) \<longrightarrow> m' x = m x)"
  using heap_malloc_fit [OF assms] by metis

theorem heap_malloc_first_fit_witness:
  "\<exists>s m'. heap_malloc heap_ex 5000 (\<lambda>_. 0) = (0x01000000 + of_nat (4096 * s), m') \<and>
    runs heap_ex m' = {(s, 2)}"
proof -
  have "blocks_for 5000 = 2" by (simp add: blocks_for_def)
  then show ?thesis
    using heap_malloc_first_fit [of heap_ex "\<lambda>_. 0" 5000 0] by auto
qed

text \<open>
  C14: release.  Freeing the address of an allocated run removes exactly that run from the
  table, keeps the heap well-formed and changes no byte outside the table.
\<close>

theorem heap_free_releases:
  assumes "heap_ok hp m" "(b, n) \<in> runs hp m"
  shows "heap_ok hp (heap_free hp (start_address hp + of_nat (4096 * b)) m) \<and>
    runs hp (heap_free hp (start_address hp + of_nat (4096 * b)) m) = runs hp m - {(b, n)} \<and>
    (\<forall>x. x \<notin> region (entries (table hp)) (blocks hp) \<longrightarrow>
       heap_free hp (start_address hp + of_nat (4096 * b)) m x = m x)"
proof -
  have r: "run_at hp m b n" using assms(2) by (simp add: runs_def)
  from heap_free_ok [OF assms(1) r heap_free_run [OF assms(1) r]] show ?thesis by blast
qed

text \<open>
  Round trip.  Freeing what \<^verbatim>\<open>heap_malloc\<close> has just returned restores the memory, table
  included, byte for byte.
\<close>

lemma heap_free_malloc:
  assumes "heap_ok hp m" "0 < unat sz" "unat sz \<le> 4294963200"
    and "free_run hp m s0 (blocks_for sz)" "heap_malloc hp sz m = (p, m')"
  shows "heap_free hp p m' = m"
proof -
  obtain n where n: "heap_malloc hp sz m = heap_malloc_blocks hp n m" "unat n = blocks_for sz"
    using heap_malloc_eq [OF assms(3)] by blast
  then have pos: "0 < unat n" "free_run hp m s0 (unat n)" using assms by simp_all
  obtain s where s: "heap_malloc_blocks hp n m = (start_address hp + of_nat (4096 * s), m')"
    "free_run hp m s (unat n)"
    "\<And>x. m' x = (let j = unat (x - entries (table hp)) in
        if s \<le> j \<and> j < s + unat n then mark (unat n) (j - s) else m x)"
    using heap_malloc_blocks_fit [OF assms(1) pos] n(1) assms(5) by (metis prod.inject)
  have p: "p = start_address hp + of_nat (4096 * s)" using s(1) n(1) assms(5) by simp
  note ok' = heap_malloc_blocks_ok [OF assms(1) pos(1) s(2,3)]
  have r: "run_at hp m' s (unat n)" using ok'(2) by (auto simp: runs_def set_eq_iff)
  have "heap_free hp p m' x = m x" for x
  proof (cases "s \<le> unat (x - entries (table hp)) \<and> unat (x - entries (table hp)) < s + unat n")
    case True
    let ?i = "unat (x - entries (table hp))"
    have i: "?i < blocks hp" using True s(2) by (simp add: free_run_def)
    have "free_at hp m (s + (?i - s))" using True s(2) unfolding free_run_def
      by (metis less_diff_conv2 add.commute)
    then have "entry_at hp m ?i = 0" using heap_ok_free [OF assms(1) _ i] True by simp
    then show ?thesis
      using True heap_free_run [OF ok'(1) r, of x] by (simp add: p entry_at_def Let_def)
  next
    case False
    then show ?thesis
      using heap_free_run [OF ok'(1) r, of x] s(3) [of x] by (auto simp: p Let_def)
  qed
  then show ?thesis by (rule ext)
qed

text \<open>Witnesses for the two preceding claims, on the four-block heap.\<close>

theorem heap_free_releases_witness:
  "\<exists>m b n. (b, n) \<in> runs heap_ex m \<and>
     runs heap_ex (heap_free heap_ex (0x01000000 + of_nat (4096 * b)) m) = {}"
proof -
  have sz: "0 < unat (5000 :: u32)" "unat (5000 :: u32) \<le> 4294963200" by simp_all
  have fr: "free_run heap_ex (\<lambda>_. 0) 0 (blocks_for 5000)" by (simp add: blocks_for_def)
  obtain s m' where m': "heap_ok heap_ex m'" "runs heap_ex m' = {(s, blocks_for 5000)}"
    using heap_malloc_fit [OF heap_ex_zero(1) sz fr] heap_ex_zero(2) by metis
  then show ?thesis
    using heap_free_releases [of heap_ex m' s "blocks_for 5000"]
    by (intro exI [of _ m'] exI [of _ s] exI [of _ "blocks_for 5000"]) simp
qed

text \<open>
  When \<^verbatim>\<open>heap_malloc\<close> fails.  It returns the null pointer, with memory unchanged, exactly
  when no run of free blocks is large enough and the last block of the table is taken.
\<close>

lemma heap_malloc_null:
  assumes "heap_ok hp m" "0 < unat sz" "unat sz \<le> 4294963200"
  shows "(fst (heap_malloc hp sz m) = 0 \<longleftrightarrow>
      (\<forall>s. \<not> free_run hp m s (blocks_for sz)) \<and>
      (blocks hp = 0 \<or> \<not> free_at hp m (blocks hp - 1))) \<and>
    (fst (heap_malloc hp sz m) = 0 \<longrightarrow> snd (heap_malloc hp sz m) = m)"
proof -
  have shape: "heap_shape hp" using assms(1) by (simp add: heap_ok_def)
  obtain n where n: "heap_malloc hp sz m = heap_malloc_blocks hp n m" "unat n = blocks_for sz"
    using heap_malloc_eq [OF assms(3)] by blast
  have res: "fst (heap_malloc hp sz m) \<noteq> 0"
    if "heap_get_free_block hp n m = int s" "s < blocks hp" for s
    using that block_address(2) [OF shape that(2)]
    by (simp add: n(1) heap_malloc_blocks_def get_offset_def Let_def)
  show ?thesis
  proof (cases "\<exists>s. free_run hp m s (blocks_for sz)")
    case True
    then obtain s where "heap_get_free_block hp n m = int s" "free_run hp m s (blocks_for sz)"
      using heap_get_free_block_fit [of n hp m] assms(2) n(2) by (metis blocks_for_pos)
    moreover from this(2) have "s < blocks hp" using assms(2)
      unfolding free_run_def by (metis add_lessD1 blocks_for_pos le_less_trans less_add_same_cancel1
          linorder_not_le order_less_le_trans)
    ultimately show ?thesis using res True by blast
  next
    case False
    then have "\<forall>s. \<not> free_run hp m s (unat n)" "0 < unat n" using n(2) assms(2) by simp_all
    from heap_get_free_block_no_fit [OF this(2,1)] show ?thesis
    proof
      assume fail: "heap_get_free_block hp n m = - EMEM \<and>
        (blocks hp = 0 \<or> \<not> free_at hp m (blocks hp - 1))"
      then have "heap_malloc hp sz m = (0, m)" by (simp add: n(1) heap_malloc_blocks_def)
      then show ?thesis using fail False by simp
    next
      assume "\<exists>s. heap_get_free_block hp n m = int s \<and> s < blocks hp \<and> blocks hp < s + unat n \<and>
        (\<forall>k. s \<le> k \<and> k < blocks hp \<longrightarrow> free_at hp m k)"
      then obtain s where "heap_get_free_block hp n m = int s" "s < blocks hp"
          "free_at hp m (blocks hp - 1)"
        by (metis One_nat_def Suc_pred diff_less lessI less_Suc_eq_le less_nat_zero_code
            not_gr_zero)
      then show ?thesis using res by auto
    qed
  qed
qed

text \<open>
  The scan does not check the length of the run that ends the table.  When no run of
  free blocks is large enough but the last block is free, \<^verbatim>\<open>heap_malloc\<close> does not fail: it
  returns the start of the free blocks at the end of the table and marks entries beyond the
  table, so that the byte behind the table is overwritten.
\<close>

lemma heap_malloc_overrun:
  assumes "heap_ok hp m" "0 < unat sz" "unat sz \<le> 4294963200"
    and "\<forall>s. \<not> free_run hp m s (blocks_for sz)"
    and "0 < blocks hp" "free_at hp m (blocks hp - 1)"
  shows "\<exists>s m'. heap_malloc hp sz m = (start_address hp + of_nat (4096 * s), m') \<and>
    s < blocks hp \<and> blocks hp < s + blocks_for sz \<and>
    m' (entries (table hp) + of_nat (blocks hp)) = mark (blocks_for sz) (blocks hp - s)"
proof -
  obtain n where n: "heap_malloc hp sz m = heap_malloc_blocks hp n m" "unat n = blocks_for sz"
    using heap_malloc_eq [OF assms(3)] by blast
  then obtain s where s: "heap_get_free_block hp n m = int s" "s < blocks hp"
      "blocks hp < s + blocks_for sz"
    using heap_get_free_block_no_fit [of n hp m] assms by auto
  have N: "blocks hp < 524288" using assms(1) by (simp add: heap_ok_def heap_shape_def)
  have "sint n = int (blocks_for sz)"
    using blocks_for_less [of sz] n(2) by (subst sint_eq_uint_small) simp_all
  then have "heap_malloc hp sz m = (start_address hp + of_nat (4096 * s),
      heap_allocate_blocks hp (int s) (int (blocks_for sz)) m)"
    by (simp add: n(1) heap_malloc_blocks_def s(1) get_offset_def Let_def)
  moreover have "unat (entries (table hp) + of_nat (blocks hp) - entries (table hp)) = blocks hp"
    using N by simp
  then have "heap_allocate_blocks hp (int s) (int (blocks_for sz)) m
      (entries (table hp) + of_nat (blocks hp)) = mark (blocks_for sz) (blocks hp - s)"
    using s assms(2) N blocks_for_less [of sz]
    by (subst heap_allocate_blocks_eq) (simp_all add: Let_def)
  ultimately show ?thesis using s by blast
qed

text \<open>
  The rounding of the requested size wraps around.  A request of more than \<open>2^32 - 4096\<close>
  bytes is rounded to zero bytes, and \<^verbatim>\<open>heap_malloc\<close> marks no block for it, whatever address
  it returns.
\<close>

lemma heap_malloc_size_wraps:
  assumes "4294963200 < unat sz"
  shows "heap_align_size sz = 0 \<and> snd (heap_malloc hp sz m) = m"
  using heap_align_size_wrap [OF assms]
  by (simp add: heap_malloc_def heap_malloc_blocks_def heap_allocate_blocks_def heap_mark_none Let_def)

text \<open>
  Creation.  \<^verbatim>\<open>heap_create\<close> refuses unaligned bounds and leaves everything as it was; with
  a table whose size does not match the bounds it fails after clearing the table; otherwise
  it installs the heap with a cleared table, and nothing outside the table changes.
\<close>

lemma heap_create_cases:
  "heap_create hp ptr end_ptr tab m =
    (if \<not> (unat ptr mod 4096 = 0 \<and> unat end_ptr mod 4096 = 0) then (- EINARG, hp, m)
     else ((if unat (end_ptr - ptr) div 4096 = unat (total tab) then 0 else - EINARG),
           (if unat (end_ptr - ptr) div 4096 = unat (total tab)
            then \<lparr>table = tab, start_address = ptr, \<dots> = heap.more hp\<rparr> else hp),
           (\<lambda>x. if x \<in> region (entries tab) (unat (total tab)) then 0 else m x)))"
proof -
  have al: "is_valid_alignment a \<longleftrightarrow> unat a mod 4096 = 0" for a
    by (simp add: is_valid_alignment_def word_unat_eq_iff unat_mod)
  have tb: "is_valid_table ptr end_ptr tab \<longleftrightarrow> unat (end_ptr - ptr) div 4096 = unat (total tab)"
    by (auto simp: is_valid_table_def word_unat_eq_iff unat_div Let_def)
  have cl: "memset m (entries tab) 0 (total tab) =
      (\<lambda>x. if x \<in> region (entries tab) (unat (total tab)) then 0 else m x)"
    by (rule ext) (simp add: memset_eq)
  show ?thesis by (auto simp: heap_create_def al tb cl Let_def)
qed

end
