(* ===== verification/Zhios_String.thy ===== *)
theory Zhios_String
  imports Zhios_Memory "HOL-Library.Monad_Syntax"
begin

text \<open>
  The C string routines of \<^verbatim>\<open>src/lib/src/string.c\<close>.  A loop that runs to a terminating NUL
  may run for ever (no NUL in memory), so it is a \<^theory_text>\<open>partial_function (option)\<close> in which
  \<open>None\<close> means that the call does not return; the lemmas show that it returns on every
  address that holds a string.  \<open>cstr m p s\<close> says that the memory holds the bytes \<open>s\<close>, none of
  them NUL, and then a NUL, from address \<open>p\<close> on.
\<close>

section \<open>Definitions\<close>

partial_function (option) strlen_loop :: "memory \<Rightarrow> addr \<Rightarrow> nat \<Rightarrow> nat option" where
  "strlen_loop m str len =
     (if m (str + of_nat len) \<noteq> 0 then strlen_loop m str (Suc len) else Some len)"

definition strlen :: "memory \<Rightarrow> addr \<Rightarrow> nat option" where
  "strlen m str = strlen_loop m str 0"

text \<open>Characters are bytes; comparisons of \<^verbatim>\<open>char\<close> are signed.\<close>

definition is_digit :: "u8 \<Rightarrow> bool" where
  "is_digit ch \<longleftrightarrow> sint ch \<ge> 48 \<and> sint ch \<le> 57"

definition atoi :: "u8 \<Rightarrow> int" where
  "atoi ch = sint ch - 48"

definition digit_to_char :: "int \<Rightarrow> u8" where
  "digit_to_char num = of_int (num + 48)"

partial_function (option) strcpy :: "memory \<Rightarrow> addr \<Rightarrow> addr \<Rightarrow> memory option" where
  "strcpy m src dest =
     (if m src \<noteq> 0 then strcpy (m(dest := m src)) (src + 1) (dest + 1)
      else Some (m(dest := 0)))"

text \<open>\<open>strncpy\<close> copies \<open>n\<close> bytes whatever they are, and then writes one NUL more.\<close>

definition strncpy :: "memory \<Rightarrow> addr \<Rightarrow> addr \<Rightarrow> int \<Rightarrow> memory" where
  "strncpy m src dest n =
     (memcpy_loop m src dest 0 (nat n))(dest + of_nat (nat n) := 0)"

definition to_lower_char :: "u8 \<Rightarrow> u8" where
  "to_lower_char ch =
     (if sint ch \<ge> 65 \<and> sint ch \<le> 90 then (ch - 65) + 97 else ch)"

fun strncmp_loop :: "memory \<Rightarrow> addr \<Rightarrow> addr \<Rightarrow> nat \<Rightarrow> int" where
  "strncmp_loop m s1 s2 0 = 0"
| "strncmp_loop m s1 s2 (Suc n) =
     (let c1 = m s1; c2 = m s2 in
      if c1 \<noteq> c2 then uint c1 - uint c2
      else if c1 = 0 \<or> c2 = 0 then 0
      else strncmp_loop m (s1 + 1) (s2 + 1) n)"

definition strncmp :: "memory \<Rightarrow> addr \<Rightarrow> addr \<Rightarrow> int \<Rightarrow> int" where
  "strncmp m s1 s2 n = strncmp_loop m s1 s2 (nat n)"

fun istrncmp_loop :: "memory \<Rightarrow> addr \<Rightarrow> addr \<Rightarrow> nat \<Rightarrow> int" where
  "istrncmp_loop m s1 s2 0 = 0"
| "istrncmp_loop m s1 s2 (Suc n) =
     (let c1 = to_lower_char (m s1); c2 = to_lower_char (m s2) in
      if c1 \<noteq> c2 then uint c1 - uint c2
      else if c1 = 0 \<or> c2 = 0 then 0
      else istrncmp_loop m (s1 + 1) (s2 + 1) n)"

definition istrncmp :: "memory \<Rightarrow> addr \<Rightarrow> addr \<Rightarrow> int \<Rightarrow> int" where
  "istrncmp m s1 s2 n = istrncmp_loop m s1 s2 (nat n)"

text \<open>
  \<open>rstrip\<close> copies up to the first blank or NUL, and at most \<^verbatim>\<open>strlen(s1)\<close> characters; the
  length is taken before the loop writes anything.  \<open>left\<close> counts what \<^verbatim>\<open>i\<close> still has to go.
\<close>

fun rstrip_loop :: "memory \<Rightarrow> addr \<Rightarrow> addr \<Rightarrow> u8 \<Rightarrow> nat \<Rightarrow> memory" where
  "rstrip_loop m s1 s2 c1 0 = m(s2 := 0)"
| "rstrip_loop m s1 s2 c1 (Suc left) =
     (if c1 \<noteq> 0 \<and> c1 \<noteq> 0x20
      then (let m' = m(s2 := c1) in rstrip_loop m' (s1 + 1) (s2 + 1) (m' (s1 + 1)) left)
      else m(s2 := 0))"

definition rstrip :: "memory \<Rightarrow> addr \<Rightarrow> addr \<Rightarrow> memory option" where
  "rstrip m s1 s2 = do {
     len \<leftarrow> strlen m s1;
     Some (rstrip_loop m s1 s2 (m s1) len) }"

text \<open>The copy loops of \<open>strcat\<close> return the advanced destination.\<close>

partial_function (option) strcat_loop :: "memory \<Rightarrow> addr \<Rightarrow> addr \<Rightarrow> (memory \<times> addr) option" where
  "strcat_loop m c dest =
     (if m c \<noteq> 0 then strcat_loop (m(dest := m c)) (c + 1) (dest + 1) else Some (m, dest))"

definition strcat :: "memory \<Rightarrow> addr \<Rightarrow> addr \<Rightarrow> addr \<Rightarrow> memory option" where
  "strcat m s1 s2 dest = do {
     (m1, d1) \<leftarrow> strcat_loop m s1 dest;
     (m2, d2) \<leftarrow> strcat_loop m1 s2 d1;
     Some (m2(d2 := 0)) }"

text \<open>
  \<open>str_token\<close> cuts the string in place: every delimiter becomes a NUL, and the pointers to the
  start and to the byte after each delimiter go to the caller's \<^verbatim>\<open>tokens\<close> array, which is not
  bounded.  The returned value is the number of entries written.
\<close>

fun str_token_loop ::
  "memory \<Rightarrow> addr \<Rightarrow> addr \<Rightarrow> u8 \<Rightarrow> nat \<Rightarrow> nat \<Rightarrow> nat \<Rightarrow> nat \<times> memory" where
  "str_token_loop m str tokens delimiter token_count i 0 = (token_count, m)"
| "str_token_loop m str tokens delimiter token_count i (Suc left) =
     (if m (str + of_nat i) = delimiter
      then (let m1 = m(str + of_nat i := 0);
                m2 = write32 m1 (tokens + 4 * of_nat token_count) (str + of_nat i + 1)
            in str_token_loop m2 str tokens delimiter (Suc token_count) (Suc i) left)
      else str_token_loop m str tokens delimiter token_count (Suc i) left)"

definition str_token :: "memory \<Rightarrow> addr \<Rightarrow> addr \<Rightarrow> u8 \<Rightarrow> (nat \<times> memory) option" where
  "str_token m str tokens delimiter = do {
     len \<leftarrow> strlen m str;
     Some (str_token_loop (write32 m tokens str) str tokens delimiter 1 0 len) }"

section \<open>Strings in memory\<close>

fun cstr :: "memory \<Rightarrow> addr \<Rightarrow> u8 list \<Rightarrow> bool" where
  "cstr m p [] \<longleftrightarrow> m p = 0"
| "cstr m p (c # s) \<longleftrightarrow> m p = c \<and> c \<noteq> 0 \<and> cstr m (p + 1) s"

lemma cstr_iff:
  "cstr m p s \<longleftrightarrow>
     (\<forall>i<length s. m (p + of_nat i) = s ! i \<and> s ! i \<noteq> 0) \<and> m (p + of_nat (length s)) = 0"
proof (induction s arbitrary: p)
  case Nil
  then show ?case by simp
next
  case (Cons c s)
  have "(\<forall>i<Suc (length s). P i) \<longleftrightarrow> P 0 \<and> (\<forall>i<length s. P (Suc i))" for P :: "nat \<Rightarrow> bool"
    using less_Suc_eq_0_disj by auto
  then show ?case using Cons.IH [of "p + 1"] by (auto simp: algebra_simps)
qed

lemma cstr_nonzero: "cstr m p s \<Longrightarrow> 0 \<notin> set s"
  by (induction s arbitrary: p) auto

lemma cstr_drop: "cstr m p s \<Longrightarrow> k \<le> length s \<Longrightarrow> cstr m (p + of_nat k) (drop k s)"
proof (induction k arbitrary: p s)
  case (Suc k)
  then obtain c t where "s = c # t" by (cases s) auto
  with Suc show ?case using Suc.IH [of "p + 1" t] by (simp add: algebra_simps)
qed simp

lemma cstr_length: "cstr m p s \<Longrightarrow> length s < 4294967296"
proof (rule ccontr)
  assume s: "cstr m p s" and "\<not> length s < 4294967296"
  then have "length s mod 4294967296 < length s"
    by (meson mod_less_divisor linorder_not_less order_less_le_trans zero_less_numeral)
  moreover have "of_nat (length s mod 4294967296) = (of_nat (length s) :: u32)"
    by (simp add: word_unat_eq_iff unat_of_nat)
  ultimately show False using s unfolding cstr_iff by metis
qed

lemma cstr_unique: "cstr m p s \<Longrightarrow> cstr m p t \<Longrightarrow> s = t"
proof (induction s arbitrary: p t)
  case Nil
  then show ?case by (cases t) auto
next
  case (Cons c s)
  then show ?case by (cases t) auto
qed

lemma cstr_cong:
  assumes "cstr m p s" "\<And>a. a \<in> region p (Suc (length s)) \<Longrightarrow> m' a = m a"
  shows "cstr m' p s"
proof -
  have "m' (p + of_nat i) = m (p + of_nat i)" if "i \<le> length s" for i
    using that cstr_length [OF assms(1)] by (intro assms(2) region_add) auto
  with assms(1) show ?thesis by (simp add: cstr_iff)
qed


section \<open>Writing byte strings\<close>

text \<open>\<open>store m p bs\<close> is the memory after the bytes \<open>bs\<close> are written from \<open>p\<close> on.\<close>

fun store :: "memory \<Rightarrow> addr \<Rightarrow> u8 list \<Rightarrow> memory" where
  "store m p [] = m"
| "store m p (b # bs) = store (m(p := b)) (p + 1) bs"

lemma store_append: "store m p (bs @ cs) = store (store m p bs) (p + of_nat (length bs)) cs"
  by (induction bs arbitrary: m p) (simp_all add: algebra_simps)

lemma store_eq [mem_simps]:
  assumes "length bs \<le> 4294967296"
  shows "store m p bs a = (if a \<in> region p (length bs) then bs ! unat (a - p) else m a)"
  using assms
proof (induction bs arbitrary: m rule: rev_induct)
  case Nil
  then show ?case by simp
next
  case (snoc b bs)
  have "a = p + of_nat (length bs) \<longleftrightarrow> unat (a - p) = length bs"
    using snoc.prems by (simp add: region_offset)
  then show ?case using snoc by (auto simp: store_append region_def nth_append)
qed

lemma cstr_store:
  assumes "0 \<notin> set s" "length s < 4294967296"
  shows "cstr (store m p (s @ [0])) p s"
  using assms
  by (auto simp: cstr_iff store_eq region_def nth_append in_set_conv_nth)

lemma store_id:
  assumes "\<And>i. i < length bs \<Longrightarrow> m (p + of_nat i) = bs ! i"
  shows "store m p bs = m"
  using assms
proof (induction bs arbitrary: p)
  case Nil
  then show ?case by simp
next
  case (Cons b bs)
  have "m p = b" using Cons.prems [of 0] by simp
  moreover have "m (p + 1 + of_nat i) = bs ! i" if "i < length bs" for i
    using Cons.prems [of "Suc i"] that by (simp add: algebra_simps)
  ultimately show ?case using Cons.IH [of "p + 1"] by (simp add: fun_upd_idem)
qed

text \<open>
  A forward byte-by-byte copy reads correctly when no write lands on a source byte that is
  still to be read: the two pointers are equal, or the destination is beyond the source.
\<close>

definition safe_copy :: "addr \<Rightarrow> addr \<Rightarrow> nat \<Rightarrow> bool" where
  "safe_copy src dest n \<longleftrightarrow> dest = src \<or> n < unat (dest - src)"

lemma safe_copy_disjoint: "region src (Suc n) \<inter> region dest k = {} \<Longrightarrow> 0 < k \<Longrightarrow> safe_copy src dest n"
  using region_base [of k dest] by (auto simp: safe_copy_def region_def not_less_eq)

lemma safe_copy_refl [simp]: "safe_copy p p n"
  by (simp add: safe_copy_def)

lemma safe_copy_step:
  assumes "safe_copy src dest (Suc n)"
  shows "safe_copy (src + 1) (dest + 1) n"
  using assms by (auto simp: safe_copy_def)

lemma cstr_after_write:
  assumes "cstr m src (c # s)" "safe_copy src dest (Suc (length s))"
  shows "cstr (m(dest := v)) (src + 1) s"
proof (rule cstr_cong)
  show "cstr m (src + 1) s" using assms(1) by simp
  fix a
  assume a: "a \<in> region (src + 1) (Suc (length s))"
  have "unat (dest - (src + 1)) \<ge> Suc (length s)"
  proof (cases "dest = src")
    case True
    have "unat (- 1 :: u32) = 4294967295" by (simp add: unsigned_minus_1_eq_mask mask_eq_exp_minus_1)
    then show ?thesis using True cstr_length [OF assms(1)] by simp
  next
    case False
    then have "Suc (length s) < unat (dest - src)" using assms(2) by (simp add: safe_copy_def)
    moreover from this have "unat (dest - src - 1) = unat (dest - src) - 1"
      by (intro unat_minus_one) auto
    ultimately show ?thesis by (simp add: diff_diff_eq)
  qed
  with a have "a \<noteq> dest" by (auto simp: region_def)
  then show "(m(dest := v)) a = m a" by simp
qed

section \<open>Correctness of the string routines\<close>

lemma strlen_loop_cstr: "cstr m (p + of_nat k) s \<Longrightarrow> strlen_loop m p k = Some (k + length s)"
proof (induction s arbitrary: k)
  case Nil
  then show ?case by (simp add: strlen_loop.simps)
next
  case (Cons c s)
  then have "cstr m (p + of_nat (Suc k)) s" by (simp add: algebra_simps)
  then have "strlen_loop m p (Suc k) = Some (Suc k + length s)" by (rule Cons.IH)
  with Cons.prems show ?case by (subst strlen_loop.simps) simp
qed

lemma strlen_loop_Some:
  assumes "strlen_loop m p k = Some n"
  shows "k \<le> n \<and> cstr m (p + of_nat k) (map (\<lambda>i. m (p + of_nat i)) [k..<n])"
proof (rule strlen_loop.raw_induct
    [where P = "\<lambda>m p k n. k \<le> n \<and> cstr m (p + of_nat k) (map (\<lambda>i. m (p + of_nat i)) [k..<n])",
     OF _ assms])
  fix f :: "memory \<Rightarrow> addr \<Rightarrow> nat \<Rightarrow> nat option" and m p k n
  assume IH: "\<And>m p k n. f m p k = Some n \<Longrightarrow>
      k \<le> n \<and> cstr m (p + of_nat k) (map (\<lambda>i. m (p + of_nat i)) [k..<n])"
    and eq: "(if m (p + of_nat k) \<noteq> 0 then f m p (Suc k) else Some k) = Some n"
  show "k \<le> n \<and> cstr m (p + of_nat k) (map (\<lambda>i. m (p + of_nat i)) [k..<n])"
  proof (cases "m (p + of_nat k) = 0")
    case True
    with eq show ?thesis by simp
  next
    case False
    with eq IH [of m p "Suc k" n] have "Suc k \<le> n"
      and "cstr m (p + of_nat (Suc k)) (map (\<lambda>i. m (p + of_nat i)) [Suc k..<n])" by simp_all
    moreover from this(1) have "[k..<n] = k # [Suc k..<n]" by (simp add: upt_conv_Cons)
    ultimately show ?thesis using False by (simp add: algebra_simps)
  qed
qed

lemma strlen_cstr [simp]: "cstr m p s \<Longrightarrow> strlen m p = Some (length s)"
  using strlen_loop_cstr [of m p 0 s] by (simp add: strlen_def)

lemma strcpy_store:
  assumes "cstr m src s" "safe_copy src dest (length s)"
  shows "strcpy m src dest = Some (store m dest (s @ [0]))"
  using assms
proof (induction s arbitrary: m src dest)
  case Nil
  then show ?case by (subst strcpy.simps) simp
next
  case (Cons c s)
  have "strcpy (m(dest := c)) (src + 1) (dest + 1)
      = Some (store (m(dest := c)) (dest + 1) (s @ [0]))"
    using Cons.prems by (intro Cons.IH cstr_after_write [of _ _ c] safe_copy_step) simp_all
  with Cons.prems(1) show ?case by (subst strcpy.simps) simp
qed

lemma strcat_loop_store:
  assumes "cstr m src s" "safe_copy src dest (length s)"
  shows "strcat_loop m src dest = Some (store m dest s, dest + of_nat (length s))"
  using assms
proof (induction s arbitrary: m src dest)
  case Nil
  then show ?case by (simp add: strcat_loop.simps)
next
  case (Cons c s)
  have "strcat_loop (m(dest := c)) (src + 1) (dest + 1)
      = Some (store (m(dest := c)) (dest + 1) s, dest + 1 + of_nat (length s))"
    using Cons.prems by (intro Cons.IH cstr_after_write [of _ _ c] safe_copy_step) simp_all
  with Cons.prems(1) show ?case by (subst strcat_loop.simps) (simp add: algebra_simps)
qed

lemma strcat_store:
  assumes "cstr m s1 s" "cstr m s2 t"
    and "safe_copy s1 dest (length s)"
    and "region s2 (Suc (length t)) \<inter> region dest (length s + Suc (length t)) = {}"
    and "length s + Suc (length t) \<le> 4294967296"
  shows "strcat m s1 s2 dest = Some (store m dest (s @ t @ [0]))"
proof -
  let ?m = "store m dest s" and ?d = "dest + of_nat (length s)"
  have sub: "region dest (length s) \<subseteq> region dest (length s + Suc (length t))"
    by (rule region_mono) simp
  have "cstr ?m s2 t"
    using assms(2)
  proof (rule cstr_cong)
    fix a
    assume "a \<in> region s2 (Suc (length t))"
    then have "a \<notin> region dest (length s)" using assms(4) sub by auto
    then show "?m a = m a" using cstr_length [OF assms(1)] by (simp add: store_eq)
  qed
  moreover have "?d \<in> region dest (length s + Suc (length t))"
    using assms(5) by (intro region_add) auto
  then have "safe_copy s2 ?d (length t)"
    using assms(4) by (auto simp: safe_copy_def region_def not_less_eq)
  ultimately have "strcat_loop ?m s2 ?d = Some (store ?m ?d t, ?d + of_nat (length t))"
    by (rule strcat_loop_store)
  with strcat_loop_store [OF assms(1,3)] show ?thesis
    by (simp add: strcat_def store_append)
qed

lemma rstrip_loop_store:
  assumes "cstr m s1 s" "safe_copy s1 s2 (length s)"
  shows "rstrip_loop m s1 s2 (m s1) (length s)
    = store m s2 (takeWhile (\<lambda>c. c \<noteq> 0x20) s @ [0])"
  using assms
proof (induction s arbitrary: m s1 s2)
  case Nil
  then show ?case by simp
next
  case (Cons c s)
  let ?m = "m(s2 := c)"
  have "rstrip_loop ?m (s1 + 1) (s2 + 1) (?m (s1 + 1)) (length s)
      = store ?m (s2 + 1) (takeWhile (\<lambda>c. c \<noteq> 0x20) s @ [0])"
    using Cons.prems by (intro Cons.IH cstr_after_write [of _ _ c] safe_copy_step) simp_all
  with Cons.prems(1) show ?case by (simp add: Let_def fun_upd_def)
qed

lemma rstrip_store:
  assumes "cstr m s1 s" "safe_copy s1 s2 (length s)"
  shows "rstrip m s1 s2 = Some (store m s2 (takeWhile (\<lambda>c. c \<noteq> 0x20) s @ [0]))"
  using assms by (simp add: rstrip_def rstrip_loop_store)

subsection \<open>Comparisons\<close>

lemma strncmp_loop_cstr:
  assumes "cstr m p s" "cstr m q t"
  shows "strncmp_loop m p q n = 0 \<longleftrightarrow> take n s = take n t"
  using assms
proof (induction n arbitrary: p q s t)
  case 0
  then show ?case by simp
next
  case (Suc n)
  then show ?case
    by (cases s; cases t) (auto simp: Let_def word_uint_eq_iff)
qed

lemma sint_u8: "sint (c :: u8) = (if uint c < 128 then uint c else uint c - 256)"
proof -
  have u: "uint c < 256" "0 \<le> uint c" using unsigned_less [of c, where ?'a = int] by simp_all
  have "take_bit 8 (uint c) = uint c" using u by (simp add: take_bit_int_eq_self)
  moreover have "bit (uint c) 7 \<longleftrightarrow> 128 \<le> uint c"
  proof -
    have "uint c div 128 = (if 128 \<le> uint c then 1 else 0)" using u by (auto simp: div_pos_geq)
    then show ?thesis by (simp add: bit_iff_odd)
  qed
  ultimately show ?thesis
    by (simp add: sint_uint signed_take_bit_eq_take_bit_minus)
qed

lemma to_lower_char_uint:
  "uint (to_lower_char c) = (if 65 \<le> uint c \<and> uint c \<le> 90 then uint c + 32 else uint c)"
proof (cases "65 \<le> uint c \<and> uint c \<le> 90")
  case True
  then have "to_lower_char c = 32 + c" by (simp add: to_lower_char_def sint_u8)
  then show ?thesis using True by (simp add: uint_word_ariths)
next
  case False
  have "uint c < 256" using unsigned_less [of c, where ?'a = int] by simp
  with False show ?thesis by (auto simp: to_lower_char_def sint_u8)
qed

lemma to_lower_char_0 [simp]: "to_lower_char c = 0 \<longleftrightarrow> c = 0"
  using to_lower_char_uint [of c] by (auto simp: word_uint_eq_iff split: if_splits)

lemma istrncmp_loop_cstr:
  assumes "cstr m p s" "cstr m q t"
  shows "istrncmp_loop m p q n = 0 \<longleftrightarrow>
    map to_lower_char (take n s) = map to_lower_char (take n t)"
  using assms
proof (induction n arbitrary: p q s t)
  case 0
  then show ?case by simp
next
  case (Suc n)
  have low: "to_lower_char 0 = 0" by simp
  have neq: "uint a - uint b = 0 \<longleftrightarrow> a = b" for a b :: u8 by (auto simp: word_uint_eq_iff)
  have neq0: "uint a = 0 \<longleftrightarrow> a = 0" for a :: u8 by (auto simp: word_uint_eq_iff)
  from Suc show ?case
    by (cases s; cases t) (auto simp: Let_def neq neq0 low simp del: right_minus_eq)
qed

subsection \<open>Tokens\<close>

text \<open>The specification of \<open>str_token\<close>: the pieces between delimiters, empty ones included.\<close>

fun split_on :: "u8 \<Rightarrow> u8 list \<Rightarrow> u8 list list" where
  "split_on d [] = [[]]"
| "split_on d (c # s) =
     (if c = d then [] # split_on d s
      else (case split_on d s of [] \<Rightarrow> [[c]] | t # ts \<Rightarrow> (c # t) # ts))"

lemma split_on_not_Nil [simp]: "split_on d s \<noteq> []"
  by (induction s) (auto split: list.splits)

lemma length_split_on: "length (split_on d s) = Suc (count_list s d)"
  by (induction s) (auto split: list.splits)

text \<open>
  What the loop does to the string alone: \<open>cut_tokens\<close> replaces the delimiters and collects
  the addresses of the pieces.  The loop in memory agrees with it when the \<^verbatim>\<open>tokens\<close> array
  does not overlap the string.
\<close>

fun cut_tokens :: "memory \<Rightarrow> addr \<Rightarrow> u8 \<Rightarrow> nat \<Rightarrow> nat \<Rightarrow> memory \<times> addr list" where
  "cut_tokens m str d i 0 = (m, [])"
| "cut_tokens m str d i (Suc left) =
     (if m (str + of_nat i) = d
      then (let (m', ts) = cut_tokens (m(str + of_nat i := 0)) str d (Suc i) left
            in (m', (str + of_nat i + 1) # ts))
      else cut_tokens m str d (Suc i) left)"

lemma cut_tokens_mem:
  assumes "i + n \<le> 4294967296"
  shows "fst (cut_tokens m p d i n) a =
    (if i \<le> unat (a - p) \<and> unat (a - p) < i + n \<and> m a = d then 0 else m a)"
  using assms
proof (induction n arbitrary: m i)
  case 0
  then show ?case by auto
next
  case (Suc n)
  have eq: "a = p + of_nat i \<longleftrightarrow> unat (a - p) = i" using Suc.prems by (simp add: region_offset)
  have IH: "fst (cut_tokens m' p d (Suc i) n) a =
      (if Suc i \<le> unat (a - p) \<and> unat (a - p) < Suc i + n \<and> m' a = d then 0 else m' a)" for m'
    using Suc.prems by (intro Suc.IH) simp
  show ?case using IH eq by (auto simp: split_def Let_def not_le less_Suc_eq)
qed

lemma region_front: "region q (Suc n) \<subseteq> insert q (region (q + 1) n)"
proof
  fix a
  assume "a \<in> region q (Suc n)"
  moreover have "unat (a - (q + 1)) = unat (a - q) - 1" if "a \<noteq> q"
    using that unat_minus_one [of "a - q"] by (simp add: diff_diff_eq)
  ultimately show "a \<in> insert q (region (q + 1) n)"
    using unat_0_iff [of "a - q"] by (auto simp: region_def)
qed

lemma cut_tokens_pieces:
  assumes "cstr m (p + of_nat i) s" "i + length s = n" "n < 4294967296" "d \<noteq> 0"
    and "cut_tokens m p d i (length s) = (m', ts)"
  shows "list_all2 (\<lambda>q t. cstr m' q t \<and> region q (Suc (length t)) \<subseteq> region p (Suc n))
    ((p + of_nat i) # ts) (split_on d s)"
  using assms
proof (induction s arbitrary: m i ts)
  case Nil
  then show ?case using region_shift_subset [of i 1 "Suc i" p] by simp
next
  case (Cons c s)
  let ?q = "p + of_nat i"
  have pres: "fst (cut_tokens k p d (Suc i) (length s)) ?q = k ?q" for k
    using Cons.prems(2,3) by (simp add: cut_tokens_mem)
  have nxt: "?q + 1 = p + of_nat (Suc i)" by (simp add: algebra_simps)
  have q: "?q \<in> region p (Suc n)" using Cons.prems(2,3) by (intro region_add) simp_all
  show ?case
  proof (cases "c = d")
    case True
    then obtain us where us: "cut_tokens (m(?q := 0)) p d (Suc i) (length s) = (m', us)"
        "ts = (?q + 1) # us"
      using Cons.prems(1,5) by (auto split: prod.splits)
    have "cstr (m(?q := 0)) (p + of_nat (Suc i)) s"
      using cstr_after_write [of m ?q c s ?q] Cons.prems(1) nxt by simp
    moreover have "Suc i + length s = n" using Cons.prems(2) by simp
    ultimately have "list_all2 (\<lambda>q t. cstr m' q t \<and> region q (Suc (length t)) \<subseteq> region p (Suc n))
        ((p + of_nat (Suc i)) # us) (split_on d s)"
      by (rule Cons.IH [OF _ _ Cons.prems(3,4) us(1)])
    moreover have "m' ?q = 0" using pres [of "m(?q := 0)"] us(1) by simp
    moreover have "region ?q 1 \<subseteq> region p (Suc n)" using q region_front [of ?q 0] by auto
    ultimately show ?thesis using True us(2) nxt by simp
  next
    case False
    then have tl: "cut_tokens m p d (Suc i) (length s) = (m', ts)"
      using Cons.prems(1,5) by auto
    have "list_all2 (\<lambda>q t. cstr m' q t \<and> region q (Suc (length t)) \<subseteq> region p (Suc n))
        ((p + of_nat (Suc i)) # ts) (split_on d s)"
      using Cons.prems(1,2) nxt by (intro Cons.IH [OF _ _ Cons.prems(3,4) tl]) auto
    moreover obtain t us where "split_on d s = t # us"
      by (cases "split_on d s") auto
    moreover have "m' ?q = c" using pres [of m] tl Cons.prems(1) by simp
    moreover have "region ?q (Suc (Suc (length t))) \<subseteq> insert ?q (region (?q + 1) (Suc (length t)))"
      by (rule region_front)
    ultimately show ?thesis using False Cons.prems(1) q by (auto simp: algebra_simps)
  qed
qed

lemma str_token_loop_cut:
  assumes "region p N \<inter> region tokens (4 * K) = {}" "4 * K \<le> 4294967296" "N \<le> 4294967296"
    and "i + n \<le> N" "c + n \<le> K" "\<And>a. a \<in> region p N \<Longrightarrow> M a = m a"
    and "cut_tokens m p d i n = (m', ts)"
  shows "\<exists>M'. str_token_loop M p tokens d c i n = (c + length ts, M') \<and>
    (\<forall>a \<in> region p N. M' a = m' a) \<and>
    (\<forall>j < c. read32 M' (tokens + 4 * of_nat j) = read32 M (tokens + 4 * of_nat j)) \<and>
    (\<forall>j < length ts. read32 M' (tokens + 4 * of_nat (c + j)) = ts ! j) \<and>
    (\<forall>a. a \<notin> region p N \<longrightarrow> a \<notin> region tokens (4 * K) \<longrightarrow> M' a = M a)"
  using assms(4-)
proof (induction n arbitrary: M m i c ts)
  case 0
  then show ?case by simp
next
  case (Suc n)
  let ?q = "p + of_nat i" and ?t = "tokens + 4 * of_nat c"
  have q: "?q \<in> region p N" using Suc.prems(1) assms(3) by (intro region_add) simp_all
  have eq: "M ?q = m ?q" using q by (rule Suc.prems(3))
  have tsub: "region ?t 4 \<subseteq> region tokens (4 * K)"
    using region_shift_subset [of "4 * c" 4 "4 * K" tokens] Suc.prems(2) assms(2) by simp
  show ?case
  proof (cases "m ?q = d")
    case False
    then show ?thesis using Suc.IH [of "Suc i" c M m ts] Suc.prems eq by simp
  next
    case True
    let ?M = "write32 (M(?q := 0)) ?t (?q + 1)"
    obtain us where us: "cut_tokens (m(?q := 0)) p d (Suc i) n = (m', us)" "ts = (?q + 1) # us"
      using Suc.prems(4) True by (auto split: prod.splits)
    have "?M a = (m(?q := 0)) a" if "a \<in> region p N" for a
      using that assms(1) tsub Suc.prems(3) [OF that] by (subst write32_outside) auto
    then obtain M' where M': "str_token_loop ?M p tokens d (Suc c) (Suc i) n = (Suc c + length us, M')"
      "\<forall>a \<in> region p N. M' a = m' a"
      "\<forall>j < Suc c. read32 M' (tokens + 4 * of_nat j) = read32 ?M (tokens + 4 * of_nat j)"
      "\<forall>j < length us. read32 M' (tokens + 4 * of_nat (Suc c + j)) = us ! j"
      "\<forall>a. a \<notin> region p N \<longrightarrow> a \<notin> region tokens (4 * K) \<longrightarrow> M' a = ?M a"
      using Suc.IH [OF _ _ _ us(1), of "Suc c" ?M] Suc.prems(1,2) by auto
    have old: "read32 ?M (tokens + 4 * of_nat j) = read32 M (tokens + 4 * of_nat j)" if "j < c" for j
    proof -
      have "region ?t 4 \<inter> region (tokens + 4 * of_nat j) 4 = {}"
        using region_shift_disjoint [of "4 * j" 4 "4 * c" 4 tokens] that Suc.prems(2) assms(2) by auto
      moreover have "region (tokens + 4 * of_nat j) 4 \<subseteq> region tokens (4 * K)"
        using region_shift_subset [of "4 * j" 4 "4 * K" tokens] that Suc.prems(2) assms(2) by simp
      then have "?q \<notin> region (tokens + 4 * of_nat j) 4" using q assms(1) by auto
      then have "read32 (M(?q := 0)) (tokens + 4 * of_nat j) = read32 M (tokens + 4 * of_nat j)"
        by (intro read32_cong) auto
      ultimately show ?thesis by (simp add: read32_write32_disjoint)
    qed
    have "read32 M' (tokens + 4 * of_nat (c + j)) = ts ! j" if "j < length ts" for j
      using that M'(3,4) us(2) by (cases j) auto
    moreover have "M' a = M a" if "a \<notin> region p N" "a \<notin> region tokens (4 * K)" for a
    proof -
      have "a \<notin> region ?t 4" "a \<noteq> ?q" using that tsub q by auto
      then show ?thesis using M'(5) that by (simp add: write32_outside)
    qed
    ultimately show ?thesis
      using True eq M'(1,2,3) old us(2) by (intro exI [of _ M']) (simp add: Let_def)
  qed
qed

text \<open>The pieces that \<open>str_token\<close> finds, inside the string.\<close>

lemma str_token_pieces:
  assumes "cstr m p s" "d \<noteq> 0" "4 * Suc (length s) \<le> 4294967296"
    and "region p (Suc (length s)) \<inter> region tokens (4 * Suc (length s)) = {}"
  shows "\<exists>m'. str_token m p tokens d = Some (length (split_on d s), m') \<and>
    (\<forall>j < length (split_on d s). cstr m' (read32 m' (tokens + 4 * of_nat j)) (split_on d s ! j) \<and>
      region (read32 m' (tokens + 4 * of_nat j)) (Suc (length (split_on d s ! j))) \<subseteq> region p (Suc (length s))) \<and>
    (\<forall>a. a \<notin> region p (Suc (length s)) \<longrightarrow> a \<notin> region tokens (4 * Suc (length s)) \<longrightarrow> m' a = m a)"
proof -
  let ?M = "write32 m tokens p" and ?n = "length s"
  obtain n' ts where cut: "cut_tokens m p d 0 ?n = (n', ts)" by (rule prod.exhaust)
  have t4: "region tokens 4 \<subseteq> region tokens (4 * Suc ?n)" by (rule region_mono) simp
  have same: "?M a = m a" if "a \<in> region p (Suc ?n)" for a
    using that assms(4) t4 by (intro write32_outside) auto
  have len: "Suc ?n \<le> 4294967296" using assms(3) by simp
  from str_token_loop_cut [OF assms(4,3) len _ _ same cut, of 1]
  obtain M' where M': "str_token_loop ?M p tokens d 1 0 ?n = (1 + length ts, M')"
    "\<forall>a \<in> region p (Suc ?n). M' a = n' a"
    "\<forall>j < 1. read32 M' (tokens + 4 * of_nat j) = read32 ?M (tokens + 4 * of_nat j)"
    "\<forall>j < length ts. read32 M' (tokens + 4 * of_nat (1 + j)) = ts ! j"
    "\<forall>a. a \<notin> region p (Suc ?n) \<longrightarrow> a \<notin> region tokens (4 * Suc ?n) \<longrightarrow> M' a = ?M a" by auto
  have pieces: "list_all2 (\<lambda>q t. cstr n' q t \<and> region q (Suc (length t)) \<subseteq> region p (Suc ?n))
      (p # ts) (split_on d s)"
    using cut_tokens_pieces [of m p 0 s ?n d n' ts] assms(1,2) len cut by simp
  have ent: "read32 M' (tokens + 4 * of_nat j) = (p # ts) ! j" if "j < length (p # ts)" for j
    using that M'(3,4) by (cases j) auto
  have "cstr M' (read32 M' (tokens + 4 * of_nat j)) (split_on d s ! j) \<and>
      region (read32 M' (tokens + 4 * of_nat j)) (Suc (length (split_on d s ! j))) \<subseteq> region p (Suc (length s))"
    if "j < length (split_on d s)" for j
  proof -
    have "j < length (p # ts)" using that list_all2_lengthD [OF pieces] by simp
    with list_all2_nthD [OF pieces this] show ?thesis
      unfolding ent [OF \<open>j < length (p # ts)\<close>] using M'(2) by (auto intro!: cstr_cong [of n'])
  qed
  moreover have "M' a = m a" if "a \<notin> region p (Suc ?n)" "a \<notin> region tokens (4 * Suc ?n)" for a
  proof -
    have "a \<notin> region tokens 4" using that(2) t4 by auto
    then show ?thesis using that M'(5) by (simp add: write32_outside)
  qed
  moreover have "str_token m p tokens d = Some (length (split_on d s), M')"
    using assms(1) M'(1) list_all2_lengthD [OF pieces] by (simp add: str_token_def)
  ultimately show ?thesis by blast
qed

section \<open>Properties\<close>


text \<open>
  Concatenation.  When the second string does not overlap the destination, and the first
  is the destination itself (as in the callers that append) or does not overlap it either,
  \<^verbatim>\<open>strcat\<close> returns, the destination holds the two strings one after the other, and no byte
  outside the destination changes.
\<close>

lemma strcat_concatenates:
  assumes "cstr m s1 s" "cstr m s2 t" "length s + Suc (length t) \<le> 4294967296"
    and "s1 = dest \<or> region s1 (Suc (length s)) \<inter> region dest (length s + Suc (length t)) = {}"
    and "region s2 (Suc (length t)) \<inter> region dest (length s + Suc (length t)) = {}"
  shows "\<exists>m'. strcat m s1 s2 dest = Some m' \<and> cstr m' dest (s @ t) \<and>
    (\<forall>a. a \<notin> region dest (length s + Suc (length t)) \<longrightarrow> m' a = m a)"
proof -
  have "safe_copy s1 dest (length s)"
    using assms(4) by (auto intro: safe_copy_disjoint)
  then have "strcat m s1 s2 dest = Some (store m dest (s @ t @ [0]))"
    by (rule strcat_store [OF assms(1,2) _ assms(5,3)])
  moreover have "cstr (store m dest ((s @ t) @ [0])) dest (s @ t)"
    using assms(1-3) cstr_nonzero by (intro cstr_store) auto
  moreover have "store m dest (s @ t @ [0]) a = m a"
    if "a \<notin> region dest (length s + Suc (length t))" for a
    using that assms(3) by (simp add: store_eq)
  ultimately show ?thesis by simp
qed

text \<open>
  Tokens.  For a string and an array that do not overlap, \<^verbatim>\<open>str_token\<close> returns the
  number of pieces between delimiters, and entry \<open>j\<close> of the array points to a string that is
  the \<open>j\<close>-th piece; no byte outside the string and the array changes.
\<close>

lemma str_token_splits:
  assumes "cstr m p s" "d \<noteq> 0" "4 * Suc (length s) \<le> 4294967296"
    and "region p (Suc (length s)) \<inter> region tokens (4 * Suc (length s)) = {}"
  shows "\<exists>m'. str_token m p tokens d = Some (length (split_on d s), m') \<and>
    (\<forall>j < length (split_on d s). cstr m' (read32 m' (tokens + 4 * of_nat j)) (split_on d s ! j)) \<and>
    (\<forall>a. a \<notin> region p (Suc (length s)) \<longrightarrow> a \<notin> region tokens (4 * Suc (length s)) \<longrightarrow> m' a = m a)"
  using str_token_pieces [OF assms] by blast

text \<open>
  Comparison without case.  On two strings \<^verbatim>\<open>istrncmp\<close> returns 0 exactly when the first
  \<open>n\<close> characters agree up to the case of ASCII letters, and \<^verbatim>\<open>strncmp\<close> exactly when they agree.
\<close>

lemma strncmp_istrncmp_zero:
  assumes "cstr m p s" "cstr m q t"
  shows "(strncmp m p q n = 0 \<longleftrightarrow> take (nat n) s = take (nat n) t) \<and>
    (istrncmp m p q n = 0 \<longleftrightarrow>
      map to_lower_char (take (nat n) s) = map to_lower_char (take (nat n) t))"
  using strncmp_loop_cstr [OF assms] istrncmp_loop_cstr [OF assms]
  by (simp add: strncmp_def istrncmp_def)

text \<open>
  The bounded copy.  \<^verbatim>\<open>strncpy\<close> with a bound \<open>n\<close> changes \<open>n + 1\<close> bytes: the copied ones
  and a NUL after them, so a buffer of \<open>n\<close> bytes is not enough; and it copies past the end of
  a shorter string.
\<close>

lemma strncpy_writes_beyond:
  assumes "0 \<le> n" "n < 4294967296" "region src (nat n) \<inter> region dest (nat n) = {}"
  shows "strncpy m src dest n a =
    (if a = dest + of_int n then 0
     else if a \<in> region dest (nat n) then m (src + (a - dest)) else m a)"
  using memcpy_disjoint [OF assms(3), of m a] assms(1,2)
  by (auto simp: strncpy_def memcpy_def)

end
