(* ===== verification/Zhios_Kheap.thy ===== *)
theory Zhios_Kheap
  imports Zhios_Heap Zhios_String
begin

text \<open>
  The kernel heap of \<^verbatim>\<open>src/src/memory/heap/kheap.c\<close>, and the base of the kernel state: the
  byte memory, the heap descriptor and the characters sent to the terminal.  Later theories
  extend this record.  The locale \<open>page_allocator\<close> is the contract the rest of the kernel
  relies on when it allocates a page or less; its lemmas are proved once for every client,
  and the interpretation at the end shows that \<open>kzalloc\<close> and \<open>kfree\<close> fulfil it.
\<close>

section \<open>State\<close>

record mstate =
  mem :: memory
  kernel_heap :: heap
  console :: "u8 list"

definition bytes_of :: "string \<Rightarrow> u8 list" where
  "bytes_of s = map (\<lambda>c. of_nat (of_char c)) s"

text \<open>
  \<open>console\<close> records the characters handed to the terminal; how they are drawn is the
  terminal's business.
\<close>

definition kprint :: "u8 list \<Rightarrow> 'a mstate_scheme \<Rightarrow> 'a mstate_scheme" where
  "kprint s st = st\<lparr>console := console st @ s\<rparr>"

section \<open>Operations\<close>

abbreviation (input) HEAP_ADDRESS :: "'a::numeral" where
  "HEAP_ADDRESS \<equiv> 0x01000000"

abbreviation (input) HEAP_TABLE_ADDRESS :: "'a::numeral" where
  "HEAP_TABLE_ADDRESS \<equiv> 0x00007E00"

definition kheap_init :: "'a mstate_scheme \<Rightarrow> 'a mstate_scheme" where
  "kheap_init st =
     (let end_ptr = HEAP_ADDRESS + ZHIOS_HEAP_SIZE_BYTES;
          total_table_entries = ZHIOS_HEAP_SIZE_BYTES div ZHIOS_HEAP_BLOCK_SIZE;
          kernel_heap_table = \<lparr>total = total_table_entries, entries = HEAP_TABLE_ADDRESS\<rparr>;
          zeroed = \<lparr>table = \<lparr>total = 0, entries = 0\<rparr>, start_address = 0\<rparr>;
          (res, hp, m) = heap_create zeroed HEAP_ADDRESS end_ptr kernel_heap_table (mem st);
          st' = st\<lparr>mem := m, kernel_heap := hp\<rparr>
      in if res < 0 then kprint (bytes_of ''Failed to create heap'' @ [10]) st' else st')"

definition kmalloc :: "u32 \<Rightarrow> 'a mstate_scheme \<Rightarrow> addr \<times> 'a mstate_scheme" where
  "kmalloc sz st =
     (let (p, m) = heap_malloc (kernel_heap st) sz (mem st) in (p, st\<lparr>mem := m\<rparr>))"

definition kfree :: "addr \<Rightarrow> 'a mstate_scheme \<Rightarrow> 'a mstate_scheme" where
  "kfree ptr st = st\<lparr>mem := heap_free (kernel_heap st) ptr (mem st)\<rparr>"

definition kzalloc :: "u32 \<Rightarrow> 'a mstate_scheme \<Rightarrow> addr \<times> 'a mstate_scheme" where
  "kzalloc sz st =
     (let (address, st') = kmalloc sz st in
      if address = 0 then (0, st')
      else (address, st'\<lparr>mem := memset (mem st') address 0 sz\<rparr>))"

text \<open>
  \<open>realloc\<close> is declared nowhere and called nowhere.  Its loop advances the source pointer
  until it is null and copies every word to the same place.
\<close>

partial_function (option) realloc_loop :: "memory \<Rightarrow> addr \<Rightarrow> addr \<Rightarrow> memory option" where
  "realloc_loop m new_ptr cur =
     (if cur \<noteq> 0 then realloc_loop (write32 m new_ptr (read32 m cur)) new_ptr (cur + 4)
      else Some m)"

definition realloc :: "addr \<Rightarrow> u32 \<Rightarrow> 'a mstate_scheme \<Rightarrow> (addr \<times> 'a mstate_scheme) option" where
  "realloc ptr sz st =
     (let (new_ptr, st') = kzalloc sz st in
      map_option (\<lambda>m. (new_ptr, st'\<lparr>mem := m\<rparr>)) (realloc_loop (mem st') new_ptr ptr))"

section \<open>The contract of the allocator\<close>

text \<open>
  \<open>live s\<close> is the set of allocated regions (address, size in bytes) of a state, \<open>reserved s\<close>
  the addresses the allocator keeps for itself, \<open>avail s\<close> the number of blocks left, and
  \<open>put m s\<close> replaces the memory.  The laws speak about requests of at most one page.
\<close>

locale page_allocator =
  fixes zalloc :: "u32 \<Rightarrow> 's \<Rightarrow> addr \<times> 's"
    and release :: "addr \<Rightarrow> 's \<Rightarrow> 's"
    and bytes :: "'s \<Rightarrow> memory"
    and put :: "memory \<Rightarrow> 's \<Rightarrow> 's"
    and ok :: "'s \<Rightarrow> bool"
    and live :: "'s \<Rightarrow> (addr \<times> nat) set"
    and reserved :: "'s \<Rightarrow> addr set"
    and avail :: "'s \<Rightarrow> nat"
  assumes bytes_put [simp]: "bytes (put m s) = m"
    and put_put [simp]: "put m' (put m s) = put m' s"
    and reserved_put [simp]: "reserved (put m s) = reserved s"
    and put_ok: "ok s \<Longrightarrow> (\<And>a. a \<in> reserved s \<Longrightarrow> m a = bytes s a) \<Longrightarrow>
      ok (put m s) \<and> live (put m s) = live s \<and> avail (put m s) = avail s"
    and live_region: "ok s \<Longrightarrow> (q, k) \<in> live s \<Longrightarrow>
      q \<noteq> 0 \<and> unat q mod 4096 = 0 \<and> 0 < k \<and> unat q + k \<le> 4294967296 \<and> region q k \<inter> reserved s = {}"
    and zalloc_page: "ok s \<Longrightarrow> 0 < unat sz \<Longrightarrow> unat sz \<le> 4096 \<Longrightarrow> 0 < avail s \<Longrightarrow>
      \<exists>p m. zalloc sz s = (p, put m s) \<and> ok (put m s) \<and>
        live (put m s) = insert (p, 4096) (live s) \<and> avail s = Suc (avail (put m s)) \<and>
        (\<forall>(q, k) \<in> live s. region p 4096 \<inter> region q k = {}) \<and>
        (\<forall>a. a \<in> region p (unat sz) \<longrightarrow> m a = 0) \<and>
        (\<forall>a. a \<notin> region p (unat sz) \<and> a \<notin> reserved s \<longrightarrow> m a = bytes s a)"
    and release_live: "ok s \<Longrightarrow> (p, k) \<in> live s \<Longrightarrow>
      \<exists>m. release p s = put m s \<and> ok (put m s) \<and> live (put m s) = live s - {(p, k)} \<and>
        (\<forall>a. a \<notin> reserved s \<longrightarrow> m a = bytes s a) \<and> avail (put m s) = avail s + k div 4096"
begin

text \<open>Writes into an allocated region keep the allocator's invariant.\<close>

lemma put_live:
  assumes "ok s" "(q, k) \<in> live s" "\<And>a. a \<notin> region q k \<Longrightarrow> m a = bytes s a"
  shows "ok (put m s)" "live (put m s) = live s" "avail (put m s) = avail s"
proof -
  have "m b = bytes s b" if "b \<in> reserved s" for b
    using live_region [OF assms(1,2)] that by (intro assms(3)) auto
  with put_ok [OF assms(1)]
  show "ok (put m s)" "live (put m s) = live s" "avail (put m s) = avail s" by blast+
qed

lemma write32_live:
  assumes "ok s" "(q, k) \<in> live s" "region a 4 \<subseteq> region q k"
  shows "ok (put (write32 (bytes s) a v) s)"
    "live (put (write32 (bytes s) a v) s) = live s"
    "avail (put (write32 (bytes s) a v) s) = avail s"
proof -
  have "write32 (bytes s) a v b = bytes s b" if "b \<notin> region q k" for b
    using that assms(3) by (intro write32_outside) auto
  from put_live [OF assms(1,2) this] show "ok (put (write32 (bytes s) a v) s)"
    "live (put (write32 (bytes s) a v) s) = live s"
    "avail (put (write32 (bytes s) a v) s) = avail s" by blast+
qed

text \<open>A new page leaves the contents of every allocated region alone.\<close>

lemma zalloc_keeps:
  assumes "ok s" "0 < unat sz" "unat sz \<le> 4096" "0 < avail s" "zalloc sz s = (p, s')"
  shows "ok s'" "live s' = insert (p, 4096) (live s)" "avail s = Suc (avail s')"
    "reserved s' = reserved s" "p \<noteq> 0" "unat p mod 4096 = 0"
    "\<And>q k. (q, k) \<in> live s \<Longrightarrow> region p 4096 \<inter> region q k = {}"
    "\<And>a. a \<in> region p (unat sz) \<Longrightarrow> bytes s' a = 0"
    "\<And>q k a. (q, k) \<in> live s \<Longrightarrow> a \<in> region q k \<Longrightarrow> bytes s' a = bytes s a"
    "\<exists>m. s' = put m s"
proof -
  obtain p' m where p': "zalloc sz s = (p', put m s)" "ok (put m s)"
    "live (put m s) = insert (p', 4096) (live s)" "avail s = Suc (avail (put m s))"
    "\<forall>(q, k) \<in> live s. region p' 4096 \<inter> region q k = {}"
    "\<forall>a. a \<in> region p' (unat sz) \<longrightarrow> m a = 0"
    "\<forall>a. a \<notin> region p' (unat sz) \<and> a \<notin> reserved s \<longrightarrow> m a = bytes s a"
    using zalloc_page [OF assms(1-4)] by blast
  then have eq: "p' = p" "s' = put m s" using assms(5) by simp_all
  note m = eq(2) p'(2-7) [unfolded eq(1), folded eq(2)]
  show "ok s'" "live s' = insert (p, 4096) (live s)" "avail s = Suc (avail s')"
    "reserved s' = reserved s" "\<exists>m. s' = put m s" using m by auto
  show "p \<noteq> 0" "unat p mod 4096 = 0" using live_region [of s' p 4096] m(2,3) by auto
  show dis: "region p 4096 \<inter> region q k = {}" if "(q, k) \<in> live s" for q k
    using m(5) that by auto
  show "bytes s' a = 0" if "a \<in> region p (unat sz)" for a using m(1,6) that by simp
  show "bytes s' a = bytes s a" if "(q, k) \<in> live s" "a \<in> region q k" for q k a
  proof -
    have "a \<notin> region p (unat sz)"
      using dis [OF that(1)] that(2) region_mono [OF assms(3), of p] by auto
    moreover have "a \<notin> reserved s" using live_region [OF assms(1) that(1)] that(2) by auto
    ultimately show ?thesis using m(1,7) by simp
  qed
qed

end

section \<open>The kernel heap fulfils the contract\<close>

definition kheap_ok :: "'a mstate_scheme \<Rightarrow> bool" where
  "kheap_ok st \<longleftrightarrow> heap_ok (kernel_heap st) (mem st)"

definition kheap_live :: "'a mstate_scheme \<Rightarrow> (addr \<times> nat) set" where
  "kheap_live st =
     (\<lambda>(b, n). (start_address (kernel_heap st) + of_nat (4096 * b), 4096 * n)) `
       runs (kernel_heap st) (mem st)"

definition kheap_reserved :: "'a mstate_scheme \<Rightarrow> addr set" where
  "kheap_reserved st = region (entries (table (kernel_heap st))) (blocks (kernel_heap st))"

definition kheap_avail :: "'a mstate_scheme \<Rightarrow> nat" where
  "kheap_avail st = card (free_blocks (kernel_heap st) (mem st))"

lemmas kheap_defs = kheap_ok_def kheap_live_def kheap_reserved_def kheap_avail_def

text \<open>The heap's invariant and abstraction only read the table.\<close>

lemma heap_ok_table_cong:
  assumes "\<And>a. a \<in> region (entries (table hp)) (blocks hp) \<Longrightarrow> m' a = m a"
  shows "heap_ok hp m' \<longleftrightarrow> heap_ok hp m" "runs hp m' = runs hp m"
    "free_blocks hp m' = free_blocks hp m"
proof -
  have ent: "entry_at hp m' i = entry_at hp m i" if "i < blocks hp" for i
    using that blocks_small [of hp] unfolding entry_at_def by (intro assms region_add) auto
  have run: "run_at hp m' b n \<longleftrightarrow> run_at hp m b n" for b n
  proof (cases "b + n \<le> blocks hp")
    case True
    then show ?thesis by (intro run_at_cong) (simp add: ent)
  qed (auto simp: run_at_def)
  show "heap_ok hp m' \<longleftrightarrow> heap_ok hp m" using ent run by (auto simp: heap_ok_def)
  show "runs hp m' = runs hp m" using run by (simp add: runs_def)
  show "free_blocks hp m' = free_blocks hp m"
    using ent by (auto simp: free_blocks_def free_at_def)
qed

lemma run_region:
  assumes "heap_shape hp" "run_at hp m b n"
  shows "unat (start_address hp + of_nat (4096 * b)) = unat (start_address hp) + 4096 * b"
    "start_address hp + of_nat (4096 * b) \<noteq> 0"
    "unat (start_address hp) + 4096 * b + 4096 * n \<le> 4294967296"
    "region (start_address hp + of_nat (4096 * b)) (4096 * n)
       \<inter> region (entries (table hp)) (blocks hp) = {}"
proof -
  have bn: "b < blocks hp" "b + n \<le> blocks hp" using assms(2) by (auto simp: run_at_def)
  show u: "unat (start_address hp + of_nat (4096 * b)) = unat (start_address hp) + 4096 * b"
    "start_address hp + of_nat (4096 * b) \<noteq> 0"
    using block_address [OF assms(1) bn(1)] by simp_all
  show top: "unat (start_address hp) + 4096 * b + 4096 * n \<le> 4294967296"
    using bn(2) assms(1) by (simp add: heap_shape_def)
  have "region (entries (table hp)) (blocks hp)
      \<inter> region (start_address hp + of_nat (4096 * b)) (4096 * n) = {}"
    using assms(1) u(1) top by (intro region_disjoint) (auto simp: heap_shape_def)
  then show "region (start_address hp + of_nat (4096 * b)) (4096 * n)
      \<inter> region (entries (table hp)) (blocks hp) = {}" by blast
qed

lemma run_regions_disjoint:
  assumes "heap_shape hp" "run_at hp m b n" "free_run hp m s k" "0 < k"
  shows "region (start_address hp + of_nat (4096 * s)) (4096 * k)
    \<inter> region (start_address hp + of_nat (4096 * b)) (4096 * n) = {}"
proof -
  have sk: "s < blocks hp" "s + k \<le> blocks hp" using assms(3,4) by (auto simp: free_run_def)
  have bn: "b < blocks hp" "b + n \<le> blocks hp" using assms(2) by (auto simp: run_at_def)
  have "\<not> (b \<le> s + i \<and> s + i < b + n)" if "i < k" for i
    using run_taken [OF assms(2)] assms(3) that by (auto simp: free_run_def)
  then have "s + k \<le> b \<or> b + n \<le> s"
  proof (cases "s \<le> b")
    case True
    then show ?thesis
      using \<open>\<And>i. i < k \<Longrightarrow> \<not> (b \<le> s + i \<and> s + i < b + n)\<close> [of "b - s"] assms(2)
      by (fastforce simp: run_at_def)
  next
    case False
    then show ?thesis
      using \<open>\<And>i. i < k \<Longrightarrow> \<not> (b \<le> s + i \<and> s + i < b + n)\<close> [of 0] assms(4) by auto
  qed
  then show ?thesis
    using block_address(1) [OF assms(1) sk(1)] block_address(1) [OF assms(1) bn(1)] assms(1) sk bn
      region_disjoint [of "start_address hp + of_nat (4096 * s)" "4096 * k"
        "start_address hp + of_nat (4096 * b)" "4096 * n"]
      region_disjoint [of "start_address hp + of_nat (4096 * b)" "4096 * n"
        "start_address hp + of_nat (4096 * s)" "4096 * k"]
    by (auto simp: heap_shape_def)
qed

lemma kheap_put_ok:
  assumes "kheap_ok st" "\<And>a. a \<in> kheap_reserved st \<Longrightarrow> m a = mem st a"
  shows "kheap_ok (st\<lparr>mem := m\<rparr>) \<and> kheap_live (st\<lparr>mem := m\<rparr>) = kheap_live st \<and>
    kheap_avail (st\<lparr>mem := m\<rparr>) = kheap_avail st"
  using assms heap_ok_table_cong [of "kernel_heap st" m "mem st"] by (simp add: kheap_defs)

lemma kheap_live_region:
  assumes "kheap_ok st" "(q, k) \<in> kheap_live st"
  shows "q \<noteq> 0 \<and> unat q mod 4096 = 0 \<and> 0 < k \<and> unat q + k \<le> 4294967296 \<and>
    region q k \<inter> kheap_reserved st = {}"
proof -
  obtain b n where bn: "run_at (kernel_heap st) (mem st) b n"
      "q = start_address (kernel_heap st) + of_nat (4096 * b)" "k = 4096 * n"
    using assms(2) by (auto simp: kheap_live_def runs_def)
  have shape: "heap_shape (kernel_heap st)" using assms(1) by (simp add: kheap_ok_def heap_ok_def)
  have "(unat (start_address (kernel_heap st)) + 4096 * b) mod 4096 = 0"
    using shape by (simp add: heap_shape_def mod_eq_0_iff_dvd)
  then show ?thesis
    using run_region [OF shape bn(1)] bn by (auto simp: kheap_reserved_def run_at_def)
qed

text \<open>
  A request of \<open>n\<close> blocks for which a free run exists, on the kernel state.  The zeroing of
  \<open>kzalloc\<close> touches only the new region.
\<close>

lemma kzalloc_fit:
  assumes "kheap_ok st" "0 < unat sz" "unat sz \<le> 4294963200"
    and "free_run (kernel_heap st) (mem st) s0 (blocks_for sz)"
  obtains s m where "kzalloc sz st = (start_address (kernel_heap st) + of_nat (4096 * s), st\<lparr>mem := m\<rparr>)"
    "free_run (kernel_heap st) (mem st) s (blocks_for sz)"
    "kheap_ok (st\<lparr>mem := m\<rparr>)"
    "runs (kernel_heap st) m = insert (s, blocks_for sz) (runs (kernel_heap st) (mem st))"
    "\<And>a. a \<in> region (start_address (kernel_heap st) + of_nat (4096 * s)) (unat sz) \<Longrightarrow> m a = 0"
    "\<And>a. a \<notin> region (start_address (kernel_heap st) + of_nat (4096 * s)) (unat sz) \<Longrightarrow>
       a \<notin> kheap_reserved st \<Longrightarrow> m a = mem st a"
proof -
  let ?hp = "kernel_heap st"
  have ok: "heap_ok ?hp (mem st)" using assms(1) by (simp add: kheap_ok_def)
  then have shape: "heap_shape ?hp" by (simp add: heap_ok_def)
  obtain s m1 where s: "heap_malloc ?hp sz (mem st) = (start_address ?hp + of_nat (4096 * s), m1)"
    "free_run ?hp (mem st) s (blocks_for sz)" "heap_ok ?hp m1"
    "runs ?hp m1 = insert (s, blocks_for sz) (runs ?hp (mem st))"
    "\<forall>x. x \<notin> region (entries (table ?hp)) (blocks ?hp) \<longrightarrow> m1 x = mem st x"
    by (rule heap_malloc_fit [OF ok assms(2-4)]) (rule that)
  let ?p = "start_address ?hp + of_nat (4096 * s)"
  let ?m = "memset m1 ?p 0 sz"
  have n: "0 < blocks_for sz" "unat sz \<le> 4096 * blocks_for sz"
    using assms(2) by (auto simp: blocks_for_def)
  have run: "run_at ?hp m1 s (blocks_for sz)" using s(4) by (auto simp: runs_def set_eq_iff)
  note reg = run_region [OF shape run]
  have tab: "?m a = m1 a" if "a \<in> region (entries (table ?hp)) (blocks ?hp)" for a
    using reg(4) that region_mono [OF n(2), of ?p] by (auto simp: memset_eq)
  have "kzalloc sz st = (?p, st\<lparr>mem := ?m\<rparr>)"
    using s(1) reg(2) by (simp add: kzalloc_def kmalloc_def)
  moreover have "kheap_ok (st\<lparr>mem := ?m\<rparr>)" "runs ?hp ?m = runs ?hp m1"
    using heap_ok_table_cong [of ?hp ?m m1] tab s(3) by (simp_all add: kheap_ok_def)
  moreover have "?m a = mem st a" if "a \<notin> region ?p (unat sz)" "a \<notin> kheap_reserved st" for a
    using that s(5) by (simp add: memset_eq kheap_reserved_def)
  moreover have "?m a = 0" if "a \<in> region ?p (unat sz)" for a
    using that by (simp add: memset_eq)
  ultimately show ?thesis
    using s(2,4) by (intro that [of s ?m]) simp_all
qed

lemma kzalloc_page:
  assumes "kheap_ok st" "0 < unat sz" "unat sz \<le> 4096" "0 < kheap_avail st"
  shows "\<exists>p m. kzalloc sz st = (p, st\<lparr>mem := m\<rparr>) \<and> kheap_ok (st\<lparr>mem := m\<rparr>) \<and>
    kheap_live (st\<lparr>mem := m\<rparr>) = insert (p, 4096) (kheap_live st) \<and>
    kheap_avail st = Suc (kheap_avail (st\<lparr>mem := m\<rparr>)) \<and>
    (\<forall>(q, k) \<in> kheap_live st. region p 4096 \<inter> region q k = {}) \<and>
    (\<forall>a. a \<in> region p (unat sz) \<longrightarrow> m a = 0) \<and>
    (\<forall>a. a \<notin> region p (unat sz) \<and> a \<notin> kheap_reserved st \<longrightarrow> m a = mem st a)"
proof -
  let ?hp = "kernel_heap st"
  have one: "blocks_for sz = 1" using assms by (intro blocks_for_page) auto
  have "free_blocks ?hp (mem st) \<noteq> {}" using assms(4) by (auto simp: kheap_avail_def)
  then obtain s0 where "free_run ?hp (mem st) s0 (blocks_for sz)"
    unfolding one free_run_1 by (auto simp: free_blocks_def)
  then obtain s m where s: "kzalloc sz st = (start_address ?hp + of_nat (4096 * s), st\<lparr>mem := m\<rparr>)"
    "free_run ?hp (mem st) s 1" "kheap_ok (st\<lparr>mem := m\<rparr>)"
    "runs ?hp m = insert (s, 1) (runs ?hp (mem st))"
    "\<And>a. a \<in> region (start_address ?hp + of_nat (4096 * s)) (unat sz) \<Longrightarrow> m a = 0"
    "\<And>a. a \<notin> region (start_address ?hp + of_nat (4096 * s)) (unat sz) \<Longrightarrow>
       a \<notin> kheap_reserved st \<Longrightarrow> m a = mem st a"
    using kzalloc_fit [OF assms(1,2), of s0] assms(3) unfolding one by auto
  have ok: "heap_ok ?hp (mem st)" "heap_ok ?hp m" using assms(1) s(3) by (simp_all add: kheap_ok_def)
  then have shape: "heap_shape ?hp" by (simp add: heap_ok_def)
  have "free_blocks ?hp m = free_blocks ?hp (mem st) - {s}"
    using free_blocks_insert [OF ok s(4,2)] by simp
  moreover have "s \<in> free_blocks ?hp (mem st)"
    using s(2) unfolding free_run_1 by (simp add: free_blocks_def)
  ultimately have "kheap_avail st = Suc (kheap_avail (st\<lparr>mem := m\<rparr>))"
    using card.remove [OF finite_free_blocks, of s ?hp "mem st"] by (simp add: kheap_avail_def)
  moreover have "region (start_address ?hp + of_nat (4096 * s)) 4096 \<inter> region q k = {}"
    if "(q, k) \<in> kheap_live st" for q k
    using that run_regions_disjoint [OF shape _ s(2)] by (auto simp: kheap_live_def runs_def)
  moreover have "kheap_live (st\<lparr>mem := m\<rparr>) =
      insert (start_address ?hp + of_nat (4096 * s), 4096) (kheap_live st)"
    using s(4) by (simp add: kheap_live_def)
  ultimately show ?thesis
    using s(1,3,5,6)
    by (intro exI [of _ "start_address ?hp + of_nat (4096 * s)"] exI [of _ m]) (simp add: split_def)
qed

lemma kfree_live:
  assumes "kheap_ok st" "(p, k) \<in> kheap_live st"
  shows "\<exists>m. kfree p st = st\<lparr>mem := m\<rparr> \<and> kheap_ok (st\<lparr>mem := m\<rparr>) \<and>
    kheap_live (st\<lparr>mem := m\<rparr>) = kheap_live st - {(p, k)} \<and>
    (\<forall>a. a \<notin> kheap_reserved st \<longrightarrow> m a = mem st a) \<and>
    kheap_avail (st\<lparr>mem := m\<rparr>) = kheap_avail st + k div 4096"
proof -
  let ?hp = "kernel_heap st"
  let ?f = "\<lambda>(b, n). (start_address ?hp + of_nat (4096 * b), 4096 * n)"
  obtain b n where bn: "run_at ?hp (mem st) b n" "p = start_address ?hp + of_nat (4096 * b)"
      "k = 4096 * n"
    using assms(2) by (auto simp: kheap_live_def runs_def)
  have ok: "heap_ok ?hp (mem st)" using assms(1) by (simp add: kheap_ok_def)
  then have shape: "heap_shape ?hp" by (simp add: heap_ok_def)
  note f = heap_free_ok [OF ok bn(1) heap_free_run [OF ok bn(1)]]
  have "inj_on ?f (runs ?hp (mem st))"
  proof (rule inj_onI)
    fix x y
    assume xy: "x \<in> runs ?hp (mem st)" "y \<in> runs ?hp (mem st)" "?f x = ?f y"
    have "unat (start_address ?hp + of_nat (4096 * fst z)) = unat (start_address ?hp) + 4096 * fst z"
      if "z \<in> runs ?hp (mem st)" for z
      using that by (intro run_region(1) [OF shape, of "mem st" _ "snd z"]) (simp add: runs_def split_def)
    from this [OF xy(1)] this [OF xy(2)] xy(3)
    have "4096 * fst x = 4096 * fst y" by (simp only: split_def prod.inject)
    with xy(3) show "x = y" by (simp add: split_def prod_eq_iff)
  qed
  then have "?f ` (runs ?hp (mem st) - {(b, n)}) = ?f ` runs ?hp (mem st) - ?f ` {(b, n)}"
    using bn(1) by (intro inj_on_image_set_diff) (auto simp: runs_def)
  then have "kheap_live (st\<lparr>mem := heap_free ?hp p (mem st)\<rparr>) = kheap_live st - {(p, k)}"
    using f(2) bn(2,3) by (simp add: kheap_live_def)
  moreover have "kheap_ok (st\<lparr>mem := heap_free ?hp p (mem st)\<rparr>)"
    using f(1) bn(2) by (simp add: kheap_ok_def)
  moreover have "heap_free ?hp p (mem st) a = mem st a" if "a \<notin> kheap_reserved st" for a
    using f(3) that bn(2) by (simp add: kheap_reserved_def)
  moreover have "kheap_avail (st\<lparr>mem := heap_free ?hp p (mem st)\<rparr>) = kheap_avail st + k div 4096"
    using free_blocks_remove [OF ok bn(1) heap_free_run [OF ok bn(1)]] bn(2,3) by (simp add: kheap_avail_def)
  ultimately show ?thesis by (simp add: kfree_def exI [of _ "heap_free ?hp p (mem st)"])
qed

text \<open>Whatever the heap holds, the allocator changes the memory only.\<close>

lemma kzalloc_put: "\<exists>m. snd (kzalloc sz st) = st\<lparr>mem := m\<rparr>"
  by (auto simp: kzalloc_def kmalloc_def Let_def split_def)

interpretation kh: page_allocator kzalloc kfree mem "\<lambda>m st. st\<lparr>mem := m\<rparr>"
  kheap_ok kheap_live kheap_reserved kheap_avail
proof (unfold_locales, goal_cases)
  case (3 m s)
  show ?case by (simp add: kheap_reserved_def)
next
  case (4 s m)
  then show ?case by (rule kheap_put_ok)
next
  case (5 s q k)
  then show ?case by (rule kheap_live_region)
next
  case (6 s sz)
  then show ?case by (rule kzalloc_page)
next
  case (7 s p k)
  then show ?case by (rule kfree_live)
qed simp_all

section \<open>What a sequence of allocations keeps\<close>

text \<open>
  \<open>kheap_arena\<close> is the memory that the heap distributes.  \<open>heap_keeps X st st'\<close> is the frame of code
  that allocates, releases only what it allocated, and writes to the addresses in \<open>X\<close>: all other
  memory is unchanged, except for the table of the heap and what was free.
\<close>

definition kheap_arena :: "'a mstate_scheme \<Rightarrow> addr set" where
  "kheap_arena st = region (start_address (kernel_heap st)) (4096 * blocks (kernel_heap st))"

definition heap_keeps :: "addr set \<Rightarrow> 'a mstate_scheme \<Rightarrow> 'a mstate_scheme \<Rightarrow> bool" where
  "heap_keeps X st st' \<longleftrightarrow> kernel_heap st' = kernel_heap st \<and> kheap_ok st' \<and> kheap_live st \<subseteq> kheap_live st' \<and>
     (\<forall>(q, k) \<in> kheap_live st. \<forall>a \<in> region q k - X. mem st' a = mem st a) \<and>
     (\<forall>a. a \<notin> kheap_arena st \<union> kheap_reserved st \<union> X \<longrightarrow> mem st' a = mem st a)"

lemma kheap_live_arena:
  assumes "kheap_ok st" "(q, k) \<in> kheap_live st"
  shows "region q k \<subseteq> kheap_arena st"
proof -
  let ?hp = "kernel_heap st"
  obtain b n where bn: "run_at ?hp (mem st) b n" "q = start_address ?hp + of_nat (4096 * b)" "k = 4096 * n"
    using assms(2) by (auto simp: kheap_live_def runs_def)
  have "heap_shape ?hp" using assms(1) by (simp add: kheap_ok_def heap_ok_def)
  then have "4096 * b + 4096 * n \<le> 4096 * blocks ?hp" "4096 * blocks ?hp \<le> 4294967296"
    using bn(1) by (auto simp: run_at_def heap_shape_def)
  then show ?thesis unfolding kheap_arena_def bn(2,3) by (rule region_shift_subset)
qed

lemma heap_keepsD:
  assumes "heap_keeps X st st'"
  shows "kernel_heap st' = kernel_heap st" "kheap_ok st'" "kheap_live st \<subseteq> kheap_live st'"
    "(q, k) \<in> kheap_live st \<Longrightarrow> a \<in> region q k \<Longrightarrow> a \<notin> X \<Longrightarrow> mem st' a = mem st a"
    "a \<notin> kheap_arena st \<Longrightarrow> a \<notin> kheap_reserved st \<Longrightarrow> a \<notin> X \<Longrightarrow> mem st' a = mem st a"
    "kheap_arena st' = kheap_arena st" "kheap_reserved st' = kheap_reserved st"
  using assms by (auto simp: heap_keeps_def kheap_arena_def kheap_reserved_def)

lemma heap_keeps_refl: "kheap_ok st \<Longrightarrow> heap_keeps X st st"
  by (auto simp: heap_keeps_def)

lemma heap_keeps_trans:
  assumes "heap_keeps X st st'" "heap_keeps Y st' st''"
  shows "heap_keeps (X \<union> Y) st st''"
proof -
  note a = heap_keepsD [OF assms(1)] and b = heap_keepsD [OF assms(2)]
  have "mem st'' a = mem st a" if "(q, k) \<in> kheap_live st" "a \<in> region q k" "a \<notin> X \<union> Y" for q k a
    using a(4) [of q k a] b(4) [of q k a] a(3) that by auto
  moreover have "mem st'' a = mem st a" if "a \<notin> kheap_arena st" "a \<notin> kheap_reserved st" "a \<notin> X \<union> Y" for a
    using a(5) [of a] b(5) [of a] a(6,7) that by auto
  ultimately show ?thesis using a(1,3) b(1-3) by (auto simp: heap_keeps_def)
qed

text \<open>The steps: an allocation, a write into an allocated region or outside the heap, a release.\<close>

lemma kzalloc_heap_keeps:
  assumes "kheap_ok st" "0 < unat sz" "unat sz \<le> 4096" "0 < kheap_avail st" "kzalloc sz st = (p, st')"
  shows "heap_keeps {} st st'"
proof -
  note k = kh.zalloc_keeps [OF assms]
  obtain m where m: "kzalloc sz st = (p, st\<lparr>mem := m\<rparr>)" "st' = st\<lparr>mem := m\<rparr>"
    "\<forall>a. a \<notin> region p (unat sz) \<and> a \<notin> kheap_reserved st \<longrightarrow> m a = mem st a"
    using kh.zalloc_page [OF assms(1-4)] assms(5) by auto
  have "region p (unat sz) \<subseteq> kheap_arena st"
    using kheap_live_arena [OF k(1), of p 4096] k(2) region_mono [OF assms(3), of p] m(2) by (auto simp: kheap_arena_def)
  then show ?thesis using k(1,2,9) m(2,3) by (auto simp: heap_keeps_def)
qed

lemma put_heap_keeps:
  assumes "kheap_ok st" "\<And>a. a \<notin> X \<Longrightarrow> m a = mem st a" "X \<inter> kheap_reserved st = {}"
  shows "heap_keeps X st (st\<lparr>mem := m\<rparr>)" "kheap_live (st\<lparr>mem := m\<rparr>) = kheap_live st"
    "kheap_avail (st\<lparr>mem := m\<rparr>) = kheap_avail st"
proof -
  have "m a = mem st a" if "a \<in> kheap_reserved st" for a using assms(2,3) that by blast
  note p = kh.put_ok [OF assms(1) this]
  then show "heap_keeps X st (st\<lparr>mem := m\<rparr>)" using assms(2) by (auto simp: heap_keeps_def)
  from p show "kheap_live (st\<lparr>mem := m\<rparr>) = kheap_live st" "kheap_avail (st\<lparr>mem := m\<rparr>) = kheap_avail st" by simp_all
qed

lemma kfree_heap_keeps:
  assumes "heap_keeps X st st'" "(p, 4096) \<in> kheap_live st'" "(p, 4096) \<notin> kheap_live st"
  obtains m where "kfree p st' = st'\<lparr>mem := m\<rparr>" "heap_keeps X st (st'\<lparr>mem := m\<rparr>)"
    "kheap_live (st'\<lparr>mem := m\<rparr>) = kheap_live st' - {(p, 4096)}"
    "kheap_avail (st'\<lparr>mem := m\<rparr>) = Suc (kheap_avail st')"
    "\<And>a. a \<notin> kheap_reserved st \<Longrightarrow> m a = mem st' a"
proof -
  note a = heap_keepsD [OF assms(1)]
  obtain m where m: "kfree p st' = st'\<lparr>mem := m\<rparr>" "kheap_ok (st'\<lparr>mem := m\<rparr>)"
    "kheap_live (st'\<lparr>mem := m\<rparr>) = kheap_live st' - {(p, 4096)}"
    "\<forall>a. a \<notin> kheap_reserved st' \<longrightarrow> m a = mem st' a"
    "kheap_avail (st'\<lparr>mem := m\<rparr>) = kheap_avail st' + 4096 div 4096"
    using kfree_live [OF a(2) assms(2)] by blast
  have eq: "m a = mem st' a" if "a \<notin> kheap_reserved st" for a using m(4) a(7) that by simp
  have "m a = mem st a" if "(q, k) \<in> kheap_live st" "a \<in> region q k" "a \<notin> X" for q k a
  proof -
    have "region q k \<inter> kheap_reserved st' = {}" using kh.live_region [OF a(2), of q k] a(3) that(1) by blast
    then show ?thesis using eq [of a] a(4) [OF that] a(7) that(2) by auto
  qed
  moreover have "m a = mem st a" if "a \<notin> kheap_arena st" "a \<notin> kheap_reserved st" "a \<notin> X" for a
    using eq [OF that(2)] a(5) [OF that] by simp
  ultimately have "heap_keeps X st (st'\<lparr>mem := m\<rparr>)"
    using a(1,3) m(2,3) assms(3) by (auto simp: heap_keeps_def)
  then show ?thesis using m(1,3,5) eq by (intro that [of m]) simp_all
qed

lemma heap_keeps_fresh:
  assumes "heap_keeps (X \<union> Y) st st'" "\<And>q k. (q, k) \<in> kheap_live st \<Longrightarrow> Y \<inter> region q k = {}" "Y \<subseteq> kheap_arena st"
  shows "heap_keeps X st st'"
  using assms unfolding heap_keeps_def by blast

text \<open>An allocation, with all that the callers below need of it.\<close>

lemma alloc_step:
  fixes st :: "'a mstate_scheme"
  assumes "kheap_ok st" "0 < unat sz" "unat sz \<le> 4096" "0 < kheap_avail st"
  obtains p m where "kzalloc sz st = (p, st\<lparr>mem := m\<rparr>)" "p \<noteq> 0" "heap_keeps {} st (st\<lparr>mem := m\<rparr>)"
    "kheap_live (st\<lparr>mem := m\<rparr>) = insert (p, 4096) (kheap_live st)" "kheap_avail st = Suc (kheap_avail (st\<lparr>mem := m\<rparr>))"
    "\<And>q k. (q, k) \<in> kheap_live st \<Longrightarrow> q \<noteq> p" "unat p mod 4096 = 0"
    "\<And>q k. (q, k) \<in> kheap_live st \<Longrightarrow> region p 4096 \<inter> region q k = {}"
proof -
  obtain p st' where z: "kzalloc sz st = (p, st')" by (rule prod.exhaust)
  note k = kh.zalloc_keeps [OF assms z] and f = kzalloc_heap_keeps [OF assms z]
  obtain m where m: "st' = st\<lparr>mem := m\<rparr>" using k(10) by blast
  have ne: "q \<noteq> p" if "(q, j) \<in> kheap_live st" for q j
  proof -
    have "0 < j" using kh.live_region [OF assms(1) that] by simp
    then show ?thesis using k(7) [OF that] region_base by (metis disjoint_iff zero_less_numeral)
  qed
  show ?thesis by (rule that [of p m]) (use k z m f ne in \<open>simp_all\<close>)
qed

text \<open>What is written to a new page concerns nobody else.\<close>

lemma alloc_filled:
  fixes st :: "'a mstate_scheme"
  assumes "heap_keeps {} st (st\<lparr>mem := m1\<rparr>)" "(p, 4096) \<in> kheap_live (st\<lparr>mem := m1\<rparr>)"
    and "\<And>q k. (q, k) \<in> kheap_live st \<Longrightarrow> region p 4096 \<inter> region q k = {}"
    and "\<And>a. a \<notin> region p 4096 \<Longrightarrow> m2 a = m1 a"
  shows "heap_keeps {} st (st\<lparr>mem := m2\<rparr>)" "kheap_live (st\<lparr>mem := m2\<rparr>) = kheap_live (st\<lparr>mem := m1\<rparr>)"
    "kheap_avail (st\<lparr>mem := m2\<rparr>) = kheap_avail (st\<lparr>mem := m1\<rparr>)"
proof -
  have ok: "kheap_ok (st\<lparr>mem := m1\<rparr>)" using assms(1) by (rule heap_keepsD)
  have "region p 4096 \<inter> kheap_reserved (st\<lparr>mem := m1\<rparr>) = {}" using kh.live_region [OF ok assms(2)] by blast
  moreover have "m2 a = mem (st\<lparr>mem := m1\<rparr>) a" if "a \<notin> region p 4096" for a using assms(4) [OF that] by simp
  ultimately have p: "heap_keeps (region p 4096) (st\<lparr>mem := m1\<rparr>) (st\<lparr>mem := m2\<rparr>)"
    "kheap_live (st\<lparr>mem := m2\<rparr>) = kheap_live (st\<lparr>mem := m1\<rparr>)" "kheap_avail (st\<lparr>mem := m2\<rparr>) = kheap_avail (st\<lparr>mem := m1\<rparr>)"
    using put_heap_keeps [OF ok, of "region p 4096" m2] by simp_all
  have "region p 4096 \<subseteq> kheap_arena st" using kheap_live_arena [OF ok assms(2)] by (simp add: kheap_arena_def)
  from heap_keeps_fresh [OF heap_keeps_trans [OF assms(1) p(1)] assms(3) this]
  show "heap_keeps {} st (st\<lparr>mem := m2\<rparr>)" .
  show "kheap_live (st\<lparr>mem := m2\<rparr>) = kheap_live (st\<lparr>mem := m1\<rparr>)"
    "kheap_avail (st\<lparr>mem := m2\<rparr>) = kheap_avail (st\<lparr>mem := m1\<rparr>)" by (rule p(2), rule p(3))
qed

section \<open>Properties\<close>

text \<open>The descriptor that \<open>kheap_init\<close> installs.\<close>

definition kernel_heap_layout :: heap where
  "kernel_heap_layout =
     \<lparr>table = \<lparr>total = 25600, entries = HEAP_TABLE_ADDRESS\<rparr>, start_address = HEAP_ADDRESS\<rparr>"

lemma kernel_heap_layout_simps [simp]:
  "blocks kernel_heap_layout = 25600" "start_address kernel_heap_layout = 0x01000000"
  "entries (table kernel_heap_layout) = 0x7E00" "total (table kernel_heap_layout) = 25600"
  "heap_shape kernel_heap_layout"
  by (simp_all add: kernel_heap_layout_def blocks_def heap_shape_def)

lemma kheap_init_eq:
  "kheap_init st = st\<lparr>mem := memset (mem st) 0x7E00 0 25600, kernel_heap := kernel_heap_layout\<rparr>"
  by (simp add: kheap_init_def heap_create_def is_valid_alignment_def is_valid_table_def
      kernel_heap_layout_def Let_def)

lemma kheap_init_ok:
  "kheap_ok (kheap_init st)" "kheap_live (kheap_init st) = {}" "kheap_avail (kheap_init st) = 25600"
proof -
  let ?m = "memset (mem st) 0x7E00 0 25600"
  have "entry_at kernel_heap_layout ?m i = 0" if "i < blocks kernel_heap_layout" for i
    using that entry_of_offset [of i kernel_heap_layout]
    by (simp add: entry_at_def memset_eq region_def)
  from heap_ok_empty [OF kernel_heap_layout_simps(5) this]
  show "kheap_ok (kheap_init st)" "kheap_live (kheap_init st) = {}" "kheap_avail (kheap_init st) = 25600"
    by (simp_all add: kheap_init_eq kheap_defs)
qed


text \<open>
  C2: \<^verbatim>\<open>kzalloc\<close> of at most a page.  In a well-formed heap with a free block it returns a
  non-null, page-aligned address of a region that overlaps no allocated region; the
  requested bytes are zero and the contents of every allocated region are unchanged.
\<close>

theorem kzalloc_fresh_page:
  assumes "kheap_ok st" "0 < unat sz" "unat sz \<le> 4096" "0 < kheap_avail st"
    and "kzalloc sz st = (p, st')"
  shows "p \<noteq> 0 \<and> unat p mod 4096 = 0 \<and> kheap_ok st' \<and>
    kheap_live st' = insert (p, 4096) (kheap_live st) \<and> kheap_avail st = Suc (kheap_avail st') \<and>
    (\<forall>a \<in> region p (unat sz). mem st' a = 0) \<and>
    (\<forall>(q, k) \<in> kheap_live st. region p 4096 \<inter> region q k = {} \<and>
       (\<forall>a \<in> region q k. mem st' a = mem st a))"
proof -
  note k = kh.zalloc_keeps [OF assms]
  have "region p 4096 \<inter> region q n = {} \<and> (\<forall>a \<in> region q n. mem st' a = mem st a)"
    if "(q, n) \<in> kheap_live st" for q n
    using k(7) [OF that] k(9) [OF that] by simp
  then have "\<forall>(q, n) \<in> kheap_live st. region p 4096 \<inter> region q n = {} \<and>
      (\<forall>a \<in> region q n. mem st' a = mem st a)" by blast
  then show ?thesis using k(1-3,5,6,8) by (intro conjI ballI) simp_all
qed

theorem kzalloc_fresh_page_witness:
  "\<exists>p st'. kzalloc 12 (kheap_init \<lparr>mem = \<lambda>_. 7, kernel_heap = heap_ex, console = []\<rparr>) = (p, st') \<and>
     p \<noteq> 0 \<and> mem st' p = 0"
proof -
  let ?st = "kheap_init \<lparr>mem = \<lambda>_. 7, kernel_heap = heap_ex, console = []\<rparr>"
  obtain p st' where k: "kzalloc 12 ?st = (p, st')" by (rule prod.exhaust)
  have sz: "0 < unat (12 :: u32)" "unat (12 :: u32) \<le> 4096" by simp_all
  have "0 < kheap_avail ?st" using kheap_init_ok(3) [of "\<lparr>mem = \<lambda>_. 7, kernel_heap = heap_ex, console = []\<rparr>"] by simp
  from kzalloc_fresh_page [OF kheap_init_ok(1) sz this k]
  have "p \<noteq> 0" "\<forall>a \<in> region p (unat (12 :: u32)). mem st' a = 0" by blast+
  moreover have "p \<in> region p (unat (12 :: u32))" by simp
  ultimately show ?thesis using k by blast
qed

text \<open>
  Release of the null pointer.  \<^verbatim>\<open>kfree\<close> does not check its argument: with the heap that
  \<^verbatim>\<open>kheap_init\<close> installs, \<^verbatim>\<open>kfree(0)\<close> computes block \<open>-4096\<close> and overwrites the byte at
  \<open>0x6E00\<close>, which is outside the table.
\<close>

lemma kfree_null_writes_outside_table:
  assumes "kernel_heap st = kernel_heap_layout"
  shows "address_to_heap_block (kernel_heap st) 0 = - 4096 \<and> mem (kfree 0 st) 0x6E00 = 0 \<and>
    0x6E00 \<notin> kheap_reserved st"
proof -
  have b: "address_to_heap_block kernel_heap_layout 0 = - 4096"
    by (simp add: address_to_heap_block_def signed_divide_int_def)
  have "heap_clear (mem st) 0x7E00 (- 4096) 25600 (0x7E00 + of_int (- 4096)) = 0"
    by (rule heap_clear_first) simp
  then have "mem (kfree 0 st) 0x6E00 = 0"
    using assms b by (simp add: kfree_def heap_free_def heap_free_blocks_def)
  moreover have "(0x6E00 :: u32) \<notin> region 0x7E00 25600"
    by (subst region_interval) simp_all
  ultimately show ?thesis using assms b by (simp add: kheap_reserved_def)
qed

end
