(* ===== verification/Zhios_Paging.thy ===== *)
theory Zhios_Paging
  imports Zhios_Kheap
begin

text \<open>
  Paging, \<^verbatim>\<open>src/src/memory/paging/paging.c\<close> and \<^verbatim>\<open>paging.asm\<close>.  Page directories and page
  tables are arrays of 1024 little-endian words in the byte memory, allocated with
  \<open>kzalloc\<close>.  The abstraction is the function from virtual addresses to page-table entries
  that \<open>get_page\<close> computes; \<open>pdir_ok\<close> says that the pages of a directory are distinct.  The
  lemmas show that a new chunk maps every address to itself, that setting one entry changes
  that entry and no other, and which pages \<open>map_page_range\<close> maps.
\<close>

section \<open>Definitions\<close>

abbreviation (input) PAGING_CACHE_DISABLED :: "'a::numeral" where
  "PAGING_CACHE_DISABLED \<equiv> 0x10"

abbreviation (input) PAGING_WRITE_THROUGH :: "'a::numeral" where
  "PAGING_WRITE_THROUGH \<equiv> 0x08"

abbreviation (input) PAGING_ACCESS_FROM_ALL :: "'a::numeral" where
  "PAGING_ACCESS_FROM_ALL \<equiv> 0x04"

abbreviation (input) PAGING_IS_WRITABLE :: "'a::numeral" where
  "PAGING_IS_WRITABLE \<equiv> 0x02"

abbreviation (input) PAGING_IS_PRESENT :: "'a::numeral" where
  "PAGING_IS_PRESENT \<equiv> 0x01"

abbreviation (input) PAGING_TOTAL_ENTRIES_PER_TABLE :: "'a::numeral" where
  "PAGING_TOTAL_ENTRIES_PER_TABLE \<equiv> 1024"

abbreviation (input) PAGING_PAGE_SIZE :: "'a::numeral" where
  "PAGING_PAGE_SIZE \<equiv> 4096"

text \<open>
  The paging state: the static \<^verbatim>\<open>current_directory\<close> and the two control registers the
  assembly routines write.
\<close>

record pstate = mstate +
  current_directory :: addr
  cr3 :: u32
  cr0 :: u32

definition page_load_directory :: "addr \<Rightarrow> 'a pstate_scheme \<Rightarrow> 'a pstate_scheme" where
  "page_load_directory directory st = st\<lparr>cr3 := directory\<rparr>"

definition enable_paging :: "'a pstate_scheme \<Rightarrow> 'a pstate_scheme" where
  "enable_paging st = st\<lparr>cr0 := cr0 st OR 0x80000000\<rparr>"

text \<open>The inner loop of \<open>paging_new_chunk\<close>: \<^verbatim>\<open>entry[j] = (offset + j * PAGING_PAGE_SIZE) | flags\<close>.\<close>

fun fill_table :: "memory \<Rightarrow> addr \<Rightarrow> u32 \<Rightarrow> u32 \<Rightarrow> nat \<Rightarrow> nat \<Rightarrow> memory" where
  "fill_table m entry offset flags j 0 = m"
| "fill_table m entry offset flags j (Suc left) =
     fill_table
       (write32 m (entry + 4 * of_nat j) ((offset + of_nat j * PAGING_PAGE_SIZE) OR flags))
       entry offset flags (Suc j) left"

text \<open>The outer loop, one page table per directory entry.\<close>

fun fill_directory ::
  "addr \<Rightarrow> u32 \<Rightarrow> u32 \<Rightarrow> nat \<Rightarrow> nat \<Rightarrow> 'a mstate_scheme \<Rightarrow> 'a mstate_scheme" where
  "fill_directory directory offset flags i 0 st = st"
| "fill_directory directory offset flags i (Suc left) st =
     (let (entry, st1) = kzalloc (4 * PAGING_TOTAL_ENTRIES_PER_TABLE) st;
          m1 = fill_table (mem st1) entry offset flags 0 PAGING_TOTAL_ENTRIES_PER_TABLE;
          m2 = write32 m1 (directory + 4 * of_nat i) (entry OR flags OR PAGING_IS_WRITABLE)
      in fill_directory directory
           (offset + PAGING_TOTAL_ENTRIES_PER_TABLE * PAGING_PAGE_SIZE) flags (Suc i) left
           (st1\<lparr>mem := m2\<rparr>))"

definition paging_new_chunk :: "u8 \<Rightarrow> 'a mstate_scheme \<Rightarrow> addr \<times> 'a mstate_scheme" where
  "paging_new_chunk flags st =
     (let (directory, st1) = kzalloc (4 * PAGING_TOTAL_ENTRIES_PER_TABLE) st;
          st2 = fill_directory directory 0 (ucast flags) 0 PAGING_TOTAL_ENTRIES_PER_TABLE st1;
          (page_chunk, st3) = kzalloc 4 st2
      in (page_chunk, st3\<lparr>mem := write32 (mem st3) page_chunk directory\<rparr>))"

definition paging_get_directory :: "memory \<Rightarrow> addr \<Rightarrow> addr" where
  "paging_get_directory m chunk = read32 m chunk"

definition paging_switch :: "addr \<Rightarrow> 'a pstate_scheme \<Rightarrow> 'a pstate_scheme" where
  "paging_switch page st =
     (let st' = page_load_directory (read32 (mem st) page) st
      in st'\<lparr>current_directory := read32 (mem st) page\<rparr>)"

definition is_page_aligned :: "addr \<Rightarrow> bool" where
  "is_page_aligned directory \<longleftrightarrow> directory mod PAGING_PAGE_SIZE = 0"

definition paging_get_index :: "addr \<Rightarrow> u32 \<times> u32" where
  "paging_get_index virtual_address =
     (virtual_address div (PAGING_TOTAL_ENTRIES_PER_TABLE * PAGING_PAGE_SIZE),
      virtual_address mod (PAGING_TOTAL_ENTRIES_PER_TABLE * PAGING_PAGE_SIZE) div PAGING_PAGE_SIZE)"

definition get_page :: "memory \<Rightarrow> addr \<Rightarrow> addr \<Rightarrow> u32" where
  "get_page m directory virtual_address =
     (let (directory_index, table_index) = paging_get_index virtual_address;
          entry = read32 m (directory + 4 * directory_index);
          tab = entry AND 0xfffff000
      in read32 m (tab + 4 * table_index))"

definition set_page :: "memory \<Rightarrow> addr \<Rightarrow> addr \<Rightarrow> u32 \<Rightarrow> int \<times> memory" where
  "set_page m directory virtual_address phy_address =
     (if \<not> is_page_aligned virtual_address then (- EINARG, m)
      else (let (directory_index, table_index) = paging_get_index virtual_address;
                entry = read32 m (directory + 4 * directory_index);
                tab = entry AND 0xfffff000
            in (0, write32 m (tab + 4 * table_index) phy_address)))"

definition map_page :: "memory \<Rightarrow> addr \<Rightarrow> addr \<Rightarrow> addr \<Rightarrow> int \<Rightarrow> int \<times> memory" where
  "map_page m page virtual_address physical_address flags =
     (if virtual_address mod PAGING_PAGE_SIZE \<noteq> 0 \<or> physical_address mod PAGING_PAGE_SIZE \<noteq> 0
      then (- EINARG, m)
      else set_page m (read32 m page) virtual_address (physical_address OR of_int flags))"

text \<open>
  \<open>align_to_paging_address\<close> moves an aligned address to the next page as well: it adds a
  whole page when the remainder is zero.
\<close>

definition align_to_paging_address :: "addr \<Rightarrow> addr" where
  "align_to_paging_address ptr = ptr + (PAGING_PAGE_SIZE - ptr mod PAGING_PAGE_SIZE)"

definition algin_to_lower_page :: "addr \<Rightarrow> addr" where
  "algin_to_lower_page ptr = ptr - ptr mod PAGING_PAGE_SIZE"

fun map_page_loop :: "memory \<Rightarrow> addr \<Rightarrow> addr \<Rightarrow> addr \<Rightarrow> int \<Rightarrow> int \<Rightarrow> nat \<Rightarrow> int \<times> memory" where
  "map_page_loop m page virtual_address physical_address flags res 0 = (res, m)"
| "map_page_loop m page virtual_address physical_address flags res (Suc left) =
     (let (res', m') = map_page m page virtual_address physical_address flags in
      if res' < 0 then (res', m')
      else map_page_loop m' page (virtual_address + PAGING_PAGE_SIZE)
             (physical_address + PAGING_PAGE_SIZE) flags res' left)"

definition map_page_range :: "memory \<Rightarrow> addr \<Rightarrow> addr \<Rightarrow> addr \<Rightarrow> int \<Rightarrow> int \<Rightarrow> int \<times> memory" where
  "map_page_range m page virtual_address physical_address sz flags =
     (let count = sint (align_to_paging_address (physical_address + of_int sz) - physical_address)
                    sdiv PAGING_PAGE_SIZE
      in map_page_loop m page virtual_address physical_address flags 0 (nat count))"

definition init_paging :: "u8 \<Rightarrow> 'a pstate_scheme \<Rightarrow> addr \<times> 'a pstate_scheme" where
  "init_paging flags st =
     (let (new_page, st1) = paging_new_chunk flags st
      in (new_page, enable_paging (paging_switch new_page st1)))"

fun free_tables :: "addr \<Rightarrow> nat \<Rightarrow> nat \<Rightarrow> 'a mstate_scheme \<Rightarrow> 'a mstate_scheme" where
  "free_tables page i 0 st = st"
| "free_tables page i (Suc left) st =
     (let entry = read32 (mem st) (read32 (mem st) page + 4 * of_nat i);
          tab = entry AND 0xfffff000
      in free_tables page (Suc i) left (kfree tab st))"

definition free_page :: "addr \<Rightarrow> 'a mstate_scheme \<Rightarrow> 'a mstate_scheme" where
  "free_page page st =
     (let st1 = free_tables page 0 PAGING_TOTAL_ENTRIES_PER_TABLE st;
          st2 = kfree (read32 (mem st1) page) st1
      in kfree page st2)"

definition paging_get_physical_address :: "memory \<Rightarrow> addr \<Rightarrow> addr \<Rightarrow> u32" where
  "paging_get_physical_address m page virtual_address =
     (let offset = virtual_address mod PAGING_PAGE_SIZE;
          page_start_address = virtual_address - offset;
          base_address = get_page m (read32 m page) page_start_address AND NOT 0xFFF
      in base_address + offset)"

section \<open>Arithmetic of pages\<close>

lemma page_aligned_word: "a mod 4096 = 0 \<longleftrightarrow> unat (a :: addr) mod 4096 = 0"
  by (simp add: word_unat_eq_iff unat_mod)

lemma page_fits:
  assumes "unat (a :: addr) mod 4096 = 0"
  shows "unat a + 4096 \<le> 4294967296"
proof -
  obtain q where "unat a = 4096 * q" using assms by (metis mod_0_imp_dvd dvdE)
  then show ?thesis using unat_u32_less [of a] by simp
qed

lemma page_entry_unat:
  assumes "unat (a :: addr) mod 4096 = 0" "k < 1024"
  shows "unat (a + 4 * of_nat k) = unat a + 4 * k"
  using page_fits [OF assms(1)] assms(2) unat_add_small [of a "4 * k"] by simp

lemma page_multiple:
  assumes "unat (a :: addr) mod 4096 = 0"
  shows "unat a = 4096 * (unat a div 4096)"
  using mult_div_mod_eq [of 4096 "unat a"] assms by simp

lemma page_entry_aligned4:
  assumes "unat (a :: addr) mod 4096 = 0" "k < 1024"
  shows "aligned4 (a + 4 * of_nat k)"
proof -
  have "4 dvd unat a" using page_multiple [OF assms(1)] by (metis dvd_mult2 dvd_triv_left mult.assoc num_double numeral_times_numeral semiring_norm(11))
  then show ?thesis using page_entry_unat [OF assms] by (simp add: aligned4_def mod_eq_0_iff_dvd)
qed

lemma page_entry_eq:
  assumes "unat (a :: addr) mod 4096 = 0" "unat (b :: addr) mod 4096 = 0" "k < 1024" "l < 1024"
  shows "a + 4 * of_nat k = b + 4 * of_nat l \<longleftrightarrow> a = b \<and> k = l"
proof
  assume "a + 4 * of_nat k = b + 4 * of_nat l"
  then have eq: "unat a + 4 * k = unat b + 4 * l"
    using page_entry_unat [OF assms(1,3)] page_entry_unat [OF assms(2,4)] by simp
  have "(unat a + 4 * k) mod 4096 = 4 * k" "(unat b + 4 * l) mod 4096 = 4 * l"
    using assms by (simp_all add: mod_add_left_eq [of "unat _", symmetric])
  with eq have "k = l" by simp
  with eq show "a = b \<and> k = l" by (simp add: word_unat_eq_iff)
qed simp

lemma page_entry_region:
  assumes "unat (a :: addr) mod 4096 = 0" "k < 1024"
  shows "region (a + 4 * of_nat k) 4 \<subseteq> region a 4096"
proof -
  have "unat (a + 4 * of_nat k) + 4 \<le> 4294967296"
    using page_entry_unat [OF assms] page_fits [OF assms(1)] assms(2) by simp
  then show ?thesis
    using page_fits [OF assms(1)] page_entry_unat [OF assms] assms(2)
    by (auto simp: region_interval)
qed

lemma pages_disjoint:
  assumes "unat (a :: addr) mod 4096 = 0" "unat (b :: addr) mod 4096 = 0" "a \<noteq> b"
  shows "region a 4096 \<inter> region b 4096 = {}"
proof -
  have ne: "unat a div 4096 \<noteq> unat b div 4096"
    using assms page_multiple [of a] page_multiple [of b] by (auto simp: word_unat_eq_iff)
  then consider "unat a div 4096 < unat b div 4096" | "unat b div 4096 < unat a div 4096"
    by linarith
  then show ?thesis
  proof cases
    case 1
    then have "unat a + 4096 \<le> unat b"
      using page_multiple [OF assms(1)] page_multiple [OF assms(2)] by linarith
    then show ?thesis using page_fits [OF assms(2)] by (rule region_disjoint)
  next
    case 2
    then have "unat b + 4096 \<le> unat a"
      using page_multiple [OF assms(1)] page_multiple [OF assms(2)] by linarith
    then show ?thesis using region_disjoint [of b 4096 a 4096] page_fits [OF assms(1)] by blast
  qed
qed

text \<open>The masks that the code applies to page-table and directory entries.\<close>

lemma page_mask: "(0xfffff000 :: u32) = NOT (mask 12)"
  by (simp add: mask_eq_exp_minus_1)

lemma page_mask_unat: "unat (w AND 0xfffff000 :: u32) mod 4096 = 0"
proof -
  have "take_bit 12 (w AND 0xfffff000 :: u32) = 0"
    unfolding page_mask by (rule bit_word_eqI) (auto simp: bit_simps)
  then have "take_bit 12 (unat (w AND 0xfffff000 :: u32)) = 0"
    by (metis unsigned_0 unsigned_take_bit_eq)
  then show ?thesis by (simp add: take_bit_eq_mod)
qed

lemma page_mask_low:
  assumes "unat (a :: u32) mod 4096 = 0" "unat f < 4096"
  shows "(a OR f) AND 0xfffff000 = a"
proof (rule bit_word_eqI)
  fix n
  assume "n < LENGTH(32)"
  have "take_bit 12 (unat a) = 0" using assms(1) by (simp add: take_bit_eq_mod)
  then have "take_bit 12 a = 0" by (metis unsigned_0 unsigned_take_bit_eq unsigned_word_eqI)
  then have "\<not> bit a n" if "n < 12" using that by (metis bit_0_eq bit_take_bit_iff bot_apply bot_bool_def)
  moreover have "take_bit 12 (unat f) = unat f" using assms(2) by (simp add: take_bit_eq_mod)
  then have "take_bit 12 f = f" by (metis unsigned_take_bit_eq unsigned_word_eqI)
  then have "\<not> bit f n" if "12 \<le> n" using that by (metis bit_take_bit_iff not_less)
  ultimately show "bit ((a OR f) AND 0xfffff000) n = bit a n"
    using \<open>n < LENGTH(32)\<close> unfolding page_mask
    by (cases "n < 12") (auto simp: bit_simps not_less)
qed

lemma page_mask_eq: "w AND 0xfffff000 = w - w mod (4096 :: u32)"
proof -
  have "(w AND 0xfffff000) AND take_bit 12 w = 0" "(w AND 0xfffff000) OR take_bit 12 w = w"
    unfolding page_mask by (rule bit_word_eqI; auto simp: bit_simps not_le)+
  then have "(w AND 0xfffff000) + take_bit 12 w = w" by (simp add: disjunctive_add_eq_or)
  then show ?thesis by (simp add: take_bit_eq_mod algebra_simps)
qed

section \<open>Directories and their tables\<close>

lemma not_in_first: "x \<notin> f ` {..<n} \<longleftrightarrow> (\<forall>k < n. f k \<noteq> x)" for n :: nat
  by auto


text \<open>
  \<open>table_of m dir i\<close> is the page table that directory entry \<open>i\<close> points to and \<open>pte m dir v\<close>
  the address of the page-table entry for the virtual address \<open>v\<close>.  In a well-formed
  directory the 1024 tables and the directory itself are different pages.
\<close>

definition table_of :: "memory \<Rightarrow> addr \<Rightarrow> nat \<Rightarrow> addr" where
  "table_of m dir i = read32 m (dir + 4 * of_nat i) AND 0xfffff000"

definition pte :: "memory \<Rightarrow> addr \<Rightarrow> addr \<Rightarrow> addr" where
  "pte m dir v = table_of m dir (unat v div 4194304) + 4 * of_nat (unat v mod 4194304 div 4096)"

definition pdir_ok :: "memory \<Rightarrow> addr \<Rightarrow> bool" where
  "pdir_ok m dir \<longleftrightarrow> unat dir mod 4096 = 0 \<and> inj_on (table_of m dir) {..<1024} \<and>
     dir \<notin> table_of m dir ` {..<1024}"

definition page_ok :: "memory \<Rightarrow> addr \<Rightarrow> bool" where
  "page_ok m page \<longleftrightarrow> unat page mod 4096 = 0 \<and> pdir_ok m (read32 m page) \<and>
     page \<notin> table_of m (read32 m page) ` {..<1024}"

lemma table_of_aligned: "unat (table_of m dir i) mod 4096 = 0"
  by (simp add: table_of_def page_mask_unat)

lemma index_bounds:
  "unat (v :: addr) div 4194304 < 1024" "unat (v :: addr) mod 4194304 div 4096 < 1024"
  using unat_u32_less [of v] by (simp_all add: less_mult_imp_div_less)

lemma paging_get_index_eq:
  "paging_get_index v = (of_nat (unat v div 4194304), of_nat (unat v mod 4194304 div 4096))"
proof -
  have "unat v div 4194304 < 4294967296" "unat v mod 4194304 div 4096 < 4294967296"
    using index_bounds [of v] by simp_all
  then show ?thesis
    unfolding paging_get_index_def prod.inject word_unat_eq_iff unat_of_nat_small
    by (simp add: unat_div unat_mod)
qed

lemma get_page_pte: "get_page m dir v = read32 m (pte m dir v)"
  by (simp add: get_page_def paging_get_index_eq pte_def table_of_def)

lemma set_page_pte:
  "set_page m dir v x = (if unat v mod 4096 = 0 then (0, write32 m (pte m dir v) x) else (- EINARG, m))"
  by (simp add: set_page_def is_page_aligned_def page_aligned_word paging_get_index_eq pte_def table_of_def)

lemma page_number_split:
  fixes a :: addr
  shows "unat a div 4096 = 1024 * (unat a div 4194304) + unat a mod 4194304 div 4096"
proof -
  have "unat a = 4096 * (1024 * (unat a div 4194304)) + unat a mod 4194304" by simp
  then show ?thesis by (metis div_mult_self4 zero_neq_numeral add.commute)
qed

lemma page_base_split:
  fixes a :: addr
  shows "of_nat (unat a div 4194304) * 4194304 + of_nat (unat a mod 4194304 div 4096) * 4096 = a - a mod 4096"
proof -
  have "unat a mod 4096 < 4294967296" by (rule order.strict_trans [OF mod_less_divisor]) simp_all
  then have "a mod 4096 = of_nat (unat a mod 4096)"
    unfolding word_unat_eq_iff unat_of_nat_small by (simp add: unat_mod)
  moreover have "a = of_nat (4096 * (unat a div 4096) + unat a mod 4096)" by simp
  ultimately have "a = of_nat (4096 * (unat a div 4096)) + a mod 4096"
    by (simp only: of_nat_add)
  then show ?thesis unfolding page_number_split by (simp add: algebra_simps)
qed

lemma same_page_index:
  "unat v div 4194304 = unat w div 4194304 \<and> unat v mod 4194304 div 4096 = unat w mod 4194304 div 4096
     \<longleftrightarrow> unat (v :: addr) div 4096 = unat (w :: addr) div 4096"
proof -
  have "unat a div 4096 div 1024 = unat a div 4194304" "unat a div 4096 mod 1024 = unat a mod 4194304 div 4096"
    for a :: addr
    using page_number_split [of a] index_bounds(2) [of a] by (simp_all add: div_mult2_eq [symmetric])
  then show ?thesis using page_number_split by metis
qed

lemma pte_eq:
  assumes "pdir_ok m dir"
  shows "pte m dir v = pte m dir w \<longleftrightarrow> unat v div 4096 = unat w div 4096"
  using assms index_bounds [of v] index_bounds [of w]
  by (auto simp: pte_def pdir_ok_def page_entry_eq table_of_aligned inj_on_def
      simp flip: same_page_index)

lemma pte_aligned4: "aligned4 (pte m dir v)"
  unfolding pte_def using table_of_aligned index_bounds(2) by (rule page_entry_aligned4)

lemma pte_region: "region (pte m dir v) 4 \<subseteq> region (table_of m dir (unat v div 4194304)) 4096"
  unfolding pte_def using table_of_aligned index_bounds(2) by (rule page_entry_region)

text \<open>A write to a page-table entry leaves the directory, and every page that is no table, alone.\<close>

lemma write_pte_outside:
  assumes "unat q mod 4096 = 0" "q \<notin> table_of m dir ` {..<1024}" "a \<in> region q 4096"
  shows "write32 m (pte m dir v) x a = m a"
proof -
  have "region q 4096 \<inter> region (table_of m dir (unat v div 4194304)) 4096 = {}"
    using assms(1,2) index_bounds(1) [of v] table_of_aligned by (intro pages_disjoint) auto
  then show ?thesis using assms(3) pte_region by (intro write32_outside) blast
qed

lemma write_pte_read32:
  assumes "unat q mod 4096 = 0" "q \<notin> table_of m dir ` {..<1024}" "k < 1024"
  shows "read32 (write32 m (pte m dir v) x) (q + 4 * of_nat k) = read32 m (q + 4 * of_nat k)"
  using write_pte_outside [OF assms(1,2)] page_entry_region [OF assms(1,3)]
  by (intro read32_cong) auto

lemma write_pte_tables:
  assumes "pdir_ok m dir" "i < 1024"
  shows "table_of (write32 m (pte m dir v) x) dir i = table_of m dir i"
  using assms by (simp add: table_of_def pdir_ok_def write_pte_read32)

lemma write_pte_pte:
  assumes "pdir_ok m dir"
  shows "pte (write32 m (pte m dir v) x) dir w = pte m dir w"
  using assms index_bounds(1) [of w] by (simp add: pte_def [of _ dir w] write_pte_tables)

lemma write_pte_pdir_ok:
  assumes "pdir_ok m dir"
  shows "pdir_ok (write32 m (pte m dir v) x) dir"
  using assms write_pte_tables [OF assms, of _ v x]
  by (auto simp: pdir_ok_def inj_on_def image_iff)

lemma write_pte_get_page:
  assumes "pdir_ok m dir"
  shows "get_page (write32 m (pte m dir v) x) dir w =
    (if unat v div 4096 = unat w div 4096 then x else get_page m dir w)"
  using assms by (simp add: get_page_pte write_pte_pte read32_write32_aligned pte_aligned4 pte_eq)

lemma write_pte_page_ok:
  assumes "page_ok m page"
  shows "read32 (write32 m (pte m (read32 m page) v) x) page = read32 m page"
    "page_ok (write32 m (pte m (read32 m page) v) x) page"
proof -
  show "read32 (write32 m (pte m (read32 m page) v) x) page = read32 m page"
    using write_pte_read32 [of page m "read32 m page" 0] assms by (simp add: page_ok_def)
  then show "page_ok (write32 m (pte m (read32 m page) v) x) page"
    using assms write_pte_tables [of m "read32 m page" _ v x]
    by (auto simp: page_ok_def write_pte_pdir_ok image_iff)
qed

section \<open>Mapping ranges\<close>

lemma map_page_pte:
  "map_page m page v p flags =
     (if unat v mod 4096 = 0 \<and> unat p mod 4096 = 0
      then (0, write32 m (pte m (read32 m page) v) (p OR of_int flags)) else (- EINARG, m))"
  by (simp add: map_page_def page_aligned_word set_page_pte)

lemma page_step_aligned:
  assumes "unat (v :: addr) mod 4096 = 0"
  shows "unat (v + 4096) mod 4096 = 0"
  using assms by (simp add: unat_word_ariths mod_mod_cancel)

text \<open>
  Page number \<open>k\<close> of the range that starts at the aligned address \<open>v\<close> consists of the
  addresses \<open>w\<close> with \<open>unat (w - v) div 4096 = k\<close>.
\<close>

lemma page_number_Suc:
  fixes w v :: addr
  assumes "n < 1048576"
  shows "unat (w - v) div 4096 < Suc n \<longleftrightarrow>
      unat (w - v) < 4096 \<or> unat (w - (v + 4096)) div 4096 < n"
    "4096 \<le> unat (w - v) \<Longrightarrow>
      unat (w - v) div 4096 = Suc (unat (w - (v + 4096)) div 4096)"
    "unat (w - v) < 4096 \<Longrightarrow> \<not> unat (w - (v + 4096)) div 4096 < n"
proof -
  have d: "w - (v + 4096) = (w - v) - 4096" by simp
  show far: "unat (w - v) div 4096 = Suc (unat (w - (v + 4096)) div 4096)" if "4096 \<le> unat (w - v)"
  proof -
    have "unat (w - (v + 4096)) = unat (w - v) - 4096"
      using that unfolding d by (subst unat_diff_le) (simp_all add: word_le_nat_alt)
    then show ?thesis using that by (simp add: le_div_geq)
  qed
  show near: "\<not> unat (w - (v + 4096)) div 4096 < n" if "unat (w - v) < 4096"
  proof -
    have "of_nat 4294963200 = (- 4096 :: u32)" by simp
    then have "w - (v + 4096) = of_nat (4294963200 + unat (w - v))" unfolding of_nat_add by simp
    then have "unat (w - (v + 4096)) = 4294963200 + unat (w - v)"
      using that by (simp only: unat_of_nat_small)
    then have "1048575 * 4096 \<le> unat (w - (v + 4096))" by simp
    then have "1048575 \<le> unat (w - (v + 4096)) div 4096" by (simp add: less_eq_div_iff_mult_less_eq)
    then show ?thesis using assms by simp
  qed
  show "unat (w - v) div 4096 < Suc n \<longleftrightarrow>
      unat (w - v) < 4096 \<or> unat (w - (v + 4096)) div 4096 < n"
    using far near by (cases "unat (w - v) < 4096") auto
qed

lemma first_page:
  fixes w v :: addr
  assumes "unat v mod 4096 = 0"
  shows "unat v div 4096 = unat w div 4096 \<longleftrightarrow> unat (w - v) < 4096"
proof -
  have "unat (w - v) < 4096 \<longleftrightarrow> unat v \<le> unat w \<and> unat w < unat v + 4096"
    using region_interval [OF page_fits [OF assms], of w] by (simp add: in_region)
  also have "\<dots> \<longleftrightarrow> unat w div 4096 = unat v div 4096"
    using page_multiple [OF assms] div_nat_eqI [of "unat v div 4096" 4096 "unat w"]
      mult_div_mod_eq [of 4096 "unat w"] mod_less_divisor [of 4096 "unat w"]
    by (auto simp: mult.commute)
  finally show ?thesis by auto
qed

definition tables_of :: "memory \<Rightarrow> addr \<Rightarrow> addr set" where
  "tables_of m page = table_of m (read32 m page) ` {..<1024}"

text \<open>
  \<open>remaps m page m'\<close>: the directory stays well-formed with the same tables, and only bytes of
  the tables differ.
\<close>

definition remaps :: "memory \<Rightarrow> addr \<Rightarrow> memory \<Rightarrow> bool" where
  "remaps m page m' \<longleftrightarrow> page_ok m' page \<and> read32 m' page = read32 m page \<and>
     tables_of m' page = tables_of m page \<and>
     (\<forall>q a. unat q mod 4096 = 0 \<and> q \<notin> tables_of m page \<and> a \<in> region q 4096 \<longrightarrow> m' a = m a)"

lemma remaps_refl: "page_ok m page \<Longrightarrow> remaps m page m"
  by (simp add: remaps_def)

lemma remaps_trans: "remaps m page m1 \<Longrightarrow> remaps m1 page m2 \<Longrightarrow> remaps m page m2"
  by (auto simp: remaps_def)

lemma remapsD:
  assumes "remaps m page m'"
  shows "page_ok m' page" "read32 m' page = read32 m page" "tables_of m' page = tables_of m page"
    "unat q mod 4096 = 0 \<Longrightarrow> q \<notin> tables_of m page \<Longrightarrow> a \<in> region q 4096 \<Longrightarrow> m' a = m a"
  using assms by (auto simp: remaps_def)

lemma write_pte_remaps:
  assumes "page_ok m page"
  shows "remaps m page (write32 m (pte m (read32 m page) v) x)"
proof -
  note w = write_pte_page_ok [OF assms, of v x]
  have ok: "pdir_ok m (read32 m page)" using assms by (simp add: page_ok_def)
  have t: "tables_of (write32 m (pte m (read32 m page) v) x) page = tables_of m page"
    using write_pte_tables [OF ok, of _ v x] by (auto simp: tables_of_def w(1))
  have out: "write32 m (pte m (read32 m page) v) x a = m a"
    if "unat q mod 4096 = 0" "q \<notin> tables_of m page" "a \<in> region q 4096" for q a
    using that by (intro write_pte_outside) (simp_all add: tables_of_def)
  show ?thesis unfolding remaps_def by (intro conjI allI impI w t) (elim conjE, rule out)
qed

lemma map_page_loop_spec:
  assumes "page_ok m page" "unat v mod 4096 = 0" "unat p mod 4096 = 0" "n \<le> 1048576"
  shows "\<exists>m'. map_page_loop m page v p flags 0 n = (0, m') \<and> remaps m page m' \<and>
    (\<forall>w. get_page m' (read32 m page) w =
       (if unat (w - v) div 4096 < n
        then (p + of_nat (4096 * (unat (w - v) div 4096))) OR of_int flags
        else get_page m (read32 m page) w))"
  using assms
proof (induction n arbitrary: m v p)
  case 0
  then show ?case by (simp add: remaps_refl)
next
  case (Suc n)
  let ?dir = "read32 m page"
  let ?m = "write32 m (pte m ?dir v) (p OR of_int flags)"
  have re: "remaps m page ?m" by (rule write_pte_remaps [OF Suc.prems(1)])
  then have ok: "page_ok ?m page" and dir: "read32 ?m page = ?dir" by (auto dest: remapsD)
  have "pdir_ok m ?dir" using Suc.prems(1) by (simp add: page_ok_def)
  note g = write_pte_get_page [OF this, of v "p OR of_int flags"]
  obtain m' where m': "map_page_loop ?m page (v + 4096) (p + 4096) flags 0 n = (0, m')"
    "remaps ?m page m'"
    "\<And>w. get_page m' ?dir w =
       (if unat (w - (v + 4096)) div 4096 < n
        then (p + 4096 + of_nat (4096 * (unat (w - (v + 4096)) div 4096))) OR of_int flags
        else get_page ?m ?dir w)"
    using Suc.IH [OF ok, of "v + 4096" "p + 4096"] Suc.prems page_step_aligned
    unfolding dir by auto
  have "get_page m' ?dir w = (if unat (w - v) div 4096 < Suc n
        then (p + of_nat (4096 * (unat (w - v) div 4096))) OR of_int flags
        else get_page m ?dir w)" for w
  proof (cases "unat (w - v) < 4096")
    case True
    then show ?thesis
      using page_number_Suc [of n w v] Suc.prems(4) m'(3) [of w] g [of w] first_page [OF Suc.prems(2), of w]
      by simp
  next
    case False
    then show ?thesis
      using page_number_Suc [of n w v] Suc.prems(4) m'(3) [of w] g [of w] first_page [OF Suc.prems(2), of w]
      by (simp add: algebra_simps)
  qed
  then show ?case
    using m'(1) remaps_trans [OF re m'(2)] Suc.prems(2,3) by (simp add: map_page_pte)
qed

text \<open>The number of pages: one more than the whole pages in the size.\<close>

lemma map_page_range_count:
  assumes "unat p mod 4096 = 0" "0 \<le> sz" "sz < 2147479552"
  shows "sint (align_to_paging_address (p + of_int sz) - p) sdiv 4096 = sz div 4096 + 1"
proof -
  define n where "n = nat sz"
  have n: "of_int sz = (of_nat n :: u32)" "sz = int n" "n < 2147479552" using assms(2,3) by (simp_all add: n_def)
  have "unat (p + of_nat n) mod 4096 = n mod 4096"
    using assms(1) n(3) mod_add_left_eq [of "unat p" 4096 n] by (simp add: unat_word_ariths mod_mod_cancel)
  then have "(p + of_nat n) mod 4096 = of_nat (n mod 4096)"
    using n(3) by (subst word_unat_eq_iff) (simp add: unat_mod less_imp_le_nat order.strict_trans1 [OF mod_less_eq_dividend])
  then have "align_to_paging_address (p + of_int sz) - p = of_nat (n + 4096 - n mod 4096)"
    unfolding n(1) align_to_paging_address_def by (simp add: of_nat_diff trans_le_add2)
  moreover have y: "n + 4096 - n mod 4096 < 2147483648" using n(3) by simp
  ultimately have "sint (align_to_paging_address (p + of_int sz) - p) = int (n + 4096 - n mod 4096)"
    using sint_eq_uint_small [of "of_nat (n + 4096 - n mod 4096)"] by (simp only: unat_of_nat_small)
  moreover have "n + 4096 - n mod 4096 = 4096 * (n div 4096 + 1)"
    using mult_div_mod_eq [of 4096 n] unfolding distrib_left by linarith
  ultimately show ?thesis using n(2) by (simp add: signed_divide_int_def zdiv_int)
qed

lemma map_page_range_spec:
  assumes "page_ok m page" "unat v mod 4096 = 0" "unat p mod 4096 = 0" "0 \<le> sz" "sz < 2147479552"
    and "map_page_range m page v p sz flags = (res, m')"
  shows "res = 0" "remaps m page m'"
    "get_page m' (read32 m page) w =
      (if int (unat (w - v) div 4096) < sz div 4096 + 1
       then (p + of_nat (4096 * (unat (w - v) div 4096))) OR of_int flags
       else get_page m (read32 m page) w)"
proof -
  let ?n = "nat (sz div 4096 + 1)"
  have n: "?n \<le> 1048576" "int ?n = sz div 4096 + 1" using assms(4,5) by linarith+
  have "map_page_loop m page v p flags 0 ?n = (res, m')"
    using assms(6) map_page_range_count [OF assms(3-5)] by (simp add: map_page_range_def)
  then have s: "res = 0" "remaps m page m'"
      "\<forall>w. get_page m' (read32 m page) w = (if unat (w - v) div 4096 < ?n
        then (p + of_nat (4096 * (unat (w - v) div 4096))) OR of_int flags
        else get_page m (read32 m page) w)"
    using map_page_loop_spec [OF assms(1-3) n(1), of flags] by auto
  moreover have "unat (w - v) div 4096 < ?n \<longleftrightarrow> int (unat (w - v) div 4096) < sz div 4096 + 1"
    using n(2) by linarith
  ultimately show "res = 0" "remaps m page m'" "get_page m' (read32 m page) w =
      (if int (unat (w - v) div 4096) < sz div 4096 + 1
       then (p + of_nat (4096 * (unat (w - v) div 4096))) OR of_int flags
       else get_page m (read32 m page) w)" by simp_all
qed

section \<open>A new chunk\<close>

text \<open>Building and releasing a chunk changes the memory only.\<close>

lemma fill_directory_put: "\<exists>m. fill_directory dir offset flags i n st = st\<lparr>mem := m\<rparr>"
proof (induction n arbitrary: offset i st)
  case 0
  then show ?case by (auto intro: exI [of _ "mem st"])
next
  case (Suc n)
  obtain e st1 where z: "kzalloc 4096 st = (e, st1)" by (rule prod.exhaust)
  obtain m where "snd (kzalloc 4096 st) = st\<lparr>mem := m\<rparr>" using kzalloc_put by blast
  then have "st1 = st\<lparr>mem := m\<rparr>" using z by simp
  moreover have "\<exists>m'. fill_directory dir (offset + 4194304) flags (Suc i) n (st\<lparr>mem := m2\<rparr>) = st\<lparr>mem := m'\<rparr>" for m2
    using Suc [of "offset + 4194304" "Suc i" "st\<lparr>mem := m2\<rparr>"] by simp
  ultimately show ?case using z by (simp add: Let_def)
qed

lemma paging_new_chunk_put: "\<exists>m. snd (paging_new_chunk flags st) = st\<lparr>mem := m\<rparr>"
proof -
  obtain d st1 where d: "kzalloc 4096 st = (d, st1)" by (rule prod.exhaust)
  obtain m1 where "snd (kzalloc 4096 st) = st\<lparr>mem := m1\<rparr>" using kzalloc_put by blast
  then have s1: "st1 = st\<lparr>mem := m1\<rparr>" using d by simp
  obtain m2 where s2: "fill_directory d 0 (ucast flags) 0 1024 st1 = st\<lparr>mem := m2\<rparr>"
    using fill_directory_put [of d 0 "ucast flags" 0 1024 st1] s1 by auto
  obtain p st3 where p: "kzalloc 4 (st\<lparr>mem := m2\<rparr>) = (p, st3)" by (rule prod.exhaust)
  obtain m3 where "snd (kzalloc 4 (st\<lparr>mem := m2\<rparr>)) = st\<lparr>mem := m3\<rparr>"
    using kzalloc_put [of 4 "st\<lparr>mem := m2\<rparr>"] by auto
  then have "st3 = st\<lparr>mem := m3\<rparr>" using p by simp
  then show ?thesis using d s2 p by (auto simp: paging_new_chunk_def Let_def)
qed

lemma fill_table_frame:
  assumes "unat entry mod 4096 = 0" "j + n \<le> 1024" "a \<notin> region entry 4096"
  shows "fill_table m entry offset flags j n a = m a"
  using assms(2)
proof (induction n arbitrary: m j)
  case (Suc n)
  have "a \<notin> region (entry + 4 * of_nat j) 4"
    using page_entry_region [OF assms(1), of j] Suc.prems assms(3) by auto
  then show ?case using Suc by (simp add: write32_outside)
qed simp

lemma fill_table_read:
  assumes "unat entry mod 4096 = 0" "j + n \<le> 1024" "k < 1024"
  shows "read32 (fill_table m entry offset flags j n) (entry + 4 * of_nat k) =
    (if j \<le> k \<and> k < j + n then (offset + of_nat k * 4096) OR flags
     else read32 m (entry + 4 * of_nat k))"
  using assms(2)
proof (induction n arbitrary: m j)
  case (Suc n)
  then have "aligned4 (entry + 4 * of_nat j)" "aligned4 (entry + 4 * of_nat k)"
    "entry + 4 * of_nat j = entry + 4 * of_nat k \<longleftrightarrow> j = k"
    using page_entry_aligned4 [OF assms(1)] page_entry_eq [OF assms(1,1)] assms(3) by auto
  then show ?case
    using Suc by (auto simp: read32_write32_aligned)
qed auto

text \<open>
  The state after \<open>i\<close> rounds of the outer loop, relative to the allocations \<open>L\<close> made before
  the call: the first \<open>i\<close> tables are allocated pages, different from each other, from the
  directory and from the pages of \<open>L\<close>, and table \<open>k\<close> maps the addresses from \<open>k\<close> times 4 MiB
  on to themselves.
\<close>

definition chunk_pages :: "memory \<Rightarrow> addr \<Rightarrow> nat \<Rightarrow> (addr \<times> nat) set" where
  "chunk_pages m dir i = (\<lambda>k. (table_of m dir k, 4096)) ` {..<i}"

definition chunk_inv :: "(addr \<times> nat) set \<Rightarrow> addr \<Rightarrow> u32 \<Rightarrow> nat \<Rightarrow> 'a mstate_scheme \<Rightarrow> bool" where
  "chunk_inv L dir flags i st \<longleftrightarrow> kheap_ok st \<and>
     kheap_live st = L \<union> {(dir, 4096)} \<union> chunk_pages (mem st) dir i \<and>
     unat dir mod 4096 = 0 \<and> inj_on (table_of (mem st) dir) {..<i} \<and>
     dir \<notin> table_of (mem st) dir ` {..<i} \<and> L \<inter> chunk_pages (mem st) dir i = {} \<and>
     (\<forall>q k. (q, k) \<in> L \<longrightarrow> region dir 4096 \<inter> region q k = {} \<and> unat q mod 4096 = 0 \<and> 0 < k) \<and>
     (\<forall>k < i. \<forall>j < 1024. read32 (mem st) (table_of (mem st) dir k + 4 * of_nat j) =
        (of_nat k * 4194304 + of_nat j * 4096) OR flags)"

lemma region_nonempty_disjoint:
  assumes "region p n \<inter> region q k = {}" "0 < n" "0 < k"
  shows "p \<noteq> q"
  using assms by (metis disjoint_iff region_base)

lemma flags_low:
  assumes "unat (f :: u32) < 256"
  shows "unat f < 4096" "unat (f OR 2) < 4096"
proof -
  have "uint f < 2 ^ 8" using assms unfolding uint_nat by (simp only: of_nat_less_numeral_iff power_numeral Num.pow.simps) simp
  then have "uint (f OR 2) < 2 ^ 8" by (simp add: unsigned_or_eq OR_upper [of _ 8, simplified])
  then have "int (unat (f OR 2)) < 4096" by simp
  then show "unat (f OR 2) < 4096" by linarith
qed (use assms in simp)

lemma fill_directory_step:
  assumes inv: "chunk_inv L dir flags i st" and i: "i < 1024" and f: "unat flags < 256"
    and avail: "0 < kheap_avail st" and z: "kzalloc 4096 st = (p, st1)"
    and st2: "st2 = st1\<lparr>mem := write32 (fill_table (mem st1) p (of_nat i * 4194304) flags 0 1024)
        (dir + 4 * of_nat i) (p OR flags OR 2)\<rparr>"
  shows "chunk_inv L dir flags (Suc i) st2" "kheap_avail st = Suc (kheap_avail st2)"
    "\<And>q k a. (q, k) \<in> L \<Longrightarrow> a \<in> region q k \<Longrightarrow> mem st2 a = mem st a"
proof -
  have ok: "kheap_ok st" using inv by (simp add: chunk_inv_def)
  note k = kh.zalloc_keeps [OF ok _ _ avail z, simplified]
  let ?m1 = "fill_table (mem st1) p (of_nat i * 4194304) flags 0 1024"
  let ?m2 = "write32 ?m1 (dir + 4 * of_nat i) (p OR flags OR 2)"
  have dir: "unat dir mod 4096 = 0" using inv by (simp add: chunk_inv_def)
  have live: "(dir, 4096) \<in> kheap_live st" using inv by (simp add: chunk_inv_def)
  have p_dir: "p \<noteq> dir" using k(7) [OF live] by (rule region_nonempty_disjoint) simp_all
  have p_tab: "table_of (mem st) dir l \<noteq> p" if "l < i" for l
    using k(7) [of "table_of (mem st) dir l" 4096] that inv
      region_nonempty_disjoint [of p 4096 "table_of (mem st) dir l" 4096]
    by (auto simp: chunk_inv_def chunk_pages_def)
  have outside: "?m2 a = mem st1 a" if "a \<notin> region p 4096" "a \<notin> region dir 4096" for a
    using that page_entry_region [OF dir i] k(6)
    by (subst write32_outside) (auto simp: fill_table_frame)
  have read_out: "read32 ?m2 (q + 4 * of_nat l) = read32 (mem st1) (q + 4 * of_nat l)"
    if "unat q mod 4096 = 0" "q \<noteq> p" "q \<noteq> dir" "l < 1024" for q l
    using pages_disjoint [OF that(1) k(6) that(2)] pages_disjoint [OF that(1) dir that(3)]
      page_entry_region [OF that(1,4)] by (intro read32_cong outside) auto
  have read_live: "read32 (mem st1) (q + 4 * of_nat l) = read32 (mem st) (q + 4 * of_nat l)"
    if "(q, 4096) \<in> kheap_live st" "unat q mod 4096 = 0" "l < 1024" for q l
    using page_entry_region [OF that(2,3)] by (intro read32_cong k(9) [OF that(1)]) auto
  have read_dir: "read32 ?m2 (dir + 4 * of_nat l) =
      (if l = i then p OR flags OR 2 else read32 (mem st) (dir + 4 * of_nat l))" if "l < 1024" for l
  proof -
    have "read32 ?m1 (dir + 4 * of_nat l) = read32 (mem st1) (dir + 4 * of_nat l)"
      using pages_disjoint [OF dir k(6)] p_dir page_entry_region [OF dir that] k(6)
      by (intro read32_cong fill_table_frame) auto
    then show ?thesis
      using page_entry_aligned4 [OF dir] page_entry_eq [OF dir dir] that i read_live [OF live dir that]
      by (auto simp: read32_write32_aligned)
  qed
  have tab: "table_of ?m2 dir l = (if l = i then p else table_of (mem st) dir l)" if "l < 1024" for l
    using that read_dir [OF that] page_mask_low [OF k(6), of "flags OR 2"] flags_low [OF f]
    by (simp add: table_of_def)
  have res: "?m2 a = mem st1 a" if "a \<in> kheap_reserved st1" for a
    using that kh.live_region [OF k(1), of p 4096] kh.live_region [OF k(1), of dir 4096] live k(2,4)
    by (intro outside) auto
  note put = kh.put_ok [OF k(1) res]
  have dj: "region dir 4096 \<inter> region q n = {} \<and> unat q mod 4096 = 0 \<and> 0 < n \<and> (q, n) \<in> kheap_live st"
    if "(q, n) \<in> L" for q n using inv that by (simp add: chunk_inv_def)
  show "mem st2 a = mem st a" if "(q, n) \<in> L" "a \<in> region q n" for q n a
  proof -
    have "mem st2 a = ?m2 a" by (simp add: st2)
    also have "\<dots> = mem st1 a" using dj [OF that(1)] k(7) [of q n] that(2) by (intro outside) auto
    finally show ?thesis using dj [OF that(1)] k(9) [of q n a] that(2) by simp
  qed
  show "kheap_avail st = Suc (kheap_avail st2)" using put k(3) st2 by simp
  have pages: "chunk_pages ?m2 dir (Suc i) = insert (p, 4096) (chunk_pages (mem st) dir i)"
    using i tab by (auto simp: chunk_pages_def lessThan_Suc image_iff)
  have ents: "read32 ?m2 (table_of ?m2 dir l + 4 * of_nat j) =
      (of_nat l * 4194304 + of_nat j * 4096) OR flags" if "l < Suc i" "j < 1024" for l j
  proof (cases "l = i")
    case True
    have "read32 ?m2 (p + 4 * of_nat j) = read32 ?m1 (p + 4 * of_nat j)"
      using pages_disjoint [OF dir k(6)] p_dir page_entry_region [OF k(6) that(2)] page_entry_region [OF dir i]
      by (intro read32_write32_disjoint) blast
    then show ?thesis using True tab [OF i] fill_table_read [OF k(6), of 0 1024 j] that(2) by simp
  next
    case False
    let ?t = "table_of (mem st) dir l"
    have l: "l < i" "l < 1024" using that(1) False i by simp_all
    have "dir \<notin> table_of (mem st) dir ` {..<i}" using inv by (simp add: chunk_inv_def)
    then have "?t \<noteq> dir" using l(1) by (metis image_eqI lessThan_iff)
    moreover have "(?t, 4096) \<in> kheap_live st"
      using inv l by (simp add: chunk_inv_def chunk_pages_def)
    ultimately show ?thesis
      using tab [OF l(2)] False read_out [OF table_of_aligned p_tab [OF l(1)] _ that(2)]
        read_live [OF _ table_of_aligned that(2)] inv l(1) that(2)
      by (simp add: chunk_inv_def)
  qed
  have same: "table_of ?m2 dir l = table_of (mem st) dir l" if "l \<in> {..<i}" for l
    using that i tab [of l] by simp
  have img: "table_of ?m2 dir ` {..<i} = table_of (mem st) dir ` {..<i}"
    by (rule image_cong [OF refl same])
  have inj: "inj_on (table_of ?m2 dir) {..<i} \<longleftrightarrow> inj_on (table_of (mem st) dir) {..<i}"
    by (rule inj_on_cong [OF same])
  have "p \<notin> table_of (mem st) dir ` {..<i}" using p_tab by auto
  then have "inj_on (table_of ?m2 dir) {..<Suc i}" "dir \<notin> table_of ?m2 dir ` {..<Suc i}"
    using inv tab [OF i] p_dir inj img by (auto simp: chunk_inv_def lessThan_Suc)
  moreover have "(p, 4096) \<notin> L" using dj k(7) region_nonempty_disjoint by blast
  ultimately show "chunk_inv L dir flags (Suc i) st2"
    using put k(1,2) inv pages ents dir unfolding st2
    by (simp add: chunk_inv_def insert_commute Un_assoc)
qed

lemma fill_directory_inv:
  assumes "chunk_inv L dir flags i st" "i + n \<le> 1024" "unat flags < 256" "n \<le> kheap_avail st"
    and "st' = fill_directory dir (of_nat i * 4194304) flags i n st"
  shows "chunk_inv L dir flags (i + n) st' \<and> kheap_avail st = kheap_avail st' + n \<and>
    (\<forall>(q, k) \<in> L. \<forall>a \<in> region q k. mem st' a = mem st a)"
  using assms(1,2,4,5)
proof (induction n arbitrary: i st)
  case (Suc n)
  obtain p st1 where z: "kzalloc 4096 st = (p, st1)" by (rule prod.exhaust)
  define st2 where "st2 = st1\<lparr>mem := write32 (fill_table (mem st1) p (of_nat i * 4194304) flags 0 1024)
        (dir + 4 * of_nat i) (p OR flags OR 2)\<rparr>"
  have i: "i < 1024" "0 < kheap_avail st" using Suc.prems(2,3) by simp_all
  note s = fill_directory_step [OF Suc.prems(1) i(1) assms(3) i(2) z st2_def]
  have "st' = fill_directory dir (of_nat (Suc i) * 4194304) flags (Suc i) n st2"
    using Suc.prems(4) z by (simp add: st2_def or.assoc algebra_simps)
  then have "chunk_inv L dir flags (Suc i + n) st' \<and> kheap_avail st2 = kheap_avail st' + n \<and>
      (\<forall>(q, k) \<in> L. \<forall>a \<in> region q k. mem st' a = mem st2 a)"
    using Suc.IH [OF s(1)] Suc.prems(2,3) s(2) by simp
  then show ?case using s(2,3) by fastforce
qed auto

lemma chunk_inv_start:
  assumes "kheap_ok st" "0 < kheap_avail st" "kzalloc 4096 st = (dir, st1)"
  shows "chunk_inv (kheap_live st) dir flags 0 st1"
proof -
  note k = kh.zalloc_keeps [OF assms(1) _ _ assms(2,3), simplified]
  then show ?thesis
    using kh.live_region [OF assms(1)] by (auto simp: chunk_inv_def chunk_pages_def)
qed

text \<open>Everything that \<open>paging_new_chunk\<close> establishes.\<close>

definition chunk_owned :: "memory \<Rightarrow> addr \<Rightarrow> (addr \<times> nat) set" where
  "chunk_owned m page = {(page, 4096), (read32 m page, 4096)} \<union> chunk_pages m (read32 m page) 1024"

lemma paging_new_chunk_spec:
  assumes "kheap_ok st" "1026 \<le> kheap_avail st" "paging_new_chunk flags st = (page, st')"
  shows "kheap_ok st'" "kheap_avail st = kheap_avail st' + 1026" "page_ok (mem st') page"
    "kheap_live st' = kheap_live st \<union> chunk_owned (mem st') page"
    "kheap_live st \<inter> chunk_owned (mem st') page = {}" "page \<noteq> read32 (mem st') page"
    "\<And>v. get_page (mem st') (read32 (mem st') page) v = (v - v mod 4096) OR ucast flags"
    "\<And>q k a. (q, k) \<in> kheap_live st \<Longrightarrow> a \<in> region q k \<Longrightarrow> mem st' a = mem st a"
proof -
  obtain dir st1 where z: "kzalloc 4096 st = (dir, st1)" by (rule prod.exhaust)
  define st2 where "st2 = fill_directory dir (of_nat 0 * 4194304) (ucast flags) 0 1024 st1"
  obtain pg st3 where z3: "kzalloc 4 st2 = (pg, st3)" by (rule prod.exhaust)
  have pos: "0 < kheap_avail st" using assms(2) by simp
  note k1 = kh.zalloc_keeps [OF assms(1) _ _ pos z, simplified]
  have f: "unat (ucast flags :: u32) < 256"
    using unsigned_less [of flags, where ?'a = nat]
    by (simp add: unsigned_ucast_eq take_bit_eq_mod)
  have "1024 \<le> kheap_avail st1" using k1(3) assms(2) by simp
  note i = fill_directory_inv [OF chunk_inv_start [OF assms(1) pos z] _ f this st2_def]
  have inv: "chunk_inv (kheap_live st) dir (ucast flags) 1024 st2"
    and av2: "kheap_avail st1 = kheap_avail st2 + 1024"
    and fr2: "\<And>q k a. (q, k) \<in> kheap_live st \<Longrightarrow> a \<in> region q k \<Longrightarrow> mem st2 a = mem st1 a"
    using i by auto
  have ok2: "kheap_ok st2" "0 < kheap_avail st2" using inv av2 k1(3) assms(2) by (simp_all add: chunk_inv_def)
  note k3 = kh.zalloc_keeps [OF ok2(1) _ _ ok2(2) z3, simplified]
  have eq: "page = pg" "st' = st3\<lparr>mem := write32 (mem st3) pg dir\<rparr>"
    using assms(3) z z3 by (auto simp: paging_new_chunk_def st2_def)
  have pg: "region pg 4 \<subseteq> region pg 4096" by (rule region_mono) simp
  have "(pg, 4096) \<in> kheap_live st3" using k3(2) by simp
  note w = kh.write32_live [OF k3(1) this pg, of dir]
  have keep: "mem st' a = mem st2 a" if "(q, k) \<in> kheap_live st2" "a \<in> region q k" for q k a
  proof -
    have "a \<notin> region pg 4" using k3(7) [OF that(1)] that(2) pg by blast
    then show ?thesis using k3(9) [OF that] unfolding eq by (simp add: write32_outside)
  qed
  show "kheap_ok st'" using w(1) eq by simp
  show "kheap_avail st = kheap_avail st' + 1026" using w(3) eq k3(3) av2 k1(3) by simp
  have dir: "read32 (mem st') page = dir" unfolding eq by simp
  have al: "unat dir mod 4096 = 0" and ld: "(dir, 4096) \<in> kheap_live st2"
    using inv by (simp_all add: chunk_inv_def)
  have rd: "read32 (mem st') (q + 4 * of_nat l) = read32 (mem st2) (q + 4 * of_nat l)"
    if "(q, 4096) \<in> kheap_live st2" "unat q mod 4096 = 0" "l < 1024" for q l
    using page_entry_region [OF that(2,3)] by (intro read32_cong keep [OF that(1)]) auto
  have tab: "table_of (mem st') dir l = table_of (mem st2) dir l" if "l < 1024" for l
    using rd [OF ld al that] by (simp add: table_of_def)
  have tl: "(table_of (mem st2) dir l, 4096) \<in> kheap_live st2" if "l < 1024" for l
    using inv that by (simp add: chunk_inv_def chunk_pages_def)
  have cp: "chunk_pages (mem st') dir 1024 = chunk_pages (mem st2) dir 1024"
    using tab by (auto simp: chunk_pages_def)
  have fresh: "pg \<noteq> q" if "(q, k) \<in> kheap_live st2" for q k
    using k3(7) [OF that] kh.live_region [OF ok2(1) that] region_nonempty_disjoint [of pg 4096 q k] by simp
  show "page_ok (mem st') page"
  proof -
    have img: "table_of (mem st') dir ` {..<1024} = table_of (mem st2) dir ` {..<1024}"
      using tab by (intro image_cong) simp_all
    have inj: "inj_on (table_of (mem st') dir) {..<1024} \<longleftrightarrow> inj_on (table_of (mem st2) dir) {..<1024}"
      using tab by (intro inj_on_cong) simp
    have "table_of (mem st2) dir l \<noteq> pg" if "l < 1024" for l using fresh [OF tl [OF that]] by simp
    then have "pg \<notin> table_of (mem st2) dir ` {..<1024}" unfolding not_in_first by simp
    moreover have "inj_on (table_of (mem st2) dir) {..<1024}" "dir \<notin> table_of (mem st2) dir ` {..<1024}"
      using inv by (simp_all add: chunk_inv_def)
    ultimately show ?thesis
      using k3(6) al unfolding page_ok_def pdir_ok_def eq(1) dir [unfolded eq(1)] img inj by simp
  qed
  show "kheap_live st' = kheap_live st \<union> chunk_owned (mem st') page"
  proof -
    have "kheap_live st2 = kheap_live st \<union> {(dir, 4096)} \<union> chunk_pages (mem st2) dir 1024"
      using inv by (simp add: chunk_inv_def)
    then show ?thesis
      using w(2) k3(2) cp eq unfolding chunk_owned_def dir by simp
  qed
  show "page \<noteq> read32 (mem st') page" using fresh [OF ld] eq(1) dir by simp
  have d: "(dir, 4096) \<notin> kheap_live st"
    using k1(7) [of dir 4096] region_nonempty_disjoint [of dir 4096 dir 4096] by auto
  show "kheap_live st \<inter> chunk_owned (mem st') page = {}"
  proof -
    have L: "kheap_live st \<subseteq> kheap_live st2" "kheap_live st \<inter> chunk_pages (mem st2) dir 1024 = {}"
      using inv by (auto simp: chunk_inv_def)
    then have "(pg, 4096) \<notin> kheap_live st" using fresh by blast
    with L(2) d show ?thesis unfolding chunk_owned_def eq(1) dir [unfolded eq(1)] cp by blast
  qed
  show "mem st' a = mem st a" if "(q, k) \<in> kheap_live st" "a \<in> region q k" for q k a
    using that keep [of q k a] fr2 [OF that] k1(9) [OF that] inv by (simp add: chunk_inv_def)
  show "get_page (mem st') (read32 (mem st') page) v = (v - v mod 4096) OR ucast flags" for v
    using index_bounds [of v] inv rd [OF tl table_of_aligned] tab
    unfolding dir get_page_pte pte_def page_base_split [symmetric] by (simp add: chunk_inv_def)
qed

section \<open>Freeing a chunk\<close>

text \<open>
  \<open>kfree\<close> changes the heap's table only, so the directory is still readable while its
  tables are being released.
\<close>

lemma live_read32:
  assumes "kheap_ok st" "(q, 4096) \<in> kheap_live st" "k < 1024"
    and "\<And>a. a \<notin> kheap_reserved st \<Longrightarrow> m a = mem st a"
  shows "read32 m (q + 4 * of_nat k) = read32 (mem st) (q + 4 * of_nat k)"
proof (rule read32_cong, rule assms(4))
  fix b
  assume b: "b \<in> region (q + 4 * of_nat k) 4"
  note l = kh.live_region [OF assms(1,2)]
  have "unat q mod 4096 = 0" using l by simp
  from page_entry_region [OF this assms(3)] b l show "b \<notin> kheap_reserved st" by blast
qed

definition owns :: "'a mstate_scheme \<Rightarrow> addr \<Rightarrow> addr \<Rightarrow> nat \<Rightarrow> nat \<Rightarrow> bool" where
  "owns st page dir i n \<longleftrightarrow> kheap_ok st \<and> read32 (mem st) page = dir \<and>
     (page, 4096) \<in> kheap_live st \<and> (dir, 4096) \<in> kheap_live st \<and>
     inj_on (table_of (mem st) dir) {i..<i + n} \<and>
     (\<forall>k \<in> {i..<i + n}. (table_of (mem st) dir k, 4096) \<in> kheap_live st \<and>
        table_of (mem st) dir k \<noteq> page \<and> table_of (mem st) dir k \<noteq> dir)"

lemma free_tables_live:
  assumes "owns st page dir i n" "i + n \<le> 1024" "st' = free_tables page i n st"
  shows "kheap_ok st' \<and> kheap_reserved st' = kheap_reserved st \<and>
    kheap_live st' = kheap_live st - (\<lambda>k. (table_of (mem st) dir k, 4096)) ` {i..<i + n} \<and>
    (\<forall>a. a \<notin> kheap_reserved st \<longrightarrow> mem st' a = mem st a)"
  using assms
proof (induction n arbitrary: i st)
  case 0
  then show ?case by (simp add: owns_def)
next
  case (Suc n)
  let ?T = "\<lambda>k. table_of (mem st) dir k"
  have ok: "kheap_ok st" and pl: "(page, 4096) \<in> kheap_live st" "(dir, 4096) \<in> kheap_live st"
    and tl: "(?T i, 4096) \<in> kheap_live st" and rd: "read32 (mem st) page = dir"
    using Suc.prems(1) by (simp_all add: owns_def)
  obtain m where m: "kfree (?T i) st = st\<lparr>mem := m\<rparr>" "kheap_ok (st\<lparr>mem := m\<rparr>)"
    "kheap_live (st\<lparr>mem := m\<rparr>) = kheap_live st - {(?T i, 4096)}"
    "\<And>a. a \<notin> kheap_reserved st \<Longrightarrow> m a = mem st a"
    using kh.release_live [OF ok tl] by blast
  have tab: "table_of m dir k = ?T k" if "k < 1024" for k
    using live_read32 [OF ok pl(2) that, of m] m(4) by (simp add: table_of_def)
  have pg: "read32 m page = dir"
    using live_read32 [OF ok pl(1), of 0 m] m(4) rd by simp
  have inj: "inj_on ?T {i..<i + Suc n}" using Suc.prems(1) by (simp add: owns_def)
  have "?T k \<noteq> ?T i" if "k \<in> {Suc i..<Suc i + n}" for k
    using inj_onD [OF inj, of k i] that by auto
  moreover have "inj_on (table_of m dir) {Suc i..<Suc i + n}"
    using Suc.prems tab by (auto simp: owns_def inj_on_def)
  moreover have tk: "(?T k, 4096) \<in> kheap_live st \<and> ?T k \<noteq> page \<and> ?T k \<noteq> dir"
    if "i \<le> k" "k < i + Suc n" for k using Suc.prems(1) that by (simp add: owns_def)
  moreover have "page \<noteq> ?T i" "dir \<noteq> ?T i" using tk [of i] by auto
  ultimately have owns: "owns (st\<lparr>mem := m\<rparr>) page dir (Suc i) n"
    using m(2,3) tab pg pl Suc.prems(2) by (simp add: owns_def)
  have st': "st' = free_tables page (Suc i) n (st\<lparr>mem := m\<rparr>)"
    using Suc.prems(3) m(1) rd by (simp add: table_of_def)
  have "(\<lambda>k. (table_of m dir k, 4096)) ` {Suc i..<Suc i + n} = (\<lambda>k. (?T k, 4096)) ` {Suc i..<Suc i + n}"
    using Suc.prems(2) tab by (intro image_cong) auto
  moreover have "{i..<i + Suc n} = insert i {Suc i..<Suc i + n}" by auto
  ultimately show ?case
    using Suc.IH [OF owns _ st'] Suc.prems(2) m(3,4) by auto
qed

lemma free_page_live:
  assumes "owns st page dir 0 1024" "page \<noteq> dir"
  shows "kheap_ok (free_page page st)"
    "kheap_live (free_page page st) = kheap_live st - chunk_owned (mem st) page"
    "\<And>a. a \<notin> kheap_reserved st \<Longrightarrow> mem (free_page page st) a = mem st a"
proof -
  let ?st1 = "free_tables page 0 1024 st"
  have o: "kheap_ok st" "(page, 4096) \<in> kheap_live st" "(dir, 4096) \<in> kheap_live st"
    "read32 (mem st) page = dir"
    "\<And>k. k < 1024 \<Longrightarrow> table_of (mem st) dir k \<noteq> page \<and> table_of (mem st) dir k \<noteq> dir"
    using assms(1) by (simp_all add: owns_def)
  have f: "kheap_ok ?st1" "kheap_reserved ?st1 = kheap_reserved st"
    "kheap_live ?st1 = kheap_live st - chunk_pages (mem st) dir 1024"
    "\<And>a. a \<notin> kheap_reserved st \<Longrightarrow> mem ?st1 a = mem st a"
    using free_tables_live [OF assms(1) _ refl] by (simp_all add: chunk_pages_def lessThan_atLeast0)
  have rd: "read32 (mem ?st1) page = dir"
    using live_read32 [OF o(1,2), of 0 "mem ?st1"] f(4) o(4) by simp
  have "(dir, 4096) \<in> kheap_live ?st1" using f(3) o(3,5) by (auto simp: chunk_pages_def)
  then obtain m where m: "kfree dir ?st1 = ?st1\<lparr>mem := m\<rparr>" "kheap_ok (?st1\<lparr>mem := m\<rparr>)"
    "kheap_live (?st1\<lparr>mem := m\<rparr>) = kheap_live ?st1 - {(dir, 4096)}"
    "\<And>a. a \<notin> kheap_reserved st \<Longrightarrow> m a = mem ?st1 a"
    using kh.release_live [OF f(1)] unfolding f(2) by blast
  have "(page, 4096) \<in> kheap_live (?st1\<lparr>mem := m\<rparr>)"
    using m(3) f(3) o(2,5) assms(2) by (auto simp: chunk_pages_def)
  then obtain m' where m': "kfree page (?st1\<lparr>mem := m\<rparr>) = ?st1\<lparr>mem := m'\<rparr>"
    "kheap_ok (?st1\<lparr>mem := m'\<rparr>)"
    "kheap_live (?st1\<lparr>mem := m'\<rparr>) = kheap_live (?st1\<lparr>mem := m\<rparr>) - {(page, 4096)}"
    "\<And>a. a \<notin> kheap_reserved st \<Longrightarrow> m' a = m a"
    using kh.release_live [OF m(2)] f(2) by force
  have st': "free_page page st = ?st1\<lparr>mem := m'\<rparr>"
    using rd m(1) m'(1) by (simp add: free_page_def Let_def)
  show "kheap_ok (free_page page st)" using st' m'(2) by simp
  show "kheap_live (free_page page st) = kheap_live st - chunk_owned (mem st) page"
    using st' m'(3) m(3) f(3) o(4) by (auto simp: chunk_owned_def)
  show "mem (free_page page st) a = mem st a" if "a \<notin> kheap_reserved st" for a
    using that st' m'(4) m(4) f(4) by simp
qed

lemma chunk_owns:
  assumes "kheap_ok st" "1026 \<le> kheap_avail st" "paging_new_chunk flags st = (page, st')"
  shows "owns st' page (read32 (mem st') page) 0 1024"
  using paging_new_chunk_spec(1,3,4) [OF assms]
  by (simp add: owns_def page_ok_def pdir_ok_def not_in_first chunk_owned_def chunk_pages_def
      flip: lessThan_atLeast0)

section \<open>Properties\<close>

lemma page_base_unat:
  fixes v :: addr
  shows "unat (v - v mod 4096) = 4096 * (unat v div 4096)"
proof -
  have "unat (v - v mod 4096) = unat v - unat v mod 4096"
    by (subst unat_diff_le) (simp_all add: word_le_nat_alt unat_mod)
  then show ?thesis using minus_mod_eq_mult_div [of "unat v" 4096] by simp
qed

lemma page_base_eq:
  fixes v w :: addr
  assumes "unat v mod 4096 = 0"
  shows "w - w mod 4096 = v \<longleftrightarrow> unat v div 4096 = unat w div 4096"
  using page_base_unat [of w] page_multiple [OF assms] by (auto simp: word_unat_eq_iff)

lemma get_page_base: "get_page m dir (v - v mod 4096) = get_page m dir v"
proof -
  have "unat (v - v mod 4096) div 4096 = unat v div 4096" by (simp add: page_base_unat)
  then show ?thesis
    using same_page_index [of "v - v mod 4096" v] by (simp add: get_page_pte pte_def)
qed

lemma physical_address_eq:
  "paging_get_physical_address m page v = (get_page m (read32 m page) v AND 0xfffff000) + v mod 4096"
proof -
  have "NOT 0xFFF = (0xfffff000 :: u32)" by simp
  then show ?thesis unfolding paging_get_physical_address_def Let_def get_page_base by (simp only:)
qed

text \<open>An address of a mapped page is translated by the distance from the start of the range.\<close>

lemma page_offset_add:
  fixes v :: addr
  assumes "unat v mod 4096 = 0" "k < 4294967296"
  shows "(v + of_nat k) mod 4096 = of_nat (k mod 4096)"
proof -
  have "unat (v + of_nat k) mod 4096 = (unat v + k) mod 4096"
    using assms(2) by (simp add: unat_word_ariths mod_mod_cancel)
  also have "\<dots> = k mod 4096" using assms(1) mod_add_left_eq [of "unat v" 4096 k] by simp
  finally show ?thesis
    using assms(2) order.strict_trans1 [OF mod_less_eq_dividend assms(2)]
    by (subst word_unat_eq_iff) (simp add: unat_mod)
qed

lemma page_base_add:
  fixes p :: addr
  assumes "unat p mod 4096 = 0"
  shows "unat (p + of_nat (4096 * n)) mod 4096 = 0"
  using assms mod_add_right_eq [of "unat p" "4096 * n" 4096]
  by (simp add: unat_word_ariths unat_of_nat mod_mod_cancel mod_simps)

lemma mapped_page_translates:
  assumes "unat v mod 4096 = 0" "unat p mod 4096 = 0" "unat f < 4096" "k < 4294967296"
    and "get_page m (read32 m page) (v + of_nat k) = (p + of_nat (4096 * (k div 4096))) OR f"
  shows "paging_get_physical_address m page (v + of_nat k) = p + of_nat k"
proof -
  have "p + of_nat (4096 * (k div 4096)) + of_nat (k mod 4096) = p + of_nat k"
    unfolding add.assoc of_nat_add [symmetric] mult_div_mod_eq ..
  then show ?thesis
    unfolding physical_address_eq assms(5) page_offset_add [OF assms(1,4)]
      page_mask_low [OF page_base_add [OF assms(2)] assms(3)] .
qed

lemma identity_physical_address:
  assumes "get_page m (read32 m page) v = (v - v mod 4096) OR f" "unat f < 4096"
  shows "paging_get_physical_address m page v = v"
proof -
  have "unat (v - v mod 4096) mod 4096 = 0" using page_mask_unat [of v] unfolding page_mask_eq .
  then show ?thesis unfolding physical_address_eq assms(1) using page_mask_low [OF _ assms(2)] by simp
qed

lemma flags_below_page: "unat (ucast (flags :: u8) :: u32) < 4096"
  using unsigned_less [of flags, where ?'a = nat] by (simp add: unsigned_ucast_eq take_bit_eq_mod)

lemma map_page_range_translate:
  assumes "page_ok m page" "unat v mod 4096 = 0" "unat p mod 4096 = 0" "0 \<le> sz" "sz < 2147479552"
    and "map_page_range m page v p sz flags = (res, m')" "0 \<le> flags" "flags < 4096"
    and "int k div 4096 \<le> sz div 4096"
  shows "paging_get_physical_address m' page (v + of_nat k) = p + of_nat k"
proof -
  have k: "k < 4294967296" using assms(4,5,9) by linarith
  have f: "unat (of_int flags :: u32) < 4096"
  proof -
    have "of_int flags = (of_nat (nat flags) :: u32)" using assms(7) by simp
    moreover have "nat flags < 4096" using assms(8) by simp
    ultimately show ?thesis by (simp only: unat_of_nat_small)
  qed
  have r: "read32 m' page = read32 m page" using map_page_range_spec(2) [OF assms(1-6)] by (rule remapsD)
  have "get_page m' (read32 m' page) (v + of_nat k) = (p + of_nat (4096 * (k div 4096))) OR of_int flags"
    using map_page_range_spec(3) [OF assms(1-6), of "v + of_nat k"] assms(9) k unfolding r
    by (simp add: zdiv_int)
  then show ?thesis by (rule mapped_page_translates [OF assms(2,3) f k])
qed

text \<open>
  C3: the address space of a new chunk.  When at least 1026 blocks are free,
  \<^verbatim>\<open>paging_new_chunk\<close> builds a well-formed directory (1024 tables, all different pages) in
  which every virtual address is mapped to itself with the given flags and
  \<^verbatim>\<open>paging_get_physical_address\<close> is the identity; it takes exactly 1026 blocks, the heap stays
  well-formed, and no byte of an earlier allocation changes.
\<close>

theorem paging_new_chunk_identity:
  assumes "kheap_ok st" "1026 \<le> kheap_avail st" "paging_new_chunk flags st = (page, st')"
  shows "kheap_ok st' \<and> kheap_avail st = kheap_avail st' + 1026 \<and> page_ok (mem st') page \<and>
    (\<forall>v. get_page (mem st') (paging_get_directory (mem st') page) v = (v - v mod 4096) OR ucast flags) \<and>
    (\<forall>v. paging_get_physical_address (mem st') page v = v) \<and>
    (\<forall>(q, k) \<in> kheap_live st. \<forall>a \<in> region q k. mem st' a = mem st a)"
proof -
  note c = paging_new_chunk_spec [OF assms]
  have "paging_get_physical_address (mem st') page v = v" for v by (rule identity_physical_address [OF c(7) flags_below_page])
  moreover have "\<forall>(q, k) \<in> kheap_live st. \<forall>a \<in> region q k. mem st' a = mem st a"
    using c(8) by blast
  ultimately show ?thesis using c(1-3,7) by (simp add: paging_get_directory_def)
qed

theorem paging_new_chunk_identity_witness:
  "\<exists>page st'. paging_new_chunk 7 (kheap_init \<lparr>mem = \<lambda>_. 0, kernel_heap = heap_ex, console = []\<rparr>) =
      (page, st') \<and> paging_get_physical_address (mem st') page 0xB8001 = 0xB8001"
proof -
  let ?st = "kheap_init \<lparr>mem = \<lambda>_. 0, kernel_heap = heap_ex, console = []\<rparr>"
  obtain page st' where c: "paging_new_chunk 7 ?st = (page, st')" by (rule prod.exhaust)
  have "1026 \<le> kheap_avail ?st" by (simp add: kheap_init_ok)
  from paging_new_chunk_identity [OF kheap_init_ok(1) this c]
  have "\<forall>v. paging_get_physical_address (mem st') page v = v" by blast
  with c show ?thesis by blast
qed

lemma page_ok_ex: "\<exists>m page. page_ok m page"
proof -
  let ?st = "kheap_init \<lparr>mem = \<lambda>_. 0, kernel_heap = heap_ex, console = []\<rparr>"
  obtain page st' where c: "paging_new_chunk 7 ?st = (page, st')" by (rule prod.exhaust)
  have "1026 \<le> kheap_avail ?st" by (simp add: kheap_init_ok)
  from paging_new_chunk_spec(3) [OF kheap_init_ok(1) this c] show ?thesis by blast
qed

text \<open>
  C33: release of an address space.  \<^verbatim>\<open>free_page\<close> on a chunk that \<^verbatim>\<open>paging_new_chunk\<close> made
  gives back all of its 1026 blocks and nothing else: the set of allocations is again what
  it was before, and the bytes of the other allocations are unchanged.
\<close>

theorem free_page_new_chunk:
  assumes "kheap_ok st" "1026 \<le> kheap_avail st" "paging_new_chunk flags st = (page, st')"
  shows "kheap_ok (free_page page st') \<and> kheap_live (free_page page st') = kheap_live st \<and>
    (\<forall>(q, k) \<in> kheap_live st. \<forall>a \<in> region q k. mem (free_page page st') a = mem st a)"
proof -
  note c = paging_new_chunk_spec [OF assms]
  note f = free_page_live [OF chunk_owns [OF assms] c(6)]
  have "mem (free_page page st') a = mem st a" if "(q, k) \<in> kheap_live st" "a \<in> region q k" for q k a
  proof -
    have "(q, k) \<in> kheap_live st'" using that(1) c(4) by simp
    then have "a \<notin> kheap_reserved st'" using kh.live_region [OF c(1)] that(2) by blast
    then show ?thesis using f(3) c(8) [OF that] by simp
  qed
  moreover have "kheap_live (free_page page st') = kheap_live st" using f(2) c(4,5) by blast
  ultimately show ?thesis using f(1) by blast
qed

theorem free_page_new_chunk_witness:
  "\<exists>page st'. paging_new_chunk 7 (kheap_init \<lparr>mem = \<lambda>_. 0, kernel_heap = heap_ex, console = []\<rparr>) =
      (page, st') \<and> kheap_live (free_page page st') = {}"
proof -
  let ?st = "kheap_init \<lparr>mem = \<lambda>_. 0, kernel_heap = heap_ex, console = []\<rparr>"
  obtain page st' where c: "paging_new_chunk 7 ?st = (page, st')" by (rule prod.exhaust)
  have "1026 \<le> kheap_avail ?st" by (simp add: kheap_init_ok)
  from free_page_new_chunk [OF kheap_init_ok(1) this c]
  have "kheap_live (free_page page st') = {}" by (simp add: kheap_init_ok)
  with c show ?thesis by blast
qed

text \<open>
  C16: mapping a range.  On a well-formed directory and page-aligned addresses
  \<^verbatim>\<open>map_page_range\<close> succeeds and maps, page by page, \<open>sz div 4096 + 1\<close> pages from \<open>v\<close> on to
  the pages from \<open>p\<close> on, with the given flags; the entry of every other virtual address is
  unchanged and the directory stays well-formed.  (For a size that is a multiple of the page
  size this is one page more than the size needs.)
\<close>

theorem map_page_range_maps:
  assumes "page_ok m page" "unat v mod 4096 = 0" "unat p mod 4096 = 0" "0 \<le> sz" "sz < 2147479552"
    and "map_page_range m page v p sz flags = (res, m')"
  shows "res = 0 \<and> page_ok m' page \<and> read32 m' page = read32 m page \<and>
    get_page m' (read32 m page) w =
      (if int (unat (w - v) div 4096) < sz div 4096 + 1
       then (p + of_nat (4096 * (unat (w - v) div 4096))) OR of_int flags
       else get_page m (read32 m page) w)"
  using map_page_range_spec(1,2) [OF assms] map_page_range_spec(3) [OF assms, of w] by (simp add: remaps_def)

theorem map_page_range_maps_witness:
  "\<exists>m page m'. page_ok m page \<and> map_page_range m page 0x400000 0x800000 4096 7 = (0, m') \<and>
     get_page m' (read32 m' page) 0x401123 = 0x801007"
proof -
  obtain m page where ok: "page_ok m page" using page_ok_ex by blast
  obtain res m' where m': "map_page_range m page 0x400000 0x800000 4096 7 = (res, m')"
    by (rule prod.exhaust)
  have "res = 0 \<and> get_page m' (read32 m' page) 0x401123 = 0x801007"
    using map_page_range_maps [OF ok _ _ _ _ m', of "0x401123"] by simp
  with ok m' show ?thesis by blast
qed

text \<open>
  C37: the arguments that \<^verbatim>\<open>map_page\<close> and \<^verbatim>\<open>set_page\<close> reject.  An address that is not
  page-aligned gives \<open>-EINARG\<close> and leaves the memory as it was; otherwise the call succeeds,
  \<^verbatim>\<open>get_page\<close> returns what was stored for every address of that page and is unchanged for
  every other address.
\<close>

theorem map_page_get_page:
  assumes "page_ok m page" "map_page m page v p flags = (res, m')"
  shows "if unat v mod 4096 = 0 \<and> unat p mod 4096 = 0
    then res = 0 \<and> page_ok m' page \<and>
      get_page m' (read32 m' page) w =
        (if w - w mod 4096 = v then p OR of_int flags else get_page m (read32 m page) w)
    else res = - EINARG \<and> m' = m"
proof -
  have ok: "pdir_ok m (read32 m page)" using assms(1) by (simp add: page_ok_def)
  show ?thesis
    using assms(2) write_pte_page_ok [OF assms(1)] write_pte_get_page [OF ok]
    by (auto simp: map_page_pte page_base_eq)
qed

theorem map_page_get_page_witness:
  "\<exists>m page m'. page_ok m page \<and> map_page m page 0x400000 0x800000 7 = (0, m') \<and>
     get_page m' (read32 m' page) 0x400123 = 0x800007"
proof -
  obtain m page where ok: "page_ok m page" using page_ok_ex by blast
  obtain res m' where m': "map_page m page 0x400000 0x800000 7 = (res, m')" by (rule prod.exhaust)
  have "res = 0 \<and> get_page m' (read32 m' page) 0x400123 = 0x800007"
    using map_page_get_page [OF ok m', of "0x400123"] by simp
  with ok m' show ?thesis by blast
qed

end
