(* ===== verification/Zhios_Path.thy ===== *)
theory Zhios_Path
  imports Zhios_Paging
begin

text \<open>
  Path parsing, \<^verbatim>\<open>src/src/fs/path.c\<close>.  The linked structures \<open>Path\<close> and \<open>RootPath\<close> are
  kept in typed stores, partial maps from the address that \<open>kzalloc\<close> returned to the
  structure's fields; the names are strings in the byte memory.  An operation is a partial
  function of the state: \<open>None\<close> means that it does not return a value (an endless loop, or an
  access to an address that holds no structure).  The main lemma relates the list that
  \<open>create_path\<close> builds to the components of the path, \<open>components\<close>.
\<close>

section \<open>State\<close>

record Path =
  path_name :: addr
  path_next :: addr

record RootPath =
  drive_number :: int
  root :: addr

text \<open>\<open>colon_slash\<close> is the address of the string literal that \<open>path_is_valid_format\<close> compares with.\<close>

record path_state = pstate +
  path_nodes :: "addr \<rightharpoonup> Path"
  root_paths :: "addr \<rightharpoonup> RootPath"
  colon_slash :: addr

section \<open>Operations\<close>

definition path_is_valid_format :: "addr \<Rightarrow> 'a path_state_scheme \<Rightarrow> bool option" where
  "path_is_valid_format path st = do {
     len \<leftarrow> strlen (mem st) path;
     Some (len \<le> ZHIOS_MAX_PATH \<and> 3 \<le> len \<and> is_digit (mem st path) \<and>
       memcmp (mem st) (path + 1) (colon_slash st) 2 = 0) }"

definition path_get_drive_number :: "addr \<Rightarrow> 'a path_state_scheme \<Rightarrow> int" where
  "path_get_drive_number path st = atoi (mem st path)"

definition create_root_path ::
  "addr \<Rightarrow> 'a path_state_scheme \<Rightarrow> addr \<times> 'a path_state_scheme" where
  "create_root_path path st =
     (let (root_path, st1) = kzalloc 8 st;
          r = \<lparr>drive_number = path_get_drive_number path st1, root = 0\<rparr>
      in (root_path, st1\<lparr>root_paths := (root_paths st1)(root_path \<mapsto> r)\<rparr>))"

partial_function (option) path_depth_loop :: "memory \<Rightarrow> addr \<Rightarrow> nat \<Rightarrow> nat \<Rightarrow> nat option" where
  "path_depth_loop m path i depth =
     (if m (path + of_nat i) \<noteq> 0
      then path_depth_loop m path (Suc i)
             (if 0 < i \<and> m (path + of_nat i) = 0x2F then Suc depth else depth)
      else Some depth)"

definition get_path_depth :: "addr \<Rightarrow> 'a path_state_scheme \<Rightarrow> nat option" where
  "get_path_depth path st = path_depth_loop (mem st) path 0 1"

definition get_subpath ::
  "addr \<Rightarrow> int \<Rightarrow> int \<Rightarrow> 'a path_state_scheme \<Rightarrow> addr \<times> 'a path_state_scheme" where
  "get_subpath path start end_ind st =
     (let (subpath, st1) = kzalloc ZHIOS_MAX_PATH st
      in (subpath, st1\<lparr>mem := memcpy (mem st1) (path + of_int start) subpath ((end_ind - start) + 1)\<rparr>))"

text \<open>The array of nodes that \<open>kzalloc\<close> returns, all fields zero.\<close>

definition zero_nodes :: "addr \<Rightarrow> nat \<Rightarrow> (addr \<rightharpoonup> Path) \<Rightarrow> (addr \<rightharpoonup> Path)" where
  "zero_nodes paths depth nodes =
     fold (\<lambda>k ns. ns(paths + 8 * of_nat k \<mapsto> \<lparr>path_name = 0, path_next = 0\<rparr>)) [0..<depth] nodes"

definition upd_node ::
  "(Path \<Rightarrow> Path) \<Rightarrow> addr \<Rightarrow> 'a path_state_scheme \<Rightarrow> 'a path_state_scheme option" where
  "upd_node f a st = do {
     n \<leftarrow> path_nodes st a;
     Some (st\<lparr>path_nodes := (path_nodes st)(a \<mapsto> f n)\<rparr>) }"

text \<open>The loop re-evaluates \<^verbatim>\<open>strlen(path)\<close> in every round.\<close>

partial_function (option) create_path_loop ::
  "addr \<Rightarrow> addr \<Rightarrow> nat \<Rightarrow> addr \<Rightarrow> addr \<Rightarrow> nat \<Rightarrow> int \<Rightarrow> int \<Rightarrow> 'a path_state_scheme
     \<Rightarrow> (addr \<times> 'a path_state_scheme) option" where
  "create_path_loop path paths i head current count start end_ind st =
     Option.bind (strlen (mem st) path) (\<lambda>len.
       if len < i then Some (head, st)
       else if mem st (path + of_nat i) \<noteq> 0x2F \<and> mem st (path + of_nat i) \<noteq> 0
       then create_path_loop path paths (Suc i) head current count
              (if start = -1 then int i else start) (int i) st
       else if start \<noteq> -1
       then Option.bind (let (sub, st1) = get_subpath path start end_ind st
                         in upd_node (\<lambda>n. n\<lparr>path_name := sub\<rparr>) (paths + 8 * of_nat count) st1) (\<lambda>st2.
            Option.bind (if current \<noteq> 0
                         then upd_node (\<lambda>n. n\<lparr>path_next := paths + 8 * of_nat count\<rparr>) current st2
                         else Some st2) (\<lambda>st3.
              create_path_loop path paths (Suc i)
                (if head = 0 then paths + 8 * of_nat count else head)
                (paths + 8 * of_nat count) (Suc count) (-1) end_ind st3))
       else create_path_loop path paths (Suc i) head current count start end_ind st)"

definition create_path ::
  "addr \<Rightarrow> 'a path_state_scheme \<Rightarrow> (addr \<times> 'a path_state_scheme) option" where
  "create_path path st = do {
     depth \<leftarrow> get_path_depth path st;
     let (paths, st1) = kzalloc (8 * of_nat depth) st;
     let st2 = st1\<lparr>path_nodes := zero_nodes paths depth (path_nodes st1)\<rparr>;
     create_path_loop path paths 0 0 0 0 (-1) (-1) st2 }"

definition parse_path ::
  "addr \<Rightarrow> addr \<Rightarrow> 'a path_state_scheme \<Rightarrow> (addr \<times> 'a path_state_scheme) option" where
  "parse_path path cwd st = do {
     valid \<leftarrow> path_is_valid_format path st;
     if \<not> valid then Some (0, st)
     else (let (root_path, st1) = create_root_path path st
           in do {
             (first_path, st2) \<leftarrow> create_path (path + 2) st1;
             r \<leftarrow> root_paths st2 root_path;
             Some (root_path, st2\<lparr>root_paths := (root_paths st2)(root_path \<mapsto> r\<lparr>root := first_path\<rparr>)\<rparr>)
           }) }"

partial_function (option) free_path_loop ::
  "addr \<Rightarrow> 'a path_state_scheme \<Rightarrow> 'a path_state_scheme option" where
  "free_path_loop path st =
     (if path = 0 then Some st
      else Option.bind (path_nodes st path) (\<lambda>n.
        free_path_loop (path_next n) (kfree path (kfree (path_name n) (kfree path st)))))"

definition free_path :: "addr \<Rightarrow> 'a path_state_scheme \<Rightarrow> 'a path_state_scheme option" where
  "free_path root_path st = do {
     r \<leftarrow> root_paths st root_path;
     st1 \<leftarrow> free_path_loop (root r) st;
     Some (kfree root_path st1) }"

section \<open>The components of a path\<close>

definition components :: "u8 list \<Rightarrow> u8 list list" where
  "components s = filter (\<lambda>w. w \<noteq> []) (split_on 0x2F s)"

text \<open>\<open>parts w s\<close> are the components that remain when the characters \<open>w\<close> of one are already read.\<close>

fun parts :: "u8 list \<Rightarrow> u8 list \<Rightarrow> u8 list list" where
  "parts w [] = (if w = [] then [] else [w])"
| "parts w (c # s) =
     (if c = 0x2F then (if w = [] then parts [] s else w # parts [] s) else parts (w @ [c]) s)"

lemma parts_split_on: "parts w s = filter (\<lambda>w. w \<noteq> []) ((w @ hd (split_on 0x2F s)) # tl (split_on 0x2F s))"
proof (induction s arbitrary: w)
  case (Cons c s)
  obtain t ts where "split_on 0x2F s = t # ts" by (cases "split_on 0x2F s") auto
  then show ?case using Cons by auto
qed simp

lemma parts_components: "parts [] s = components s"
proof -
  obtain t ts where "split_on 0x2F s = t # ts" by (cases "split_on 0x2F s") auto
  then show ?thesis by (simp add: parts_split_on components_def)
qed

lemma path_depth_loop_cstr:
  assumes "cstr m (p + of_nat i) s" "0 < i"
  shows "path_depth_loop m p i d = Some (d + count_list s 0x2F)"
  using assms
proof (induction s arbitrary: i d)
  case Nil
  then show ?case by (simp add: path_depth_loop.simps)
next
  case (Cons c s)
  have "cstr m (p + of_nat (Suc i)) s" using Cons.prems(1) by (simp add: algebra_simps)
  then show ?case using Cons by (subst path_depth_loop.simps) simp
qed

lemma path_depth_cstr:
  assumes "cstr m p s"
  shows "path_depth_loop m p 0 1 = Some (Suc (count_list (tl s) 0x2F))"
proof (cases s)
  case (Cons c t)
  then have "cstr m (p + of_nat 1) t" using assms by simp
  then show ?thesis
    using path_depth_loop_cstr [of m p 1 t 1] assms Cons by (subst path_depth_loop.simps) simp
qed (use assms in \<open>simp add: path_depth_loop.simps\<close>)

lemma components_depth: "length (components s) \<le> Suc (count_list (tl s) 0x2F)"
proof (cases s)
  case (Cons c t)
  have "length (components s) \<le> length (filter (\<lambda>w. w \<noteq> []) (split_on 0x2F s))"
    by (simp add: components_def)
  also have "\<dots> \<le> Suc (count_list t 0x2F)"
  proof (cases "c = 0x2F")
    case True
    then show ?thesis
      using Cons length_filter_le [of "\<lambda>w. w \<noteq> []" "split_on 0x2F t"] by (simp add: length_split_on)
  next
    case False
    then show ?thesis
      using Cons length_filter_le [of "\<lambda>w. w \<noteq> []" "split_on 0x2F s"] by (simp only: length_split_on) simp
  qed
  finally show ?thesis using Cons by simp
qed (simp add: components_def)

section \<open>The list that create\_path builds\<close>

lemma kheap_path_upd [simp]:
  "kheap_ok (st\<lparr>path_nodes := x\<rparr>) = kheap_ok st" "kheap_live (st\<lparr>path_nodes := x\<rparr>) = kheap_live st"
  "kheap_avail (st\<lparr>path_nodes := x\<rparr>) = kheap_avail st"
  "kheap_ok (st\<lparr>root_paths := y\<rparr>) = kheap_ok st" "kheap_live (st\<lparr>root_paths := y\<rparr>) = kheap_live st"
  "kheap_avail (st\<lparr>root_paths := y\<rparr>) = kheap_avail st"
  by (simp_all add: kheap_defs)

text \<open>
  A string in an allocated region, which no allocation touches.  \<open>keeps st st'\<close> says that parsing
  only allocates and adds nodes.
\<close>

definition string_in :: "addr \<Rightarrow> u8 list \<Rightarrow> 'a mstate_scheme \<Rightarrow> bool" where
  "string_in p s st \<longleftrightarrow> cstr (mem st) p s \<and>
     (\<exists>q k. (q, k) \<in> kheap_live st \<and> region p (Suc (length s)) \<subseteq> region q k)"

lemma string_kept:
  assumes "heap_keeps X st st'" "string_in q s st" "kheap_ok st" "X \<inter> kheap_arena st = {}"
  shows "string_in q s st'"
proof -
  obtain q' k where k: "(q', k) \<in> kheap_live st" "region q (Suc (length s)) \<subseteq> region q' k" and c: "cstr (mem st) q s"
    using assms(2) by (auto simp: string_in_def)
  have "mem st' x = mem st x" if "x \<in> region q (Suc (length s))" for x
  proof -
    have x: "x \<in> region q' k" by (rule subsetD [OF k(2) that])
    then have "x \<in> kheap_arena st" by (rule subsetD [OF kheap_live_arena [OF assms(3) k(1)]])
    then have "x \<notin> X" using assms(4) by (auto simp: disjoint_iff)
    then show ?thesis by (rule heap_keepsD(4) [OF assms(1) k(1) x])
  qed
  from cstr_cong [OF c this] show ?thesis using k heap_keepsD(3) [OF assms(1)] by (auto simp: string_in_def)
qed

definition keeps :: "'a path_state_scheme \<Rightarrow> 'a path_state_scheme \<Rightarrow> bool" where
  "keeps st st' \<longleftrightarrow> heap_keeps {} st st' \<and> (\<exists>m n. st' = st\<lparr>mem := m, path_nodes := n\<rparr>)"

lemma keepsI: "heap_keeps {} st st' \<Longrightarrow> st' = st\<lparr>mem := m, path_nodes := n\<rparr> \<Longrightarrow> keeps st st'"
  by (auto simp: keeps_def)

lemma keepsD:
  assumes "keeps st st'"
  shows "heap_keeps {} st st'" "\<exists>m n. st' = st\<lparr>mem := m, path_nodes := n\<rparr>" "kheap_live st \<subseteq> kheap_live st'"
    "(q, k) \<in> kheap_live st \<Longrightarrow> a \<in> region q k \<Longrightarrow> mem st' a = mem st a"
  using assms heap_keepsD(3,4) [of "{}" st st'] by (auto simp: keeps_def)

lemma keeps_refl: "kheap_ok st \<Longrightarrow> keeps st st"
  by (rule keepsI [where m = "mem st" and n = "path_nodes st"]) (simp_all add: heap_keeps_refl)

lemma keeps_trans:
  assumes "keeps st st'" "keeps st' st''"
  shows "keeps st st''"
proof -
  obtain m n m' n' where e: "st' = st\<lparr>mem := m, path_nodes := n\<rparr>" "st'' = st'\<lparr>mem := m', path_nodes := n'\<rparr>"
    using keepsD(2) [OF assms(1)] keepsD(2) [OF assms(2)] by blast
  have "heap_keeps {} st st''" using heap_keeps_trans [OF keepsD(1) [OF assms(1)] keepsD(1) [OF assms(2)]] by simp
  moreover have "st'' = st\<lparr>mem := m', path_nodes := n'\<rparr>" using e by simp
  ultimately show ?thesis by (rule keepsI)
qed

lemma keeps_string:
  assumes "keeps st st'" "string_in p s st" "kheap_ok st"
  shows "string_in p s st'"
  using string_kept [OF keepsD(1) [OF assms(1)] assms(2,3)] by simp

lemma heap_keeps_path_upd [simp]:
  "heap_keeps X st (st'\<lparr>path_nodes := a\<rparr>) = heap_keeps X st st'" "heap_keeps X (st\<lparr>path_nodes := a\<rparr>) st' = heap_keeps X st st'"
  "heap_keeps X st (st'\<lparr>root_paths := b\<rparr>) = heap_keeps X st st'" "heap_keeps X (st\<lparr>root_paths := b\<rparr>) st' = heap_keeps X st st'"
  by (simp_all add: heap_keeps_def kheap_arena_def kheap_reserved_def)

fun path_list :: "'a path_state_scheme \<Rightarrow> addr \<Rightarrow> u8 list list \<Rightarrow> bool" where
  "path_list st r [] \<longleftrightarrow> r = 0"
| "path_list st r (n # ns) \<longleftrightarrow> r \<noteq> 0 \<and>
     (case path_nodes st r of None \<Rightarrow> False
      | Some nd \<Rightarrow> string_in (path_name nd) n st \<and> path_list st (path_next nd) ns)"

abbreviation node_at :: "addr \<Rightarrow> nat \<Rightarrow> addr" where
  "node_at paths k \<equiv> paths + 8 * of_nat k"

definition nodes_inv ::
  "addr \<Rightarrow> nat \<Rightarrow> addr list \<Rightarrow> u8 list list \<Rightarrow> 'a path_state_scheme \<Rightarrow> bool" where
  "nodes_inv paths depth as ns st \<longleftrightarrow> kheap_ok st \<and> length as = length ns \<and>
     (\<forall>k < length ns. cstr (mem st) (as ! k) (ns ! k) \<and> (as ! k, 4096) \<in> kheap_live st \<and>
        length (ns ! k) < 100) \<and>
     (\<forall>k < depth. path_nodes st (node_at paths k) = Some
        (if k < length ns
         then \<lparr>path_name = as ! k,
               path_next = (if Suc k < length ns then node_at paths (Suc k) else 0)\<rparr>
         else \<lparr>path_name = 0, path_next = 0\<rparr>))"

lemma node_at_unat:
  assumes "unat paths mod 4096 = 0" "k < 512"
  shows "unat (node_at paths k) = unat paths + 8 * k"
  using page_fits [OF assms(1)] assms(2) unat_add_small [of paths "8 * k"] by simp

lemma node_at_eq:
  assumes "unat paths mod 4096 = 0" "k < 512" "l < 512"
  shows "node_at paths k = node_at paths l \<longleftrightarrow> k = l"
  using node_at_unat [OF assms(1,2)] node_at_unat [OF assms(1,3)]
  by (auto simp: word_unat_eq_iff)

lemma node_at_0:
  assumes "unat paths mod 4096 = 0" "k < 512" "paths \<noteq> 0"
  shows "node_at paths k \<noteq> 0"
  using node_at_unat [OF assms(1,2)] assms(3) by (auto simp: word_unat_eq_iff)

lemma nodes_inv_string:
  assumes "nodes_inv paths depth as ns st" "k < length ns"
  shows "string_in (as ! k) (ns ! k) st"
proof -
  have n: "cstr (mem st) (as ! k) (ns ! k)" "(as ! k, 4096) \<in> kheap_live st" "length (ns ! k) < 100"
    using assms by (simp_all add: nodes_inv_def)
  moreover have "region (as ! k) (Suc (length (ns ! k))) \<subseteq> region (as ! k) 4096" using n(3) by (intro region_mono) simp
  ultimately show ?thesis by (auto simp: string_in_def)
qed

lemma nodes_inv_path_list:
  assumes "nodes_inv paths depth as ns st" "length ns \<le> depth" "depth \<le> 512"
    and "unat paths mod 4096 = 0" "paths \<noteq> 0" "k \<le> length ns"
  shows "path_list st (if k < length ns then node_at paths k else 0) (drop k ns)"
  using assms(6)
proof (induction "length ns - k" arbitrary: k)
  case 0
  then show ?case by simp
next
  case (Suc n)
  then have k: "k < length ns" by simp
  have "path_list st (if Suc k < length ns then node_at paths (Suc k) else 0) (drop (Suc k) ns)"
    using Suc by (intro Suc.hyps(1)) simp_all
  moreover have "node_at paths k \<noteq> 0" using k assms(2-5) by (intro node_at_0) auto
  moreover have "string_in (as ! k) (ns ! k) st" by (rule nodes_inv_string [OF assms(1) k])
  ultimately show ?case
    using k assms(1,2) by (simp add: nodes_inv_def Cons_nth_drop_Suc [symmetric, of k])
qed

lemma zero_nodes_eq:
  assumes "unat paths mod 4096 = 0" "k < depth" "depth \<le> 512"
  shows "zero_nodes paths depth nodes (node_at paths k) = Some \<lparr>path_name = 0, path_next = 0\<rparr>"
  using assms(2,3)
proof (induction depth)
  case (Suc d)
  have "zero_nodes paths (Suc d) nodes =
      (zero_nodes paths d nodes)(node_at paths d \<mapsto> \<lparr>path_name = 0, path_next = 0\<rparr>)"
    by (simp add: zero_nodes_def)
  then show ?case
    using Suc node_at_eq [OF assms(1), of k d] by (auto simp: less_Suc_eq)
qed simp

lemma get_subpath_spec:
  assumes "kheap_ok st" "0 < kheap_avail st" "string_in p (u @ w @ t) st" "w \<noteq> []" "length w < 100"
    and "get_subpath p (int (length u)) (int (length u + length w) - 1) st = (sub, st')"
  shows "kheap_ok st'" "kheap_avail st = Suc (kheap_avail st')" "cstr (mem st') sub w"
    "(sub, 4096) \<in> kheap_live st'" "keeps st st'" "path_nodes st' = path_nodes st"
proof -
  obtain st1 where z: "kzalloc 100 st = (sub, st1)"
    and st': "st' = st1\<lparr>mem := memcpy (mem st1) (p + of_nat (length u)) sub (int (length w))\<rparr>"
    using assms(6) by (auto simp: get_subpath_def split: prod.splits)
  note k = kh.zalloc_keeps [OF assms(1) _ _ assms(2) z, simplified]
  obtain m where m: "st1 = st\<lparr>mem := m\<rparr>" using k(10) by blast
  obtain q n where q: "(q, n) \<in> kheap_live st" "region p (Suc (length (u @ w @ t))) \<subseteq> region q n"
    and c: "cstr (mem st) p (u @ w @ t)" using assms(3) by (auto simp: string_in_def)
  have len: "length (u @ w @ t) < 4294967296" using c by (rule cstr_length)
  have src: "region (p + of_nat (length u)) (length w) \<subseteq> region q n"
    using region_shift_subset [of "length u" "length w" "Suc (length (u @ w @ t))" p] q(2) len by auto
  have sub100: "region sub (length w) \<subseteq> region sub 4096" "region sub 100 \<subseteq> region sub 4096"
    using assms(5) by (auto intro!: region_mono)
  have dis: "region (p + of_nat (length u)) (length w) \<inter> region sub (length w) = {}"
    using k(7) [OF q(1)] src sub100(1) by blast
  have cp: "mem st' a = (if a \<in> region sub (length w)
      then mem st1 (p + of_nat (length u) + (a - sub)) else mem st1 a)" for a
    using memcpy_disjoint [of "p + of_nat (length u)" "int (length w)" sub "mem st1" a] dis assms(5)
    by (simp add: st')
  have st: "st' = st\<lparr>mem := mem st'\<rparr>" using st' m by simp
  have "heap_keeps {} st st1" by (rule kzalloc_heap_keeps [OF assms(1) _ _ assms(2) z]) simp_all
  then have "heap_keeps {} st (st\<lparr>mem := m\<rparr>)" "(sub, 4096) \<in> kheap_live (st\<lparr>mem := m\<rparr>)" using k(2) m by simp_all
  moreover have "mem st' a = m a" if "a \<notin> region sub 4096" for a using cp [of a] that sub100(1) m by auto
  ultimately have put: "heap_keeps {} st st'" "kheap_live st' = kheap_live st1" "kheap_avail st' = kheap_avail st1"
    using alloc_filled [of st m sub "mem st'"] k(7) st m by auto
  show "kheap_ok st'" by (rule heap_keepsD(2) [OF put(1)])
  show "kheap_avail st = Suc (kheap_avail st')" "(sub, 4096) \<in> kheap_live st'"
    using put k(2,3) by simp_all
  show "path_nodes st' = path_nodes st" using st' m by simp
  show "keeps st st'" by (rule keepsI [where n = "path_nodes st", OF put(1)]) (use st in simp)
  have "mem st' (sub + of_nat i) = w ! i" if "i < length w" for i
  proof -
    have e: "p + of_nat (length u) + of_nat i = p + of_nat (length u + i)" by simp
    have "p + of_nat (length u + i) \<in> region p (Suc (length (u @ w @ t)))"
      using that len by (intro region_add) auto
    then have "mem st1 (p + of_nat (length u + i)) = mem st (p + of_nat (length u + i))"
      using k(9) [OF q(1)] q(2) by auto
    moreover have "length u + i < length (u @ w @ t)" using that by simp
    then have "mem st (p + of_nat (length u + i)) = (u @ w @ t) ! (length u + i)"
      using c unfolding cstr_iff by blast
    moreover have "sub + of_nat i \<in> region sub (length w)"
      using that assms(5) by (intro region_add) auto
    ultimately show ?thesis using cp [of "sub + of_nat i"] that e by (simp add: nth_append)
  qed
  moreover have "mem st' (sub + of_nat (length w)) = 0"
  proof -
    have "sub + of_nat (length w) \<in> region sub 100" "sub + of_nat (length w) \<notin> region sub (length w)"
      using assms(5) by (simp_all add: region_def)
    then show ?thesis using cp [of "sub + of_nat (length w)"] k(8) by simp
  qed
  moreover have "0 \<notin> set w" using cstr_nonzero [OF c] by simp
  ultimately show "cstr (mem st') sub w" by (auto simp: cstr_iff in_set_conv_nth)
qed

text \<open>One component is finished: its name is copied, its node filled in and linked.\<close>

lemma create_path_node:
  assumes inv: "nodes_inv paths depth as ns st" and av: "0 < kheap_avail st"
    and str: "string_in p (u @ w @ t) st" and w: "w \<noteq> []" "length w < 100"
    and sub: "get_subpath p (int (length u)) (int (length u + length w) - 1) st = (sub, st1)"
    and paths: "unat paths mod 4096 = 0" "paths \<noteq> 0" and depth: "length ns < depth" "depth \<le> 512"
  obtains st2 st3 where
    "upd_node (\<lambda>n. n\<lparr>path_name := sub\<rparr>) (node_at paths (length ns)) st1 = Some st2"
    "(if ns \<noteq> [] then upd_node (\<lambda>n. n\<lparr>path_next := node_at paths (length ns)\<rparr>)
        (node_at paths (length ns - 1)) st2 else Some st2) = Some st3"
    "nodes_inv paths depth (as @ [sub]) (ns @ [w]) st3" "keeps st st3"
    "kheap_avail st = Suc (kheap_avail st3)"
proof -
  let ?n = "length ns"
  have ok: "kheap_ok st" using inv by (simp add: nodes_inv_def)
  note g = get_subpath_spec [OF ok av str w sub]
  have nd: "path_nodes st1 (node_at paths k) = path_nodes st (node_at paths k)" for k
    using g(6) by simp
  have eq: "node_at paths k = node_at paths l \<longleftrightarrow> k = l" if "k < depth" "l < depth" for k l
    using that depth by (intro node_at_eq [OF paths(1)]) auto
  define l where "l = length ns - 1"
  define st2 where "st2 = st1\<lparr>path_nodes := (path_nodes st1)
      (node_at paths ?n \<mapsto> \<lparr>path_name = sub, path_next = 0\<rparr>)\<rparr>"
  have s2: "upd_node (\<lambda>n. n\<lparr>path_name := sub\<rparr>) (node_at paths ?n) st1 = Some st2"
    using inv depth(1) nd by (simp add: upd_node_def st2_def nodes_inv_def)
  define st3 where "st3 = (if ns \<noteq> [] then st2\<lparr>path_nodes := (path_nodes st2)
      (node_at paths (l) \<mapsto> \<lparr>path_name = as ! (l), path_next = node_at paths ?n\<rparr>)\<rparr> else st2)"
  have l: "l < ?n \<and> Suc l = ?n" if "ns \<noteq> []" using that by (simp add: l_def)
  have last: "path_nodes st2 (node_at paths (l)) =
      Some \<lparr>path_name = as ! (l), path_next = 0\<rparr>" if "ns \<noteq> []"
    using l [OF that] inv depth(1) nd [of l] eq [of l ?n] by (simp add: st2_def nodes_inv_def)
  have s3: "(if ns \<noteq> [] then upd_node (\<lambda>n. n\<lparr>path_next := node_at paths ?n\<rparr>)
      (node_at paths (l)) st2 else Some st2) = Some st3"
    using last by (simp add: upd_node_def st3_def)
  have same: "mem st3 = mem st1" "kheap_ok st3 = kheap_ok st1" "kheap_live st3 = kheap_live st1"
    "kheap_avail st3 = kheap_avail st1" "st3 = st1\<lparr>path_nodes := path_nodes st3\<rparr>"
    by (simp_all add: st3_def st2_def)
  have "heap_keeps {} st1 st3" by (subst same(5)) (use g(1) in \<open>simp add: heap_keeps_refl\<close>)
  then have "keeps st1 st3"
    by (rule keepsI [where m = "mem st1" and n = "path_nodes st3"]) (use same in simp)
  with g(5) have keep: "keeps st st3" by (rule keeps_trans)
  have len: "length as = ?n" using inv by (simp add: nodes_inv_def)
  have names: "cstr (mem st3) ((as @ [sub]) ! k) ((ns @ [w]) ! k) \<and>
      ((as @ [sub]) ! k, 4096) \<in> kheap_live st3 \<and> length ((ns @ [w]) ! k) < 100"
    if "k < length (ns @ [w])" for k
  proof (cases "k < ?n")
    case True
    then have old: "cstr (mem st) (as ! k) (ns ! k)" "(as ! k, 4096) \<in> kheap_live st"
      "length (ns ! k) < 100" using inv by (simp_all add: nodes_inv_def)
    have "region (as ! k) (Suc (length (ns ! k))) \<subseteq> region (as ! k) 4096"
      using old(3) by (intro region_mono) simp
    then have "cstr (mem st3) (as ! k) (ns ! k)"
      by (intro cstr_cong [OF old(1)] keepsD(4) [OF keep old(2)]) blast
    then show ?thesis using True old keepsD(3) [OF keep] len by (auto simp: nth_append)
  next
    case False
    then show ?thesis using that g(3,4) w(2) same len by (auto simp: nth_append)
  qed
  have nodes: "path_nodes st3 (node_at paths k) = Some
      (if k < length (ns @ [w])
       then \<lparr>path_name = (as @ [sub]) ! k,
             path_next = (if Suc k < length (ns @ [w]) then node_at paths (Suc k) else 0)\<rparr>
       else \<lparr>path_name = 0, path_next = 0\<rparr>)" if "k < depth" for k
  proof -
    have old: "path_nodes st1 (node_at paths k) = Some
      (if k < ?n then \<lparr>path_name = as ! k, path_next = (if Suc k < ?n then node_at paths (Suc k) else 0)\<rparr>
       else \<lparr>path_name = 0, path_next = 0\<rparr>)" using inv nd that by (simp add: nodes_inv_def)
    consider "k = ?n" | "Suc k = ?n" | "Suc k < ?n" | "?n < k" by linarith
    then show ?thesis
    proof cases
      case 1
      then show ?thesis
        using eq [of l ?n] depth(1) l len by (auto simp: st3_def st2_def nth_append)
    next
      case 2
      then have "ns \<noteq> []" "k = l" "Suc l = ?n" by (auto simp: l_def)
      then show ?thesis
        using len by (simp add: st3_def st2_def nth_append del: of_nat_Suc)
    next
      case 3
      then show ?thesis
        using old that eq [of k ?n] eq [of k l] depth(1) len l
        by (auto simp: st3_def st2_def nth_append)
    next
      case 4
      then show ?thesis
        using old that eq [of k ?n] eq [of k l] depth(1) l by (auto simp: st3_def st2_def)
    qed
  qed
  have "nodes_inv paths depth (as @ [sub]) (ns @ [w]) st3"
    using names nodes g(1) same len by (simp add: nodes_inv_def)
  moreover have "kheap_avail st = Suc (kheap_avail st3)" using g(2) same by simp
  ultimately show ?thesis using s2 s3 keep unfolding l_def by (intro that)
qed

lemma create_path_loop_end:
  assumes "string_in p s st" "length s < i"
  shows "create_path_loop p paths i head current count start e st = Some (head, st)"
  using assms by (subst create_path_loop.simps) (auto simp: string_in_def)

abbreviation tail_node :: "addr \<Rightarrow> 'b list \<Rightarrow> addr" where
  "tail_node paths ns \<equiv> (if ns = [] then 0 else node_at paths (length ns - 1))"

text \<open>The rounds of the loop, by the character at index \<open>i\<close>.\<close>

lemma create_path_loop_char:
  assumes "string_in p s st" "i < length s" "s ! i \<noteq> 0x2F"
  shows "create_path_loop p paths i head current count start e st =
    create_path_loop p paths (Suc i) head current count (if start = -1 then int i else start) (int i) st"
  using assms by (subst create_path_loop.simps) (auto simp: string_in_def cstr_iff)

lemma create_path_loop_skip:
  assumes "string_in p s st" "i \<le> length s" "i < length s \<longrightarrow> s ! i = 0x2F"
  shows "create_path_loop p paths i head current count (-1) e st =
    create_path_loop p paths (Suc i) head current count (-1) e st"
  using assms by (subst create_path_loop.simps) (auto simp: string_in_def cstr_iff order_le_less)

lemma create_path_loop_node:
  assumes "string_in p s st" "i \<le> length s" "i < length s \<longrightarrow> s ! i = 0x2F" "start \<noteq> -1"
    and "get_subpath p start e st = (sub, st1)"
    and "upd_node (\<lambda>n. n\<lparr>path_name := sub\<rparr>) (node_at paths count) st1 = Some st2"
    and "(if current \<noteq> 0 then upd_node (\<lambda>n. n\<lparr>path_next := node_at paths count\<rparr>) current st2
          else Some st2) = Some st3"
  shows "create_path_loop p paths i head current count start e st =
    create_path_loop p paths (Suc i) (if head = 0 then node_at paths count else head)
      (node_at paths count) (Suc count) (-1) e st3"
  using assms(1-6) by (subst create_path_loop.simps)
    (auto simp: assms(7) string_in_def cstr_iff order_le_less)

lemma create_path_loop_word:
  assumes "nodes_inv paths depth as ns st" "string_in p s st" "s = u @ w @ t" "length s < 100"
    and "w \<noteq> []" "t = [] \<or> hd t = 0x2F" "0 < kheap_avail st"
    and "unat paths mod 4096 = 0" "paths \<noteq> 0" "length ns < depth" "depth \<le> 512"
    and "e = int (length u + length w) - 1"
  obtains sub st3 where
    "create_path_loop p paths (length u + length w)
       (if ns = [] then 0 else paths) (tail_node paths ns) (length ns) (int (length u)) e st =
     create_path_loop p paths (Suc (length u + length w)) paths
       (node_at paths (length ns)) (Suc (length ns)) (-1) e st3"
    "nodes_inv paths depth (as @ [sub]) (ns @ [w]) st3" "keeps st st3"
    "kheap_avail st = Suc (kheap_avail st3)"
proof -
  obtain sub st1 where sub: "get_subpath p (int (length u)) (int (length u + length w) - 1) st = (sub, st1)"
    by (rule prod.exhaust)
  have str: "string_in p (u @ w @ t) st" using assms(2,3) by simp
  have wl: "length w < 100" using assms(3,4) by simp
  obtain st2 st3 where n:
    "upd_node (\<lambda>n. n\<lparr>path_name := sub\<rparr>) (node_at paths (length ns)) st1 = Some st2"
    "(if ns \<noteq> [] then upd_node (\<lambda>n. n\<lparr>path_next := node_at paths (length ns)\<rparr>)
        (node_at paths (length ns - 1)) st2 else Some st2) = Some st3"
    "nodes_inv paths depth (as @ [sub]) (ns @ [w]) st3" "keeps st st3"
    "kheap_avail st = Suc (kheap_avail st3)"
    by (rule create_path_node [OF assms(1,7) str assms(5) wl sub assms(8-11)])
  have cur: "tail_node paths ns \<noteq> 0 \<longleftrightarrow> ns \<noteq> []"
    using node_at_0 [OF assms(8) _ assms(9), of "length ns - 1"] assms(10,11) by auto
  have tl: "(if tail_node paths ns \<noteq> 0
      then upd_node (\<lambda>n. n\<lparr>path_next := node_at paths (length ns)\<rparr>) (tail_node paths ns) st2
      else Some st2) = Some st3"
    using n(2) unfolding cur by (cases "ns = []") simp_all
  have i: "length u + length w \<le> length s" using assms(3) by simp
  have ch: "length u + length w < length s \<longrightarrow> s ! (length u + length w) = 0x2F"
    using assms(3,6) by (cases t) (auto simp: nth_append)
  have "(if (if ns = [] then 0 else paths) = 0 then node_at paths (length ns)
      else if ns = [] then 0 else paths) = paths" using assms(9) by auto
  with create_path_loop_node [OF assms(2) i ch _ _ n(1) tl,
      of "int (length u)" e "if ns = [] then 0 else paths"] sub assms(12)
  have "create_path_loop p paths (length u + length w)
      (if ns = [] then 0 else paths) (tail_node paths ns) (length ns) (int (length u)) e st =
    create_path_loop p paths (Suc (length u + length w)) paths
      (node_at paths (length ns)) (Suc (length ns)) (-1) e st3" by simp
  from this n(3-5) show ?thesis by (rule that)
qed

lemma create_path_loop_spec:
  assumes "nodes_inv paths depth as ns st" "string_in p s st" "s = u @ w @ t" "length s < 100"
    and "length (parts w t) \<le> kheap_avail st"
    and "unat paths mod 4096 = 0" "paths \<noteq> 0" "length ns + length (parts w t) \<le> depth" "depth \<le> 512"
    and "w = [] \<or> e = int (length u + length w) - 1"
  shows "\<exists>st' as'. create_path_loop p paths (length u + length w)
      (if ns = [] then 0 else paths) (tail_node paths ns) (length ns)
      (if w = [] then -1 else int (length u)) e st =
        Some (if ns @ parts w t = [] then 0 else paths, st') \<and>
    nodes_inv paths depth as' (ns @ parts w t) st' \<and> keeps st st' \<and>
    kheap_avail st = kheap_avail st' + length (parts w t)"
  using assms(1-5,8,10)
proof (induction t arbitrary: u w as ns st e)
  case Nil
  note str = Nil.prems(2)
  have ok: "kheap_ok st" using Nil.prems(1) by (simp add: nodes_inv_def)
  show ?case
  proof (cases "w = []")
    case True
    then show ?thesis
      using Nil.prems(1,3) create_path_loop_skip [OF str, of "length u"] create_path_loop_end [OF str]
      by (intro exI [of _ st] exI [of _ as]) (simp add: keeps_refl nodes_inv_def)
  next
    case False
    have c: "0 < kheap_avail st" "length ns < depth" using Nil.prems(5,6) False by simp_all
    have e: "e = int (length u + length w) - 1" using Nil.prems(7) False by simp
    obtain sub st3 where n: "create_path_loop p paths (length u + length w)
         (if ns = [] then 0 else paths) (tail_node paths ns) (length ns) (int (length u)) e st =
       create_path_loop p paths (Suc (length u + length w)) paths
         (node_at paths (length ns)) (Suc (length ns)) (-1) e st3"
      "nodes_inv paths depth (as @ [sub]) (ns @ [w]) st3" "keeps st st3"
      "kheap_avail st = Suc (kheap_avail st3)"
      by (rule create_path_loop_word [OF Nil.prems(1-4) False _ c(1) assms(6,7) c(2) assms(9) e]) simp_all
    have "create_path_loop p paths (Suc (length u + length w)) paths
         (node_at paths (length ns)) (Suc (length ns)) (-1) e st3 = Some (paths, st3)"
      using Nil.prems(3) by (intro create_path_loop_end [OF keeps_string [OF n(3) str ok]]) simp
    with n False show ?thesis by (intro exI [of _ st3] exI [of _ "as @ [sub]"]) simp
  qed
next
  case (Cons c t)
  note str = Cons.prems(2)
  have ok: "kheap_ok st" using Cons.prems(1) by (simp add: nodes_inv_def)
  have i: "length u + length w < length s" "s ! (length u + length w) = c"
    using Cons.prems(3) by (simp_all add: nth_append)
  show ?case
  proof (cases "c = 0x2F")
    case False
    let ?w = "w @ [c]"
    have s: "s = u @ ?w @ t" using Cons.prems(3) by simp
    have "\<exists>st' as'. create_path_loop p paths (length u + length ?w)
      (if ns = [] then 0 else paths) (tail_node paths ns) (length ns)
      (if ?w = [] then -1 else int (length u)) (int (length u + length w)) st =
        Some (if ns @ parts ?w t = [] then 0 else paths, st') \<and>
      nodes_inv paths depth as' (ns @ parts ?w t) st' \<and> keeps st st' \<and>
      kheap_avail st = kheap_avail st' + length (parts ?w t)"
      using Cons.prems(5,6) False by (intro Cons.IH [OF Cons.prems(1) str s Cons.prems(4)]) simp_all
    moreover have "create_path_loop p paths (length u + length w)
      (if ns = [] then 0 else paths) (tail_node paths ns) (length ns)
      (if w = [] then -1 else int (length u)) e st =
      create_path_loop p paths (length u + length ?w)
      (if ns = [] then 0 else paths) (tail_node paths ns) (length ns)
      (if ?w = [] then -1 else int (length u)) (int (length u + length w)) st"
      using create_path_loop_char [OF str i(1)] i(2) False by simp
    ultimately show ?thesis using False by simp
  next
    case slash: True
    show ?thesis
    proof (cases "w = []")
      case True
      have s: "s = (u @ [c]) @ [] @ t" using Cons.prems(3) True by simp
      have "\<exists>st' as'. create_path_loop p paths (length (u @ [c]) + length ([] :: u8 list))
        (if ns = [] then 0 else paths) (tail_node paths ns) (length ns)
        (if ([] :: u8 list) = [] then -1 else int (length (u @ [c]))) e st =
          Some (if ns @ parts [] t = [] then 0 else paths, st') \<and>
        nodes_inv paths depth as' (ns @ parts [] t) st' \<and> keeps st st' \<and>
        kheap_avail st = kheap_avail st' + length (parts [] t)"
        using Cons.prems(5,6) slash True by (intro Cons.IH [OF Cons.prems(1) str s Cons.prems(4)]) simp_all
      then show ?thesis
        using create_path_loop_skip [OF str, of "length u"] i slash True by simp
    next
      case False
      have c: "0 < kheap_avail st" "length ns < depth" using Cons.prems(5,6) False slash by simp_all
      have e: "e = int (length u + length w) - 1" using Cons.prems(7) False by simp
      obtain sub st3 where n: "create_path_loop p paths (length u + length w)
           (if ns = [] then 0 else paths) (tail_node paths ns) (length ns) (int (length u)) e st =
         create_path_loop p paths (Suc (length u + length w)) paths
           (node_at paths (length ns)) (Suc (length ns)) (-1) e st3"
        "nodes_inv paths depth (as @ [sub]) (ns @ [w]) st3" "keeps st st3"
        "kheap_avail st = Suc (kheap_avail st3)"
        by (rule create_path_loop_word [OF Cons.prems(1-4) False _ c(1) assms(6,7) c(2) assms(9) e])
          (simp_all add: slash)
      have s: "s = (u @ w @ [c]) @ [] @ t" using Cons.prems(3) by simp
      have "\<exists>st' as'. create_path_loop p paths (length (u @ w @ [c]) + length ([] :: u8 list))
        (if ns @ [w] = [] then 0 else paths) (tail_node paths (ns @ [w])) (length (ns @ [w]))
        (if ([] :: u8 list) = [] then -1 else int (length (u @ w @ [c]))) e st3 =
          Some (if (ns @ [w]) @ parts [] t = [] then 0 else paths, st') \<and>
        nodes_inv paths depth as' ((ns @ [w]) @ parts [] t) st' \<and> keeps st3 st' \<and>
        kheap_avail st3 = kheap_avail st' + length (parts [] t)"
        using Cons.prems(5,6) slash False n(4)
        by (intro Cons.IH [OF n(2) keeps_string [OF n(3) str ok] s Cons.prems(4)]) simp_all
      then show ?thesis using n(1,3,4) slash False by (auto intro: keeps_trans)
    qed
  qed
qed

lemma create_path_spec:
  assumes "kheap_ok st" "string_in p s st" "length s < 100" "Suc (length (components s)) \<le> kheap_avail st"
  obtains r st' where "create_path p st = Some (r, st')" "path_list st' r (components s)"
    "kheap_ok st'" "keeps st st'" "kheap_avail st = kheap_avail st' + Suc (length (components s))"
proof -
  let ?d = "Suc (count_list (tl s) 0x2F)"
  have c: "cstr (mem st) p s" using assms(2) by (simp add: string_in_def)
  have d: "?d \<le> 100" using count_le_length [of "tl s" "0x2F"] assms(3) by simp
  obtain paths st1 where z: "kzalloc (8 * of_nat ?d) st = (paths, st1)" by (rule prod.exhaust)
  have sz: "unat (8 * of_nat ?d :: u32) = 8 * ?d" using d by (simp add: unat_word_ariths)
  have szb: "0 < unat (8 * of_nat ?d :: u32)" "unat (8 * of_nat ?d :: u32) \<le> 4096"
    unfolding sz using d by simp_all
  have a0: "0 < kheap_avail st" using assms(4) by simp
  note k = kh.zalloc_keeps [OF assms(1) szb a0 z]
  obtain m where m: "st1 = st\<lparr>mem := m\<rparr>" using k(10) by blast
  define st2 where "st2 = st1\<lparr>path_nodes := zero_nodes paths ?d (path_nodes st1)\<rparr>"
  have "heap_keeps {} st st2" using kzalloc_heap_keeps [OF assms(1) szb a0 z] by (simp add: st2_def)
  then have k12: "keeps st st2" by (rule keepsI [where m = m and n = "path_nodes st2"]) (simp add: st2_def m)
  have "nodes_inv paths ?d [] [] st2"
    using k(1) zero_nodes_eq [OF k(6)] d by (simp add: nodes_inv_def st2_def)
  moreover have "length (parts [] s) \<le> kheap_avail st2"
    using assms(4) k(3) by (simp add: st2_def parts_components)
  moreover have "length ([] :: u8 list list) + length (parts [] s) \<le> ?d"
    using components_depth [of s] by (simp add: parts_components)
  ultimately obtain st' as' where st': "create_path_loop p paths 0 0 0 0 (-1) (-1) st2 =
      Some (if components s = [] then 0 else paths, st')"
    "nodes_inv paths ?d as' (components s) st'" "keeps st2 st'"
    "kheap_avail st2 = kheap_avail st' + length (components s)"
    using create_path_loop_spec [of paths ?d "[]" "[]" st2 p s "[]" "[]" s "-1"]
      keeps_string [OF k12 assms(2,1)] assms(3) k(5,6) d by (auto simp: parts_components)
  have "create_path p st = Some (if components s = [] then 0 else paths, st')"
    using st'(1) z path_depth_cstr [OF c] by (simp add: create_path_def get_path_depth_def st2_def)
  moreover have "path_list st' (if components s = [] then 0 else paths) (components s)"
    using nodes_inv_path_list [OF st'(2) components_depth _ k(6,5), of 0] d by (cases "components s") auto
  moreover have "kheap_ok st'" using st'(2) by (simp add: nodes_inv_def)
  moreover have "keeps st st'" using k12 st'(3) by (rule keeps_trans)
  moreover have "kheap_avail st = kheap_avail st' + Suc (length (components s))"
    using st'(4) k(3) by (simp add: st2_def)
  ultimately show ?thesis by (intro that)
qed

section \<open>Properties\<close>

definition valid_path :: "u8 list \<Rightarrow> bool" where
  "valid_path s \<longleftrightarrow> 3 \<le> length s \<and> length s \<le> 100 \<and> is_digit (s ! 0) \<and> s ! 1 = 0x3A"

lemma path_is_valid_format_cstr:
  assumes "cstr (mem st) p s" "mem st (colon_slash st) = 0x3A"
  shows "path_is_valid_format p st = Some (valid_path s)"
proof -
  have "mem st (p + of_nat i) = s ! i" if "i < length s" for i using assms(1) that by (simp add: cstr_iff)
  from this [of 0] this [of 1] have "3 \<le> length s \<Longrightarrow> mem st p = s ! 0 \<and> mem st (p + 1) = s ! 1"
    by (auto simp flip: length_greater_0_conv)
  then show ?thesis
    using assms by (auto simp: path_is_valid_format_def valid_path_def memcmp_def memcmp_loop_eq)
qed

lemma parse_path_spec:
  assumes "kheap_ok st" "string_in p s st" "valid_path s" "mem st (colon_slash st) = 0x3A"
    and "2 + length (components (drop 2 s)) \<le> kheap_avail st"
  shows "\<exists>rp r st' m n ps. parse_path p cwd st = Some (rp, st') \<and> rp \<noteq> 0 \<and>
    st' = st\<lparr>mem := m, path_nodes := n, root_paths := ps\<rparr> \<and>
    root_paths st' rp = Some \<lparr>drive_number = atoi (s ! 0), root = r\<rparr> \<and>
    path_list st' r (components (drop 2 s)) \<and> heap_keeps {} st st' \<and>
    kheap_avail st = kheap_avail st' + 2 + length (components (drop 2 s))"
proof -
  obtain rp st1 where z: "kzalloc 8 st = (rp, st1)" by (rule prod.exhaust)
  have a0: "0 < kheap_avail st" using assms(5) by simp
  note k = kh.zalloc_keeps [OF assms(1) _ _ a0 z, simplified]
  obtain m where m: "st1 = st\<lparr>mem := m\<rparr>" using k(10) by blast
  have k1: "heap_keeps {} st st1" by (rule kzalloc_heap_keeps [OF assms(1) _ _ a0 z]) simp_all
  have s1: "string_in p s st1" using string_kept [OF k1 assms(2,1)] by simp
  have len: "length s < 4294967296" "3 \<le> length s" "length s \<le> 100"
    using assms(3) by (simp_all add: valid_path_def)
  have m0: "mem st1 p = s ! 0" using s1 len(2) by (cases s) (auto simp: string_in_def)
  define st2 where "st2 = st1\<lparr>root_paths := (root_paths st1)(rp \<mapsto> \<lparr>drive_number = atoi (s ! 0), root = 0\<rparr>)\<rparr>"
  have "cstr (mem st1) (p + of_nat 2) (drop 2 s)"
    using s1 len(2) by (intro cstr_drop) (auto simp: string_in_def)
  moreover have "region (p + of_nat 2) (Suc (length (drop 2 s))) \<subseteq> region p (Suc (length s))"
    using len by (intro region_shift_subset) auto
  ultimately have s2: "string_in (p + 2) (drop 2 s) st2"
    using s1 by (fastforce simp: string_in_def st2_def)
  have ok2: "kheap_ok st2" "Suc (length (components (drop 2 s))) \<le> kheap_avail st2"
    using k(1,3) assms(5) by (simp_all add: st2_def)
  obtain r st' where c: "create_path (p + 2) st2 = Some (r, st')"
    "path_list st' r (components (drop 2 s))" "kheap_ok st'" "keeps st2 st'"
    "kheap_avail st2 = kheap_avail st' + Suc (length (components (drop 2 s)))"
    by (rule create_path_spec [OF ok2(1) s2 _ ok2(2)]) (use len in simp)
  have rp: "root_paths st' rp = Some \<lparr>drive_number = atoi (s ! 0), root = 0\<rparr>"
    using keepsD(2) [OF c(4)] by (auto simp: st2_def)
  let ?st = "st'\<lparr>root_paths := (root_paths st')(rp \<mapsto> \<lparr>drive_number = atoi (s ! 0), root = r\<rparr>)\<rparr>"
  have "path_is_valid_format p st = Some True"
    using path_is_valid_format_cstr [of st p s] assms(2-4) by (simp add: string_in_def)
  then have pp: "parse_path p cwd st = Some (rp, ?st)"
    using z c(1) rp m0 by (simp add: parse_path_def create_root_path_def path_get_drive_number_def st2_def Let_def)
  have pl: "path_list ?st r ns = path_list st' r ns" for r ns
    by (induction ns arbitrary: r) (auto simp: string_in_def split: option.splits)
  obtain m' n' where fr: "st' = st2\<lparr>mem := m', path_nodes := n'\<rparr>"
    using keepsD(2) [OF c(4)] by blast
  have fe: "?st = st\<lparr>mem := m', path_nodes := n', root_paths := root_paths ?st\<rparr>"
    using m by (simp add: fr st2_def)
  have "heap_keeps {} st2 st'" by (rule keepsD(1) [OF c(4)])
  then have "heap_keeps {} st ?st" using heap_keeps_trans [OF k1, of "{}" st'] by (simp add: st2_def)
  moreover have "path_list ?st r (components (drop 2 s))" using pl c(2) by simp
  moreover have "root_paths ?st rp = Some \<lparr>drive_number = atoi (s ! 0), root = r\<rparr>" by simp
  moreover have "kheap_avail st = kheap_avail ?st + 2 + length (components (drop 2 s))"
    using c(5) k(3) by (simp add: st2_def)
  ultimately show ?thesis
    using pp fe k(5) by (intro exI [of _ rp] exI [of _ r] exI [of _ ?st] exI conjI)
qed

text \<open>
  C12: parsing a path.  For a string of 3 to 100 characters that starts with a digit and a
  colon, \<^verbatim>\<open>parse_path\<close> returns a root whose drive number is the digit and whose list holds, in
  order, the non-empty pieces between slashes of the rest.  The heap stays well-formed and the
  earlier allocations keep their contents.
\<close>

theorem parse_path_components:
  assumes "kheap_ok st" "string_in p s st" "valid_path s" "mem st (colon_slash st) = 0x3A"
    and "2 + length (components (drop 2 s)) \<le> kheap_avail st"
  shows "\<exists>rp r st'. parse_path p cwd st = Some (rp, st') \<and> rp \<noteq> 0 \<and>
    root_paths st' rp = Some \<lparr>drive_number = atoi (s ! 0), root = r\<rparr> \<and>
    path_list st' r (components (drop 2 s)) \<and> kheap_ok st' \<and>
    (\<forall>(q, k) \<in> kheap_live st. \<forall>a \<in> region q k. mem st' a = mem st a)"
proof -
  obtain rp r st' where p: "parse_path p cwd st = Some (rp, st')" "rp \<noteq> 0"
    "root_paths st' rp = Some \<lparr>drive_number = atoi (s ! 0), root = r\<rparr>" "path_list st' r (components (drop 2 s))" "heap_keeps {} st st'"
    using parse_path_spec [OF assms, of cwd] by blast
  have "\<forall>(q, k) \<in> kheap_live st. \<forall>a \<in> region q k. mem st' a = mem st a" using heap_keepsD(4) [OF p(5)] by auto
  then show ?thesis using p heap_keepsD(2) [OF p(5)] by blast
qed

text \<open>A state for the witness: an allocated page that holds the path \<^verbatim>\<open>0:/A/B\<close>.\<close>

definition path_state_ex :: path_state where
  "path_state_ex = kheap_init
     \<lparr>mem = \<lambda>_. 0, kernel_heap = heap_ex, console = [], current_directory = 0, cr3 = 0, cr0 = 0,
      path_nodes = Map.empty, root_paths = Map.empty, colon_slash = 0\<rparr>"

definition path_ex :: "u8 list" where
  "path_ex = [0x30, 0x3A, 0x2F, 0x41, 0x2F, 0x42]"

lemma string_in_page:
  assumes "kheap_ok st" "0 < kheap_avail st" "kzalloc 100 st = (p, st1)" "0 \<notin> set s" "length s < 4096"
    and "st2 = st1\<lparr>mem := store (mem st1) p (s @ [0])\<rparr>"
  shows "kheap_ok st2" "string_in p s st2" "kheap_avail st = Suc (kheap_avail st2)"
    "kheap_live st2 = insert (p, 4096) (kheap_live st)"
proof -
  note k = kh.zalloc_keeps [OF assms(1) _ _ assms(2,3), simplified]
  have "region p (length (s @ [0])) \<subseteq> region p 4096" using assms(5) by (intro region_mono) simp
  then have "store (mem st1) p (s @ [0]) a = mem st1 a" if "a \<notin> region p 4096" for a
    using that assms(5) by (subst store_eq) auto
  moreover have "(p, 4096) \<in> kheap_live st1" using k(2) by simp
  ultimately have put: "kheap_ok st2" "kheap_live st2 = kheap_live st1" "kheap_avail st2 = kheap_avail st1"
    using kh.put_live [OF k(1), of p 4096 "store (mem st1) p (s @ [0])"] assms(6) by simp_all
  then show "kheap_ok st2" "kheap_avail st = Suc (kheap_avail st2)"
    "kheap_live st2 = insert (p, 4096) (kheap_live st)" using k(2,3) by simp_all
  have "cstr (mem st2) p s" using assms(4-6) by (simp add: cstr_store)
  moreover have "region p (Suc (length s)) \<subseteq> region p 4096" using assms(5) by (intro region_mono) simp
  ultimately show "string_in p s st2" using put(2) k(2) by (auto simp: string_in_def)
qed

theorem parse_path_components_witness:
  "\<exists>(st :: path_state) p rp r st'. string_in p path_ex st \<and> parse_path p 0 st = Some (rp, st') \<and>
     root_paths st' rp = Some \<lparr>drive_number = 0, root = r\<rparr> \<and> path_list st' r [[0x41], [0x42]]"
proof -
  obtain p st1 where z: "kzalloc 100 path_state_ex = (p, st1)" by (rule prod.exhaust)
  define st where "st = st1\<lparr>mem := store (mem st1) p (path_ex @ [0])\<rparr>"
  have ex: "kheap_ok path_state_ex" "kheap_avail path_state_ex = 25600"
    unfolding path_state_ex_def by (simp_all add: kheap_init_ok)
  note s = string_in_page [OF ex(1) _ z _ _ st_def, unfolded ex(2)]
  have str: "string_in p path_ex st" and ok: "kheap_ok st" and av: "25600 = Suc (kheap_avail st)"
    by (rule s; simp add: path_ex_def)+
  let ?st = "st\<lparr>colon_slash := p + 1\<rparr>"
  have upd: "kheap_ok ?st" "string_in p path_ex ?st" "kheap_avail ?st = kheap_avail st"
    using ok str by (simp_all add: kheap_defs string_in_def)
  have "mem ?st (p + 1) = 0x3A" using str by (simp add: string_in_def path_ex_def)
  then have c: "mem ?st (colon_slash ?st) = 0x3A" by simp
  have comp: "components (drop 2 path_ex) = [[0x41], [0x42]]" "atoi (path_ex ! 0) = 0"
    by (simp_all add: path_ex_def components_def atoi_def)
  have v: "valid_path path_ex" by (simp add: path_ex_def valid_path_def is_digit_def)
  have a: "2 + length (components (drop 2 path_ex)) \<le> kheap_avail ?st"
    unfolding comp upd(3) using av by simp
  from parse_path_components [OF upd(1,2) v c a, of 0, unfolded comp] upd(2) show ?thesis by blast
qed

end
