(* ===== verification/Zhios_Disk.thy ===== *)
theory Zhios_Disk
  imports Zhios_Path
begin

text \<open>
  The ATA disk driver and the byte stream on top of it: \<^verbatim>\<open>src/src/disk/disk.c\<close>,
  \<^verbatim>\<open>src/src/disk/stream.c\<close> and the port instructions of \<^verbatim>\<open>src/src/io/io.asm\<close>.  The
  hardware is a parameter: \<open>dev\<close> gives the value an input instruction reads, from the history
  of port instructions up to it, and \<open>ata\<close> states what the driver relies on (the documented
  behaviour of the 28-bit PIO read command).  The lemmas show that a stream read delivers the
  bytes of the disk image.
\<close>

section \<open>Port input and output\<close>

datatype port_op = Outb u16 u8 | Insb u16 | Insw u16

record disk =
  disk_id :: int
  disk_type :: u16
  sector_size :: int
  disk_fs :: addr
  fs_private :: addr

record DiskStream =
  stream_pos :: int
  stream_disk :: addr

text \<open>
  \<open>io_log\<close> is the history, latest instruction first.  \<open>disk\<close> is the one global disk
  structure, \<open>disk_addr\<close> its address.
\<close>

record disk_state = path_state +
  dev :: "port_op list \<Rightarrow> u16"
  io_log :: "port_op list"
  disk :: disk
  disk_addr :: addr
  streams :: "addr \<rightharpoonup> DiskStream"

definition outb :: "u16 \<Rightarrow> u8 \<Rightarrow> 'a disk_state_scheme \<Rightarrow> 'a disk_state_scheme" where
  "outb port d st = st\<lparr>io_log := Outb port d # io_log st\<rparr>"

definition insb :: "u16 \<Rightarrow> 'a disk_state_scheme \<Rightarrow> u8 \<times> 'a disk_state_scheme" where
  "insb port st = (ucast (dev st (Insb port # io_log st)), st\<lparr>io_log := Insb port # io_log st\<rparr>)"

definition insw :: "u16 \<Rightarrow> 'a disk_state_scheme \<Rightarrow> u16 \<times> 'a disk_state_scheme" where
  "insw port st = (dev st (Insw port # io_log st), st\<lparr>io_log := Insw port # io_log st\<rparr>)"

section \<open>The driver\<close>

definition get_disk :: "int \<Rightarrow> 'a disk_state_scheme \<Rightarrow> addr" where
  "get_disk index st = (if index \<noteq> 0 then 0 else disk_addr st)"

text \<open>The polling loop, with \<open>c\<close> the status byte read last.\<close>

partial_function (option) wait_ready :: "u8 \<Rightarrow> 'a disk_state_scheme \<Rightarrow> 'a disk_state_scheme option" where
  "wait_ready c st =
     (if c AND 0x08 = 0 then wait_ready (fst (insb 0x1F7 st)) (snd (insb 0x1F7 st)) else Some st)"

text \<open>The data loop: each word goes to the buffer in little-endian order.\<close>

fun read_words :: "nat \<Rightarrow> 'a disk_state_scheme \<Rightarrow> u8 list \<times> 'a disk_state_scheme" where
  "read_words 0 st = ([], st)"
| "read_words (Suc left) st =
     (let (w, st1) = insw 0x1F0 st; (bs, st2) = read_words left st1
      in (ucast w # ucast (drop_bit 8 w) # bs, st2))"

fun read_sectors :: "nat \<Rightarrow> 'a disk_state_scheme \<Rightarrow> (u8 list \<times> 'a disk_state_scheme) option" where
  "read_sectors 0 st = Some ([], st)"
| "read_sectors (Suc left) st =
     (let (c, st1) = insb 0x1F7 st in do {
        st2 \<leftarrow> wait_ready c st1;
        let (bs, st3) = read_words 256 st2;
        (rest, st4) \<leftarrow> read_sectors left st3;
        Some (bs @ rest, st4) })"

text \<open>\<open>disk_read_sector\<close> returns the bytes it puts into the caller's buffer.\<close>

definition disk_read_sector ::
  "u32 \<Rightarrow> int \<Rightarrow> 'a disk_state_scheme \<Rightarrow> (u8 list \<times> 'a disk_state_scheme) option" where
  "disk_read_sector lba tot st =
     (let st1 = outb 0x01F6 (ucast (drop_bit 24 lba OR 0xE0)) st;
          st2 = outb 0x01F2 (of_int tot) st1;
          st3 = outb 0x01F3 (ucast (lba AND 0xFF)) st2;
          st4 = outb 0x01F4 (ucast (drop_bit 8 lba)) st3;
          st5 = outb 0x01F5 (ucast (drop_bit 16 lba)) st4;
          st6 = outb 0x01F7 0x20 st5
      in read_sectors (nat tot) st6)"

definition disk_read_block ::
  "addr \<Rightarrow> u32 \<Rightarrow> int \<Rightarrow> 'a disk_state_scheme \<Rightarrow> (int \<times> u8 list \<times> 'a disk_state_scheme) option" where
  "disk_read_block selected_disk lba tot st =
     (if disk_addr st \<noteq> selected_disk then Some (- EIO, [], st)
      else do {
        (bs, st') \<leftarrow> disk_read_sector lba tot st;
        Some (0, bs, st') })"

section \<open>Streams\<close>

definition disk_stream_open :: "int \<Rightarrow> 'a disk_state_scheme \<Rightarrow> addr \<times> 'a disk_state_scheme" where
  "disk_stream_open drive st =
     (let d = get_disk drive st in
      if d = 0 then (0, st)
      else (let (stream, st1) = kzalloc 8 st
            in (stream, st1\<lparr>streams := (streams st1)(stream \<mapsto> \<lparr>stream_pos = 0, stream_disk = d\<rparr>)\<rparr>)))"

definition disk_stream_seek ::
  "addr \<Rightarrow> int \<Rightarrow> 'a disk_state_scheme \<Rightarrow> (int \<times> 'a disk_state_scheme) option" where
  "disk_stream_seek stream p st = do {
     s \<leftarrow> streams st stream;
     Some (0, st\<lparr>streams := (streams st)(stream \<mapsto> s\<lparr>stream_pos := p\<rparr>)\<rparr>) }"

text \<open>
  The copy from the sector buffer.  Indices from \<open>offset\<close> on are not checked against the
  buffer's 512 bytes; an index outside it is no value of the model.
\<close>

fun copy_out :: "memory \<Rightarrow> addr \<Rightarrow> u8 list \<Rightarrow> int \<Rightarrow> nat \<Rightarrow> nat \<Rightarrow> memory option" where
  "copy_out m out_ptr buffer offset i 0 = Some m"
| "copy_out m out_ptr buffer offset i (Suc left) =
     (if 0 \<le> offset + int i \<and> offset + int i < int (length buffer)
      then copy_out (m(out_ptr + of_nat i := buffer ! nat (offset + int i))) out_ptr buffer offset (Suc i) left
      else None)"

function disk_stream_read ::
  "addr \<Rightarrow> addr \<Rightarrow> int \<Rightarrow> 'a disk_state_scheme \<Rightarrow> (int \<times> 'a disk_state_scheme) option" where
  "disk_stream_read stream out_ptr tot st =
     Option.bind (streams st stream) (\<lambda>s.
       let sector = stream_pos s sdiv ZHIOS_DISK_SECTOR_SIZE;
           offset = stream_pos s smod ZHIOS_DISK_SECTOR_SIZE
       in if tot \<le> 0 then Some (0, st)
       else Option.bind (disk_read_block (stream_disk s) (of_int sector) 1 st) (\<lambda>(res, buffer, st1).
         if res < 0 then Some (res, st1)
         else (let total_to_read = (if tot > ZHIOS_DISK_SECTOR_SIZE then ZHIOS_DISK_SECTOR_SIZE else tot)
           in Option.bind (copy_out (mem st1) out_ptr buffer offset 0 (nat total_to_read)) (\<lambda>m.
             let st2 = st1\<lparr>mem := m, streams := (streams st1)
                   (stream \<mapsto> s\<lparr>stream_pos := stream_pos s + total_to_read\<rparr>)\<rparr>
             in if tot > ZHIOS_DISK_SECTOR_SIZE
                then disk_stream_read stream (out_ptr + of_int total_to_read)
                       (tot - ZHIOS_DISK_SECTOR_SIZE) st2
                else Some (res, st2)))))"
  by pat_completeness auto
termination
  by (relation "measure (\<lambda>(stream, out_ptr, tot, st). nat tot)") auto

declare disk_stream_read.simps [simp del]

definition disk_stream_close :: "addr \<Rightarrow> 'a disk_state_scheme \<Rightarrow> 'a disk_state_scheme" where
  "disk_stream_close stream st = kfree stream st"

section \<open>The behaviour of the device\<close>

text \<open>
  The history after the six output instructions of a read command for one sector, and what
  the driver relies on: for an address below \<open>2^28\<close> the status port shows the data request
  bit after finitely many reads, and the following 256 reads of the data port deliver the
  sector's words.
\<close>

definition ata_command :: "u32 \<Rightarrow> port_op list \<Rightarrow> port_op list" where
  "ata_command lba log =
     [Outb 0x01F7 0x20, Outb 0x01F5 (ucast (drop_bit 16 lba)), Outb 0x01F4 (ucast (drop_bit 8 lba)),
      Outb 0x01F3 (ucast (lba AND 0xFF)), Outb 0x01F2 1,
      Outb 0x01F6 (ucast (drop_bit 24 lba OR 0xE0))] @ log"

definition ready :: "u16 \<Rightarrow> bool" where
  "ready w \<longleftrightarrow> (ucast w :: u8) AND 0x08 \<noteq> 0"

definition word_of :: "u8 \<Rightarrow> u8 \<Rightarrow> u16" where
  "word_of lo hi = ucast lo OR push_bit 8 (ucast hi)"

definition ata :: "(port_op list \<Rightarrow> u16) \<Rightarrow> (nat \<Rightarrow> u8) \<Rightarrow> bool" where
  "ata d img \<longleftrightarrow> (\<forall>lba log. unat lba < 268435456 \<longrightarrow>
     (\<exists>n. (\<forall>j < n. \<not> ready (d (replicate (Suc j) (Insb 0x1F7) @ ata_command lba log))) \<and>
        ready (d (replicate (Suc n) (Insb 0x1F7) @ ata_command lba log)) \<and>
        (\<forall>k < 256. d (replicate (Suc k) (Insw 0x1F0) @ replicate (Suc n) (Insb 0x1F7) @ ata_command lba log) =
           word_of (img (512 * unat lba + 2 * k)) (img (512 * unat lba + 2 * k + 1)))))"

lemma word_of_bytes:
  "ucast (word_of lo hi) = lo" "ucast (drop_bit 8 (word_of lo hi)) = hi"
proof -
  show "ucast (word_of lo hi) = lo"
    by (rule bit_word_eqI) (auto simp: word_of_def bit_simps)
  show "ucast (drop_bit 8 (word_of lo hi)) = hi"
    by (rule bit_word_eqI) (auto simp: word_of_def bit_simps dest: bit_imp_le_length)
qed

lemma wait_ready_log:
  assumes "\<And>i. j \<le> i \<Longrightarrow> i < n \<Longrightarrow> \<not> ready (dev st (replicate (Suc i) (Insb 0x1F7) @ L))"
    and "ready (dev st (replicate (Suc n) (Insb 0x1F7) @ L))" "j \<le> n"
    and "io_log st = replicate (Suc j) (Insb 0x1F7) @ L"
  shows "wait_ready (ucast (dev st (io_log st))) st =
    Some (st\<lparr>io_log := replicate (Suc n) (Insb 0x1F7) @ L\<rparr>)"
  using assms
proof (induction "n - j" arbitrary: j st)
  case 0
  then have "j = n" by simp
  with 0 show ?case by (subst wait_ready.simps) (simp add: ready_def)
next
  case (Suc d)
  let ?st = "st\<lparr>io_log := Insb 0x1F7 # io_log st\<rparr>"
  have "\<not> ready (dev st (io_log st))" using Suc.prems(1) [of j] Suc.hyps(2) Suc.prems(4) by simp
  then have "wait_ready (ucast (dev st (io_log st))) st = wait_ready (ucast (dev ?st (io_log ?st))) ?st"
    by (subst wait_ready.simps) (simp add: ready_def insb_def)
  also have "\<dots> = Some (?st\<lparr>io_log := replicate (Suc n) (Insb 0x1F7) @ L\<rparr>)"
    using Suc.prems Suc.hyps(2) by (intro Suc.hyps(1) [of "Suc j"]) auto
  finally show ?case by simp
qed

lemma upt_two: "[2 * k..<2 * (k + Suc n)] = 2 * k # Suc (2 * k) # [2 * Suc k..<2 * (Suc k + n)]"
  by (simp add: upt_rec)

lemma read_words_log:
  assumes "\<And>i. k \<le> i \<Longrightarrow> i < k + n \<Longrightarrow>
      dev st (replicate (Suc i) (Insw 0x1F0) @ L) = word_of (f (2 * i)) (f (2 * i + 1))"
    and "io_log st = replicate k (Insw 0x1F0) @ L"
  shows "read_words n st =
    (map f [2 * k..<2 * (k + n)], st\<lparr>io_log := replicate (k + n) (Insw 0x1F0) @ L\<rparr>)"
  using assms
proof (induction n arbitrary: k st)
  case 0
  then show ?case by simp
next
  case (Suc n)
  let ?st = "st\<lparr>io_log := Insw 0x1F0 # io_log st\<rparr>"
  have w: "insw 0x1F0 st = (word_of (f (2 * k)) (f (2 * k + 1)), ?st)"
    using Suc.prems(1) [of k] Suc.prems(2) by (simp add: insw_def)
  have "read_words n ?st = (map f [2 * Suc k..<2 * (Suc k + n)],
      ?st\<lparr>io_log := replicate (Suc k + n) (Insw 0x1F0) @ L\<rparr>)"
    using Suc.prems by (intro Suc.IH) auto
  then show ?case using w unfolding upt_two by (simp add: word_of_bytes)
qed

lemma disk_read_sector_image:
  assumes "ata (dev st) img" "unat lba < 268435456"
  shows "\<exists>log. disk_read_sector lba 1 st =
    Some (map (\<lambda>i. img (512 * unat lba + i)) [0..<512], st\<lparr>io_log := log\<rparr>)"
proof -
  let ?c = "ata_command lba (io_log st)" and ?f = "\<lambda>i. img (512 * unat lba + i)"
  obtain n where n: "\<forall>j < n. \<not> ready (dev st (replicate (Suc j) (Insb 0x1F7) @ ?c))"
    "ready (dev st (replicate (Suc n) (Insb 0x1F7) @ ?c))"
    "\<forall>k < 256. dev st (replicate (Suc k) (Insw 0x1F0) @ replicate (Suc n) (Insb 0x1F7) @ ?c) =
      word_of (img (512 * unat lba + 2 * k)) (img (512 * unat lba + 2 * k + 1))"
    using assms unfolding ata_def by meson
  let ?st1 = "st\<lparr>io_log := Insb 0x1F7 # ?c\<rparr>"
  let ?st2 = "st\<lparr>io_log := replicate (Suc n) (Insb 0x1F7) @ ?c\<rparr>"
  have "wait_ready (ucast (dev ?st1 (io_log ?st1))) ?st1 =
      Some (?st1\<lparr>io_log := replicate (Suc n) (Insb 0x1F7) @ ?c\<rparr>)"
    using n(1,2) by (intro wait_ready_log [of 0]) simp_all
  then have w: "wait_ready (ucast (dev st (Insb 0x1F7 # ?c))) ?st1 = Some ?st2" by simp
  have r: "read_words 256 ?st2 = (map ?f [2 * 0..<2 * (0 + 256)],
      ?st2\<lparr>io_log := replicate (0 + 256) (Insw 0x1F0) @ replicate (Suc n) (Insb 0x1F7) @ ?c\<rparr>)"
    using n(3) by (intro read_words_log) simp_all
  have "disk_read_sector lba 1 st = read_sectors 1 (st\<lparr>io_log := ?c\<rparr>)"
    by (simp add: disk_read_sector_def outb_def ata_command_def)
  also have "\<dots> = Some (map ?f [0..<512],
      st\<lparr>io_log := replicate 256 (Insw 0x1F0) @ replicate (Suc n) (Insb 0x1F7) @ ?c\<rparr>)"
    using w r by (simp add: insb_def del: replicate.simps read_words.simps)
  finally show ?thesis by blast
qed

lemma copy_out_spec:
  assumes "offset + i + n \<le> length buffer"
  shows "copy_out m p buffer (int offset) i n =
    Some (store m (p + of_nat i) (take n (drop (offset + i) buffer)))"
  using assms
proof (induction n arbitrary: m i)
  case 0
  then show ?case by simp
next
  case (Suc n)
  have d: "drop (offset + i) buffer = buffer ! (offset + i) # drop (offset + Suc i) buffer"
    using Suc.prems by (simp add: Cons_nth_drop_Suc)
  have "copy_out (m(p + of_nat i := buffer ! (offset + i))) p buffer (int offset) (Suc i) n =
      Some (store (m(p + of_nat i := buffer ! (offset + i))) (p + of_nat (Suc i)) (take n (drop (offset + Suc i) buffer)))"
    using Suc.prems by (intro Suc.IH) simp
  then show ?case using Suc.prems unfolding d by (simp add: nat_add_distrib algebra_simps)
qed

lemma copy_out_None:
  assumes "length buffer < offset + i + n" "offset + i \<le> length buffer"
  shows "copy_out m p buffer (int offset) i n = None"
  using assms
proof (induction n arbitrary: m i)
  case (Suc n)
  then show ?case by (cases "offset + i = length buffer") auto
qed simp

section \<open>Reading a stream\<close>

lemma sdiv_smod_nat:
  "int n sdiv 512 = int (n div 512)" "int n smod 512 = int (n mod 512)"
proof -
  show d: "int n sdiv 512 = int (n div 512)"
    by (cases "n = 0") (simp_all add: signed_divide_int_def zdiv_int)
  show "int n smod 512 = int (n mod 512)"
    by (cases "n = 0") (simp_all add: signed_modulo_int_def zmod_int)
qed

lemma map_img_drop: "take n (drop k (map f [0..<512])) = map f [k..<k + n]" if "k + n \<le> 512"
  using that by (simp add: drop_map take_map take_upt)

text \<open>One round: the part of one sector.\<close>

lemma disk_stream_read_round:
  assumes "ata (dev st) img" "streams st p = Some \<lparr>stream_pos = int n, stream_disk = disk_addr st\<rparr>"
    and "n < 2147483648" "0 < tot" "k = (if 512 < tot then 512 else nat tot)" "n mod 512 + k \<le> 512"
  shows "\<exists>log. disk_stream_read p out_ptr tot st =
    (let st' = st\<lparr>io_log := log, mem := store (mem st) out_ptr (map (\<lambda>i. img (n + i)) [0..<k]),
        streams := (streams st)(p \<mapsto> \<lparr>stream_pos = int (n + k), stream_disk = disk_addr st\<rparr>)\<rparr>
     in if 512 < tot then disk_stream_read p (out_ptr + 512) (tot - 512) st' else Some (0, st'))"
proof -
  let ?lba = "of_nat (n div 512) :: u32"
  have lba: "unat ?lba = n div 512" using assms(3) by (intro unat_of_nat_small) simp
  have "unat ?lba < 268435456" unfolding lba using assms(3) by simp
  from disk_read_sector_image [OF assms(1) this] obtain log where
    r: "disk_read_sector ?lba 1 st = Some (map (\<lambda>i. img (512 * (n div 512) + i)) [0..<512], st\<lparr>io_log := log\<rparr>)"
    unfolding lba by blast
  have e: "512 * (n div 512) + (n mod 512 + i) = n + i" for i using mult_div_mod_eq [of 512 n] by linarith
  have "take k (drop (n mod 512) (map (\<lambda>i. img (512 * (n div 512) + i)) [0..<512])) =
      map (\<lambda>i. img (n + i)) [0..<k]"
    using assms(6) e by (intro nth_equalityI) (auto simp: nth_append)
  then have c: "copy_out (mem st) out_ptr (map (\<lambda>i. img (512 * (n div 512) + i)) [0..<512]) (int (n mod 512)) 0 k =
      Some (store (mem st) out_ptr (map (\<lambda>i. img (n + i)) [0..<k]))"
    using copy_out_spec [of "n mod 512" 0 k] assms(6) by simp
  have k: "nat (if tot > 512 then 512 else tot) = k" "(if tot > 512 then 512 else tot) = int k"
    using assms(4,5) by simp_all
  have "\<not> tot \<le> 0" using assms(4) by simp
  then show ?thesis
    using assms(2) r c k
    by (subst disk_stream_read.simps, intro exI [of _ log])
      (auto simp: sdiv_smod_nat disk_read_block_def Let_def)
qed

lemma disk_stream_read_spec:
  assumes "ata (dev st) img" "streams st p = Some \<lparr>stream_pos = int n, stream_disk = disk_addr st\<rparr>"
    and "n + t < 2147483648" "n mod 512 = 0 \<or> n mod 512 + t \<le> 512"
  shows "\<exists>log. disk_stream_read p out_ptr (int t) st =
    Some (0, st\<lparr>io_log := log, mem := store (mem st) out_ptr (map (\<lambda>i. img (n + i)) [0..<t]),
        streams := (streams st)(p \<mapsto> \<lparr>stream_pos = int (n + t), stream_disk = disk_addr st\<rparr>)\<rparr>)"
  using assms
proof (induction t arbitrary: n out_ptr st rule: less_induct)
  case (less t)
  consider "t = 0" | "0 < t" "t \<le> 512" | "512 < t" by linarith
  then show ?case
  proof cases
    case 1
    then have "streams st = (streams st)(p \<mapsto> \<lparr>stream_pos = int (n + t), stream_disk = disk_addr st\<rparr>)"
      using less.prems(2) by (simp add: fun_upd_idem)
    with 1 show ?thesis
      using less.prems(2) by (subst disk_stream_read.simps) (auto intro!: exI [of _ "io_log st"])
  next
    case 2
    then show ?thesis
      using disk_stream_read_round [OF less.prems(1,2), of "int t" t out_ptr] less.prems(3,4)
      by (auto simp: Let_def fun_upd_def)
  next
    case 3
    let ?st = "\<lambda>log. st\<lparr>io_log := log, mem := store (mem st) out_ptr (map (\<lambda>i. img (n + i)) [0..<512]),
        streams := (streams st)(p \<mapsto> \<lparr>stream_pos = int (n + 512), stream_disk = disk_addr st\<rparr>)\<rparr>"
    have n0: "n mod 512 = 0" using 3 less.prems(4) by simp
    obtain log where r: "disk_stream_read p out_ptr (int t) st =
        disk_stream_read p (out_ptr + 512) (int t - 512) (?st log)"
      using disk_stream_read_round [OF less.prems(1,2), of "int t" 512 out_ptr] less.prems(3) 3 n0
      by (auto simp: Let_def)
    have t: "int t - 512 = int (t - 512)" using 3 by simp
    have "\<exists>log'. disk_stream_read p (out_ptr + 512) (int (t - 512)) (?st log) =
      Some (0, (?st log)\<lparr>io_log := log', mem := store (mem (?st log)) (out_ptr + 512)
          (map (\<lambda>i. img (n + 512 + i)) [0..<t - 512]),
        streams := (streams (?st log))(p \<mapsto> \<lparr>stream_pos = int (n + 512 + (t - 512)), stream_disk = disk_addr (?st log)\<rparr>)\<rparr>)"
      using 3 less.prems(1,3) n0 by (intro less.IH) auto
    then obtain log' where r': "disk_stream_read p (out_ptr + 512) (int (t - 512)) (?st log) =
      Some (0, (?st log)\<lparr>io_log := log', mem := store (mem (?st log)) (out_ptr + 512)
          (map (\<lambda>i. img (n + 512 + i)) [0..<t - 512]),
        streams := (streams (?st log))(p \<mapsto> \<lparr>stream_pos = int (n + 512 + (t - 512)), stream_disk = disk_addr (?st log)\<rparr>)\<rparr>)"
      by blast
    have "map (\<lambda>i. img (n + i)) [0..<t] =
        map (\<lambda>i. img (n + i)) [0..<512] @ map (\<lambda>i. img (n + 512 + i)) [0..<t - 512]"
      using 3 by (intro nth_equalityI) (auto simp: nth_append)
    then have "store (mem st) out_ptr (map (\<lambda>i. img (n + i)) [0..<t]) =
        store (store (mem st) out_ptr (map (\<lambda>i. img (n + i)) [0..<512])) (out_ptr + 512)
          (map (\<lambda>i. img (n + 512 + i)) [0..<t - 512])"
      by (simp add: store_append)
    then have "(?st log)\<lparr>io_log := log', mem := store (mem (?st log)) (out_ptr + 512)
          (map (\<lambda>i. img (n + 512 + i)) [0..<t - 512]),
        streams := (streams (?st log))(p \<mapsto> \<lparr>stream_pos = int (n + 512 + (t - 512)), stream_disk = disk_addr (?st log)\<rparr>)\<rparr> =
      st\<lparr>io_log := log', mem := store (mem st) out_ptr (map (\<lambda>i. img (n + i)) [0..<t]),
        streams := (streams st)(p \<mapsto> \<lparr>stream_pos = int (n + t), stream_disk = disk_addr st\<rparr>)\<rparr>"
      using 3 by simp
    then show ?thesis unfolding r t r' by blast
  qed
qed

section \<open>Properties\<close>

text \<open>
  C18: reading a stream.  On a device that answers the read command with the sectors of the
  image \<open>img\<close>, a read of \<open>t\<close> bytes from a stream at position \<open>n\<close> returns 0, stores the image's
  bytes from \<open>n\<close> on at the destination, changes no other byte and advances the position by
  \<open>t\<close>, provided that the position is at a sector boundary or the read ends within its sector.
\<close>

theorem disk_stream_read_image:
  assumes "ata (dev st) img" "streams st p = Some \<lparr>stream_pos = int n, stream_disk = disk_addr st\<rparr>"
    and "n + t < 2147483648" "n mod 512 = 0 \<or> n mod 512 + t \<le> 512"
  shows "\<exists>st'. disk_stream_read p out_ptr (int t) st = Some (0, st') \<and>
    (\<forall>a. mem st' a = (if a \<in> region out_ptr t then img (n + unat (a - out_ptr)) else mem st a)) \<and>
    streams st' = (streams st)(p \<mapsto> \<lparr>stream_pos = int (n + t), stream_disk = disk_addr st\<rparr>)"
proof -
  have "store (mem st) out_ptr (map (\<lambda>i. img (n + i)) [0..<t]) a =
      (if a \<in> region out_ptr t then img (n + unat (a - out_ptr)) else mem st a)" for a
    using assms(3) by (subst store_eq) (simp_all add: region_def)
  then show ?thesis using disk_stream_read_spec [OF assms, of out_ptr] by auto
qed

text \<open>A device for the witness: always ready, every byte of the disk is 7.\<close>

definition sevens_dev :: "port_op list \<Rightarrow> u16" where
  "sevens_dev log = (case log of Insw _ # _ \<Rightarrow> 0x0707 | _ \<Rightarrow> 0x08)"

lemma sevens_ata: "ata sevens_dev (\<lambda>_. 7)"
proof -
  have "word_of 7 7 = 0x0707" by (simp add: word_of_def)
  then show ?thesis
    by (auto simp: ata_def sevens_dev_def ready_def intro!: exI [of _ 0])
qed

definition disk_state_ex :: disk_state where
  "disk_state_ex =
     \<lparr>mem = \<lambda>_. 0, kernel_heap = heap_ex, console = [], current_directory = 0, cr3 = 0, cr0 = 0,
      path_nodes = Map.empty, root_paths = Map.empty, colon_slash = 0,
      dev = sevens_dev, io_log = [],
      disk = \<lparr>disk_id = 0, disk_type = 0, sector_size = 512, disk_fs = 0, fs_private = 0\<rparr>,
      disk_addr = 0x9000, streams = [0x8000 \<mapsto> \<lparr>stream_pos = 1024, stream_disk = 0x9000\<rparr>]\<rparr>"

theorem disk_stream_read_image_witness:
  "\<exists>st'. disk_stream_read 0x8000 0x6000 700 disk_state_ex = Some (0, st') \<and> mem st' 0x62BB = 7"
proof -
  have "ata (dev disk_state_ex) (\<lambda>_. 7)" by (simp add: disk_state_ex_def sevens_ata)
  moreover have "streams disk_state_ex 0x8000 =
      Some \<lparr>stream_pos = int 1024, stream_disk = disk_addr disk_state_ex\<rparr>" by (simp add: disk_state_ex_def)
  ultimately obtain st' where "disk_stream_read 0x8000 0x6000 (int 700) disk_state_ex = Some (0, st')"
    "mem st' 0x62BB = (if 0x62BB \<in> region 0x6000 700 then 7 else mem disk_state_ex 0x62BB)"
    using disk_stream_read_image [of disk_state_ex "\<lambda>_. 7" "0x8000" 1024 700 "0x6000"] by auto
  moreover have "(0x62BB :: addr) \<in> region 0x6000 700" by (simp add: region_def)
  ultimately show ?thesis by simp
qed

text \<open>
  A read that crosses a sector boundary from inside a sector reads the sector buffer
  beyond its 512 bytes: it never returns a value of the model, on any working device.
\<close>

lemma disk_stream_read_overreads:
  assumes "ata (dev st) img" "streams st p = Some \<lparr>stream_pos = int n, stream_disk = disk_addr st\<rparr>"
    and "n < 2147483648" "0 < t" "n mod 512 \<noteq> 0" "512 < n mod 512 + t"
  shows "disk_stream_read p out_ptr (int t) st = None"
proof -
  let ?lba = "of_nat (n div 512) :: u32" and ?k = "if int t > 512 then 512 else int t"
  have lba: "unat ?lba = n div 512" using assms(3) by (intro unat_of_nat_small) simp
  have "unat ?lba < 268435456" unfolding lba using assms(3) by simp
  define bs where "bs = map (\<lambda>i. img (512 * unat ?lba + i)) [0..<512]"
  from disk_read_sector_image [OF assms(1) \<open>unat ?lba < 268435456\<close>] obtain log where
    r: "disk_read_sector ?lba 1 st = Some (bs, st\<lparr>io_log := log\<rparr>)" unfolding bs_def by blast
  have len: "length bs = 512" by (simp add: bs_def)
  have "copy_out (mem st) out_ptr bs (int (n mod 512)) 0 (nat ?k) = None"
    using assms(5,6) len by (intro copy_out_None) auto
  then show ?thesis
    using assms(2,4) r
    by (subst disk_stream_read.simps) (simp add: sdiv_smod_nat disk_read_block_def Let_def)
qed

end
