(* ===== verification/Zhios_Fat16.thy ===== *)
theory Zhios_Fat16
  imports Zhios_Disk
begin

text \<open>
  The FAT16 driver, \<^verbatim>\<open>src/src/fs/fat/fat16.c\<close>.  What is read from the disk (the boot
  sector's header, directory entries, file contents) is bytes in memory, accessed at the
  offsets of the packed structures; the driver's own structures (directories, items,
  descriptors, the private data's stream pointers) are in typed stores.  Local arrays live at
  addresses that the stack provides, here the fields \<open>entry_buf\<close>, \<open>result_buf\<close> and
  \<open>filename_buf\<close> of the state.  As in the other theories \<open>None\<close> means that there is no value:
  an endless loop, an access to no object, a division by zero or the use of an uninitialised
  variable.
\<close>

section \<open>State\<close>

abbreviation (input) ATTR_READ_ONLY :: "'a::numeral" where
  "ATTR_READ_ONLY \<equiv> 0x01"

abbreviation (input) ATTR_DIRECTORY :: "'a::numeral" where
  "ATTR_DIRECTORY \<equiv> 0x10"

abbreviation (input) FAT16_ITEM_TYPE_DIRECTORY :: "'a::zero" where
  "FAT16_ITEM_TYPE_DIRECTORY \<equiv> 0"

abbreviation (input) FAT16_ITEM_TYPE_FILE :: "'a::one" where
  "FAT16_ITEM_TYPE_FILE \<equiv> 1"

abbreviation (input) FAT16_BOOT_SIGNATURE :: "'a::numeral" where
  "FAT16_BOOT_SIGNATURE \<equiv> 0x29"

abbreviation (input) FILE_MODE_READ :: "'a::zero" where
  "FILE_MODE_READ \<equiv> 0"

abbreviation (input) READ_ONLY :: "'a::one" where
  "READ_ONLY \<equiv> 1"

record Fat16Directory =
  directory_item :: addr
  dir_total :: int
  sector_pos :: int
  ending_sector_pos :: int

text \<open>The union of \<^verbatim>\<open>directory\<close> and \<^verbatim>\<open>item\<close> is one pointer.\<close>

record Fat16Item =
  item_ptr :: addr
  item_type :: u32

record Fat16Descriptor =
  desc_item :: addr
  desc_pos :: u32

text \<open>
  The header occupies the first 62 bytes of the private structure and stays in memory; the
  root directory is the structure at offset 64.
\<close>

record Fat16Private =
  cluster_read_stream :: addr
  fat_read_stream :: addr
  directory_stream :: addr

record fat_state = disk_state +
  fat_privates :: "addr \<rightharpoonup> Fat16Private"
  directories :: "addr \<rightharpoonup> Fat16Directory"
  fat_items :: "addr \<rightharpoonup> Fat16Item"
  fat_descriptors :: "addr \<rightharpoonup> Fat16Descriptor"
  fat16_fs :: addr
  dot_lit :: addr
  entry_buf :: addr
  result_buf :: addr
  filename_buf :: addr

section \<open>Packed structures\<close>

definition sectors_per_cluster :: "memory \<Rightarrow> addr \<Rightarrow> int" where
  "sectors_per_cluster m priv = uint (m (priv + 13))"

definition reserved_sector_count :: "memory \<Rightarrow> addr \<Rightarrow> int" where
  "reserved_sector_count m priv = uint (read16 m (priv + 14))"

definition number_of_fat :: "memory \<Rightarrow> addr \<Rightarrow> int" where
  "number_of_fat m priv = uint (m (priv + 16))"

definition root_entry_count :: "memory \<Rightarrow> addr \<Rightarrow> int" where
  "root_entry_count m priv = uint (read16 m (priv + 17))"

definition sectors_per_fat :: "memory \<Rightarrow> addr \<Rightarrow> int" where
  "sectors_per_fat m priv = uint (read16 m (priv + 22))"

definition boot_signature :: "memory \<Rightarrow> addr \<Rightarrow> u8" where
  "boot_signature m priv = m (priv + 38)"

definition entry_extension :: "addr \<Rightarrow> addr" where
  "entry_extension entry = entry + 8"

definition entry_attribute :: "memory \<Rightarrow> addr \<Rightarrow> u8" where
  "entry_attribute m entry = m (entry + 11)"

definition first_cluster_high_byte :: "memory \<Rightarrow> addr \<Rightarrow> u16" where
  "first_cluster_high_byte m entry = read16 m (entry + 20)"

definition first_cluster_low_byte :: "memory \<Rightarrow> addr \<Rightarrow> u16" where
  "first_cluster_low_byte m entry = read16 m (entry + 26)"

definition entry_file_size :: "memory \<Rightarrow> addr \<Rightarrow> u32" where
  "entry_file_size m entry = read32 m (entry + 28)"

section \<open>Access to the stores\<close>

definition disk_at :: "addr \<Rightarrow> 'a disk_state_scheme \<Rightarrow> disk option" where
  "disk_at d st = (if d = disk_addr st then Some (disk st) else None)"

definition upd_private ::
  "(Fat16Private \<Rightarrow> Fat16Private) \<Rightarrow> addr \<Rightarrow> 'a fat_state_scheme \<Rightarrow> 'a fat_state_scheme option" where
  "upd_private f a st = do {
     x \<leftarrow> fat_privates st a;
     Some (st\<lparr>fat_privates := (fat_privates st)(a \<mapsto> f x)\<rparr>) }"

definition upd_directory ::
  "(Fat16Directory \<Rightarrow> Fat16Directory) \<Rightarrow> addr \<Rightarrow> 'a fat_state_scheme \<Rightarrow> 'a fat_state_scheme option" where
  "upd_directory f a st = do {
     x \<leftarrow> directories st a;
     Some (st\<lparr>directories := (directories st)(a \<mapsto> f x)\<rparr>) }"

definition upd_item ::
  "(Fat16Item \<Rightarrow> Fat16Item) \<Rightarrow> addr \<Rightarrow> 'a fat_state_scheme \<Rightarrow> 'a fat_state_scheme option" where
  "upd_item f a st = do {
     x \<leftarrow> fat_items st a;
     Some (st\<lparr>fat_items := (fat_items st)(a \<mapsto> f x)\<rparr>) }"

definition upd_descriptor ::
  "(Fat16Descriptor \<Rightarrow> Fat16Descriptor) \<Rightarrow> addr \<Rightarrow> 'a fat_state_scheme \<Rightarrow> 'a fat_state_scheme option" where
  "upd_descriptor f a st = do {
     x \<leftarrow> fat_descriptors st a;
     Some (st\<lparr>fat_descriptors := (fat_descriptors st)(a \<mapsto> f x)\<rparr>) }"

definition root_directory :: "addr \<Rightarrow> addr" where
  "root_directory priv = priv + 64"

section \<open>Mounting\<close>

definition init_fat16_private ::
  "addr \<Rightarrow> addr \<Rightarrow> 'a fat_state_scheme \<Rightarrow> (int \<times> 'a fat_state_scheme) option" where
  "init_fat16_private priv dp st = do {
     d \<leftarrow> disk_at dp st;
     let (s1, st1) = disk_stream_open (disk_id d) st;
     st1 \<leftarrow> upd_private (\<lambda>p. p\<lparr>cluster_read_stream := s1\<rparr>) priv st1;
     let (s2, st2) = disk_stream_open (disk_id d) st1;
     st2 \<leftarrow> upd_private (\<lambda>p. p\<lparr>fat_read_stream := s2\<rparr>) priv st2;
     let (s3, st3) = disk_stream_open (disk_id d) st2;
     st3 \<leftarrow> upd_private (\<lambda>p. p\<lparr>directory_stream := s3\<rparr>) priv st3;
     if s1 = 0 \<or> s2 = 0 \<or> s3 = 0 then Some (- EIO, st3) else Some (0, st3) }"

definition verify_signature :: "memory \<Rightarrow> addr \<Rightarrow> int" where
  "verify_signature m priv = (if boot_signature m priv \<noteq> FAT16_BOOT_SIGNATURE then - EINARG else 0)"

definition fat16_free_directory ::
  "addr \<Rightarrow> 'a fat_state_scheme \<Rightarrow> 'a fat_state_scheme option" where
  "fat16_free_directory directory st =
     (if directory = 0 then Some st
      else do {
        d \<leftarrow> directories st directory;
        let st1 = (if directory_item d \<noteq> 0 then kfree (directory_item d) st else st);
        Some (kfree directory st1) })"

definition fat16_free_item :: "addr \<Rightarrow> 'a fat_state_scheme \<Rightarrow> 'a fat_state_scheme option" where
  "fat16_free_item item st = do {
     it \<leftarrow> fat_items st item;
     st1 \<leftarrow> (if item_type it = FAT16_ITEM_TYPE_DIRECTORY then fat16_free_directory (item_ptr it) st
             else if item_type it = FAT16_ITEM_TYPE_FILE then Some (kfree (item_ptr it) st)
             else Some st);
     Some (kfree item st1) }"

partial_function (option) total_entries_loop ::
  "addr \<Rightarrow> int \<Rightarrow> 'a fat_state_scheme \<Rightarrow> (int \<times> 'a fat_state_scheme) option" where
  "total_entries_loop stream i st =
     Option.bind (disk_stream_read stream (entry_buf st) 32 st) (\<lambda>(r, st1).
       if r \<noteq> 0 then Some (- EIO, st1)
       else if mem st1 (entry_buf st1) = 0 then Some (i, st1)
       else if mem st1 (entry_buf st1) = 0xE5 then total_entries_loop stream i st1
       else total_entries_loop stream (i + 1) st1)"

definition get_total_entries_for_directory ::
  "addr \<Rightarrow> u32 \<Rightarrow> 'a fat_state_scheme \<Rightarrow> (int \<times> 'a fat_state_scheme) option" where
  "get_total_entries_for_directory dp start_sector st = do {
     d \<leftarrow> disk_at dp st;
     let (stream, st1) = disk_stream_open (disk_id d) st;
     (_, st2) \<leftarrow> disk_stream_seek stream (sint (start_sector * of_int (sector_size d))) st1;
     let st3 = st2\<lparr>mem := memset (mem st2) (entry_buf st2) 0 32\<rparr>;
     (res, st4) \<leftarrow> total_entries_loop stream 0 st3;
     Some (res, disk_stream_close stream st4) }"

definition init_root_directory ::
  "addr \<Rightarrow> addr \<Rightarrow> 'a fat_state_scheme \<Rightarrow> (int \<times> 'a fat_state_scheme) option" where
  "init_root_directory priv dp st = do {
     d \<leftarrow> disk_at dp st;
     p \<leftarrow> fat_privates st priv;
     let m = mem st;
     let root_directory_sector_start =
       reserved_sector_count m priv + number_of_fat m priv * sectors_per_fat m priv;
     let root_dir_size = root_entry_count m priv * 32;
     let (ents, st1) = kzalloc (of_int root_dir_size) st;
     if ents = 0 then Some (- EMEM, st1)
     else do {
       let dir_stream = directory_stream p;
       (r, st2) \<leftarrow> disk_stream_seek dir_stream (root_directory_sector_start * sector_size d) st1;
       if r \<noteq> 0 then Some (- EIO, kfree ents st2)
       else do {
         (r, st3) \<leftarrow> disk_stream_read dir_stream ents root_dir_size st2;
         if r \<noteq> 0 then Some (- EIO, kfree ents st3)
         else do {
           st4 \<leftarrow> upd_directory (\<lambda>x. x\<lparr>directory_item := ents\<rparr>) (root_directory priv) st3;
           (tot, st5) \<leftarrow> get_total_entries_for_directory dp (of_int root_directory_sector_start) st4;
           st6 \<leftarrow> upd_directory (\<lambda>x. x\<lparr>dir_total := tot, sector_pos := root_directory_sector_start,
                     ending_sector_pos := root_directory_sector_start + root_dir_size sdiv sector_size d\<rparr>)
                   (root_directory priv) st5;
           Some (0, st6) } } } }"

text \<open>
  \<open>fat16_resolve\<close>: when \<open>init_fat16_private\<close> fails, the cleanup closes a stream variable that
  was never assigned.
\<close>

definition fat16_resolve ::
  "addr \<Rightarrow> 'a fat_state_scheme \<Rightarrow> (int \<times> 'a fat_state_scheme) option" where
  "fat16_resolve dp st = do {
     let (priv, st1) = kzalloc 92 st;
     let st1 = st1\<lparr>fat_privates := (fat_privates st1)
             (priv \<mapsto> \<lparr>cluster_read_stream = 0, fat_read_stream = 0, directory_stream = 0\<rparr>),
           directories := (directories st1)(root_directory priv \<mapsto>
             \<lparr>directory_item = 0, dir_total = 0, sector_pos = 0, ending_sector_pos = 0\<rparr>)\<rparr>;
     (res, st2) \<leftarrow> init_fat16_private priv dp st1;
     if res \<noteq> 0 then None
     else do {
       d \<leftarrow> disk_at dp st2;
       let st3 = st2\<lparr>disk := d\<lparr>fs_private := priv, disk_fs := fat16_fs st2\<rparr>\<rparr>;
       let (stream, st4) = disk_stream_open (disk_id d) st3;
       (res, st7) \<leftarrow>
         (if stream = 0 then Some (- EMEM, st4)
          else do {
            (r, st5) \<leftarrow> disk_stream_read stream priv 62 st4;
            if r \<noteq> 0 then Some (- EIO, st5)
            else (let v = verify_signature (mem st5) priv
                  in if v \<noteq> 0 then Some (v, st5) else init_root_directory priv dp st5) });
       let st8 = disk_stream_close stream st7;
       if res < 0
       then Some (res, (kfree priv st8)\<lparr>disk := (disk st8)\<lparr>disk_fs := 0, fs_private := 0\<rparr>\<rparr>)
       else Some (res, st8) } }"

section \<open>Clusters\<close>

definition fat16_clone_directory_item ::
  "addr \<Rightarrow> int \<Rightarrow> 'a fat_state_scheme \<Rightarrow> addr \<times> 'a fat_state_scheme" where
  "fat16_clone_directory_item item sz st =
     (if (of_int sz :: u32) < 32 then (0, st)
      else (let (copy, st1) = kzalloc (of_int sz) st in
            if copy = 0 then (0, st1)
            else (copy, st1\<lparr>mem := memcpy (mem st1) item copy sz\<rparr>)))"

definition get_first_cluster :: "memory \<Rightarrow> addr \<Rightarrow> u32" where
  "get_first_cluster m entry =
     push_bit 16 (ucast (first_cluster_high_byte m entry)) OR ucast (first_cluster_low_byte m entry)"

definition cluster_to_sector :: "addr \<Rightarrow> int \<Rightarrow> 'a fat_state_scheme \<Rightarrow> int option" where
  "cluster_to_sector priv cluster st = do {
     rd \<leftarrow> directories st (root_directory priv);
     Some (ending_sector_pos rd + (cluster - 2) * sectors_per_cluster (mem st) priv) }"

text \<open>The table is read at offset \<open>(cluster - 1) * 2\<close>, the slot before the cluster's own.\<close>

definition get_fat_entry ::
  "addr \<Rightarrow> int \<Rightarrow> 'a fat_state_scheme \<Rightarrow> (int \<times> 'a fat_state_scheme) option" where
  "get_fat_entry dp cluster_to_use st = do {
     d \<leftarrow> disk_at dp st;
     p \<leftarrow> fat_privates st (fs_private d);
     let stream = fat_read_stream p;
     if stream = 0 then Some (- EIO, st)
     else do {
       let fat_position = (of_int (reserved_sector_count (mem st) (fs_private d) * sector_size d) :: u32);
       let cluster_offset = (of_int ((cluster_to_use - 1) * 2) :: u32);
       (_, st1) \<leftarrow> disk_stream_seek stream (sint (fat_position + cluster_offset)) st;
       let st2 = st1\<lparr>mem := (mem st1)(result_buf st1 := 0, result_buf st1 + 1 := 0)\<rparr>;
       (res, st3) \<leftarrow> disk_stream_read stream (result_buf st2) 2 st2;
       if res < 0 then Some (res, st3)
       else Some (uint (read16 (mem st3) (result_buf st3)), st3) } }"

fun cluster_chain ::
  "addr \<Rightarrow> int \<Rightarrow> nat \<Rightarrow> 'a fat_state_scheme \<Rightarrow> (int \<times> 'a fat_state_scheme) option" where
  "cluster_chain dp cluster_to_use 0 st = Some (cluster_to_use, st)"
| "cluster_chain dp cluster_to_use (Suc left) st = do {
     (entry, st1) \<leftarrow> get_fat_entry dp cluster_to_use st;
     if entry = 0xFFF8 \<or> entry = 0xFFFF then Some (- EIO, st1)
     else if entry = 0xFF7 then Some (- EIO, st1)
     else if entry = 0xFF0 \<or> entry = 0xFF6 then Some (- EIO, st1)
     else if entry = 0x00 then Some (- EIO, st1)
     else cluster_chain dp entry left st1 }"

definition get_cluster_for_offset ::
  "addr \<Rightarrow> int \<Rightarrow> int \<Rightarrow> 'a fat_state_scheme \<Rightarrow> (int \<times> 'a fat_state_scheme) option" where
  "get_cluster_for_offset dp cluster offset st = do {
     d \<leftarrow> disk_at dp st;
     p \<leftarrow> fat_privates st (fs_private d);
     let size_of_cluster_bytes = sectors_per_cluster (mem st) (fs_private d) * sector_size d;
     if size_of_cluster_bytes = 0 then None
     else cluster_chain dp cluster (nat (offset sdiv size_of_cluster_bytes)) st }"

text \<open>
  \<open>read_entries\<close> uses the result of \<open>get_cluster_for_offset\<close> without looking at its sign, and
  it returns the bytes read so far when the stream reports an error.
\<close>

partial_function (option) read_entries ::
  "addr \<Rightarrow> addr \<Rightarrow> int \<Rightarrow> int \<Rightarrow> int \<Rightarrow> addr \<Rightarrow> 'a fat_state_scheme \<Rightarrow> (int \<times> 'a fat_state_scheme) option" where
  "read_entries dp stream cluster offset sz out_ptr st =
     Option.bind (disk_at dp st) (\<lambda>d.
     Option.bind (get_cluster_for_offset dp cluster offset st) (\<lambda>(cluster_to_use, st1).
     Option.bind (cluster_to_sector (fs_private d) cluster_to_use st1) (\<lambda>start_sector.
       let size_of_cluster_in_bytes = sectors_per_cluster (mem st) (fs_private d) * sector_size d;
           offset_from_cluster = offset smod size_of_cluster_in_bytes;
           total_to_read = (if sz > size_of_cluster_in_bytes then size_of_cluster_in_bytes else sz);
           start_pos = start_sector * sector_size d + offset_from_cluster
       in Option.bind (disk_stream_seek stream start_pos st1) (\<lambda>(_, st2).
          Option.bind (disk_stream_read stream out_ptr total_to_read st2) (\<lambda>(res, st3).
            if res < 0 then Some (0, st3)
            else if sz - total_to_read > 0
            then Option.bind (read_entries dp stream cluster (offset + total_to_read) (sz - total_to_read)
                   (out_ptr + of_int total_to_read) st3) (\<lambda>(n, st4).
                   Some (total_to_read + n, st4))
            else Some (total_to_read, st3))))))"

definition load_entries_from_cluster ::
  "addr \<Rightarrow> int \<Rightarrow> int \<Rightarrow> int \<Rightarrow> addr \<Rightarrow> 'a fat_state_scheme \<Rightarrow> (int \<times> 'a fat_state_scheme) option" where
  "load_entries_from_cluster dp start_cluster offset sz out_ptr st = do {
     d \<leftarrow> disk_at dp st;
     p \<leftarrow> fat_privates st (fs_private d);
     read_entries dp (cluster_read_stream p) start_cluster offset sz out_ptr st }"

section \<open>Directories and items\<close>

text \<open>\<open>load_directory\<close> releases the directory it returns when nothing was read.\<close>

definition load_directory ::
  "addr \<Rightarrow> addr \<Rightarrow> 'a fat_state_scheme \<Rightarrow> (addr \<times> 'a fat_state_scheme) option" where
  "load_directory dp entry st = do {
     d \<leftarrow> disk_at dp st;
     let (directory, st1) = kzalloc 16 st;
     let st1 = st1\<lparr>directories := (directories st1)(directory \<mapsto>
           \<lparr>directory_item = 0, dir_total = 0, sector_pos = 0, ending_sector_pos = 0\<rparr>)\<rparr>;
     let cluster = sint (get_first_cluster (mem st1) entry);
     sector \<leftarrow> cluster_to_sector (fs_private d) cluster st1;
     (tot, st2) \<leftarrow> get_total_entries_for_directory dp (of_int sector) st1;
     st3 \<leftarrow> upd_directory (\<lambda>x. x\<lparr>dir_total := tot\<rparr>) directory st2;
     let directory_size = tot * 32;
     let (items, st4) = kzalloc (of_int directory_size) st3;
     st5 \<leftarrow> upd_directory (\<lambda>x. x\<lparr>directory_item := items\<rparr>) directory st4;
     (res, st6) \<leftarrow> (if items = 0 then Some (- EMEM, st5)
                   else load_entries_from_cluster dp cluster 0 directory_size items st5);
     st7 \<leftarrow> (if res = 0 then fat16_free_directory directory st6 else Some st6);
     Some (directory, st7) }"

definition new_fat16_item ::
  "addr \<Rightarrow> addr \<Rightarrow> 'a fat_state_scheme \<Rightarrow> (addr \<times> 'a fat_state_scheme) option" where
  "new_fat16_item dp entry st =
     (let (fat_item, st1) = kzalloc 8 st in
      if fat_item = 0 then Some (0, st1)
      else do {
        let st1 = st1\<lparr>fat_items := (fat_items st1)(fat_item \<mapsto> \<lparr>item_ptr = 0, item_type = 0\<rparr>)\<rparr>;
        if entry_attribute (mem st1) entry AND ATTR_DIRECTORY \<noteq> 0
        then do {
          st2 \<leftarrow> upd_item (\<lambda>x. x\<lparr>item_type := FAT16_ITEM_TYPE_DIRECTORY\<rparr>) fat_item st1;
          (dir, st3) \<leftarrow> load_directory dp entry st2;
          st4 \<leftarrow> upd_item (\<lambda>x. x\<lparr>item_ptr := dir\<rparr>) fat_item st3;
          Some (fat_item, st4) }
        else do {
          st2 \<leftarrow> upd_item (\<lambda>x. x\<lparr>item_type := FAT16_ITEM_TYPE_FILE\<rparr>) fat_item st1;
          let (copy, st3) = fat16_clone_directory_item entry 32 st2;
          st4 \<leftarrow> upd_item (\<lambda>x. x\<lparr>item_ptr := copy\<rparr>) fat_item st3;
          Some (fat_item, st4) } })"

definition get_fat16_filename ::
  "addr \<Rightarrow> addr \<Rightarrow> 'a fat_state_scheme \<Rightarrow> 'a fat_state_scheme option" where
  "get_fat16_filename entry filename st = do {
     m1 \<leftarrow> rstrip (mem st) entry filename;
     if m1 (entry_extension entry) \<noteq> 0 \<and> m1 (entry_extension entry) \<noteq> 0x20
     then do {
       m2 \<leftarrow> strcat m1 filename (dot_lit st) filename;
       m3 \<leftarrow> strcat m2 filename (entry_extension entry) filename;
       m4 \<leftarrow> rstrip m3 filename filename;
       Some (st\<lparr>mem := m4\<rparr>) }
     else Some (st\<lparr>mem := m1\<rparr>) }"

text \<open>The scan of a directory for a name: the new item, or the null pointer.\<close>

fun scan_directory ::
  "addr \<Rightarrow> addr \<Rightarrow> addr \<Rightarrow> nat \<Rightarrow> nat \<Rightarrow> 'a fat_state_scheme \<Rightarrow> (addr \<times> 'a fat_state_scheme) option" where
  "scan_directory dp items name i 0 st = Some (0, st)"
| "scan_directory dp items name i (Suc left) st = do {
     let entry = items + 32 * of_nat i;
     let st1 = st\<lparr>mem := memset (mem st) (filename_buf st) 0 ZHIOS_MAX_PATH\<rparr>;
     st2 \<leftarrow> get_fat16_filename entry (filename_buf st1) st1;
     path_len \<leftarrow> strlen (mem st2) name;
     filename_len \<leftarrow> strlen (mem st2) (filename_buf st2);
     if filename_len \<noteq> path_len then scan_directory dp items name (Suc i) left st2
     else if istrncmp (mem st2) (filename_buf st2) name (int filename_len) = 0
     then new_fat16_item dp entry st2
     else scan_directory dp items name (Suc i) left st2 }"

text \<open>
  When the name is not found and the path goes on, the code reads the type of the null
  item; there is no such item.
\<close>

partial_function (option) find_item_in_directory ::
  "addr \<Rightarrow> addr \<Rightarrow> addr \<Rightarrow> 'a fat_state_scheme \<Rightarrow> (addr \<times> 'a fat_state_scheme) option" where
  "find_item_in_directory dp directory path st =
     Option.bind (directories st directory) (\<lambda>d.
     Option.bind (path_nodes st path) (\<lambda>nd.
     Option.bind (scan_directory dp (directory_item d) (path_name nd) 0 (nat (dir_total d)) st) (\<lambda>(item, st1).
       if path_next nd = 0 then Some (item, st1)
       else Option.bind (fat_items st1 item) (\<lambda>it.
         if item_type it \<noteq> FAT16_ITEM_TYPE_DIRECTORY then Some (0, st1)
         else find_item_in_directory dp (item_ptr it) (path_next nd) st1))))"

definition get_fat16_directory_item ::
  "addr \<Rightarrow> addr \<Rightarrow> 'a fat_state_scheme \<Rightarrow> (addr \<times> 'a fat_state_scheme) option" where
  "get_fat16_directory_item dp path st = do {
     d \<leftarrow> disk_at dp st;
     find_item_in_directory dp (root_directory (fs_private d)) path st }"

section \<open>The operations of the file system\<close>

definition fat16_open ::
  "addr \<Rightarrow> addr \<Rightarrow> u32 \<Rightarrow> 'a fat_state_scheme \<Rightarrow> (addr \<times> 'a fat_state_scheme) option" where
  "fat16_open dp path mode st =
     (if mode \<noteq> FILE_MODE_READ then Some (0, st)
      else (let (descriptor, st1) = kzalloc 8 st in
        if descriptor = 0 then Some (0, st1)
        else do {
          (item, st2) \<leftarrow> get_fat16_directory_item dp path st1;
          let st3 = st2\<lparr>fat_descriptors := (fat_descriptors st2)
                (descriptor \<mapsto> \<lparr>desc_item = item, desc_pos = 0\<rparr>)\<rparr>;
          if item = 0 then Some (0, kfree descriptor st3)
          else do {
            it \<leftarrow> fat_items st3 item;
            st4 \<leftarrow> get_fat16_filename (item_ptr it) (filename_buf st3) st3;
            Some (descriptor, st4) } }))"

definition fat16_read ::
  "addr \<Rightarrow> addr \<Rightarrow> int \<Rightarrow> addr \<Rightarrow> 'a fat_state_scheme \<Rightarrow> (int \<times> 'a fat_state_scheme) option" where
  "fat16_read dp fd sz out_ptr st = do {
     desc \<leftarrow> fat_descriptors st fd;
     it \<leftarrow> fat_items st (desc_item desc);
     (res, st1) \<leftarrow> load_entries_from_cluster dp (sint (get_first_cluster (mem st) (item_ptr it)))
                    (sint (desc_pos desc)) sz out_ptr st;
     st2 \<leftarrow> upd_descriptor (\<lambda>x. x\<lparr>desc_pos := desc_pos x + of_int res\<rparr>) fd st1;
     Some (res, st2) }"

definition fat16_seek ::
  "addr \<Rightarrow> int \<Rightarrow> 'a fat_state_scheme \<Rightarrow> (int \<times> 'a fat_state_scheme) option" where
  "fat16_seek priv p st = do {
     desc \<leftarrow> fat_descriptors st priv;
     it \<leftarrow> fat_items st (desc_item desc);
     if item_type it \<noteq> FAT16_ITEM_TYPE_FILE then Some (- EINARG, st)
     else if of_int p \<ge> entry_file_size (mem st) (item_ptr it) then Some (- EIO, st)
     else do {
       st1 \<leftarrow> upd_descriptor (\<lambda>x. x\<lparr>desc_pos := of_int p\<rparr>) priv st;
       Some (0, st1) } }"

text \<open>The caller's \<^verbatim>\<open>struct FileStat\<close>: a name of 100 bytes, then the attributes and the size.\<close>

definition fat16_stat ::
  "addr \<Rightarrow> addr \<Rightarrow> 'a fat_state_scheme \<Rightarrow> (int \<times> 'a fat_state_scheme) option" where
  "fat16_stat priv stat st = do {
     desc \<leftarrow> fat_descriptors st priv;
     it \<leftarrow> fat_items st (desc_item desc);
     let entry = item_ptr it;
     st1 \<leftarrow> get_fat16_filename entry stat st;
     let m1 = write32 (mem st1) (stat + 104) (entry_file_size (mem st1) entry);
     let m2 = write32 m1 (stat + 100) 0;
     let m3 = (if entry_attribute m2 entry AND ATTR_READ_ONLY \<noteq> 0
               then write32 m2 (stat + 100) (read32 m2 (stat + 100) OR READ_ONLY) else m2);
     Some (0, st1\<lparr>mem := m3\<rparr>) }"

definition fat16_close :: "addr \<Rightarrow> 'a fat_state_scheme \<Rightarrow> 'a fat_state_scheme option" where
  "fat16_close priv st = do {
     desc \<leftarrow> fat_descriptors st priv;
     it \<leftarrow> fat_items st (desc_item desc);
     Some (kfree (desc_item desc) (kfree (item_ptr it) st)) }"

section \<open>File names\<close>

definition fat_name :: "u8 list \<Rightarrow> u8 list" where
  "fat_name s = takeWhile (\<lambda>c. c \<noteq> 0x20) s @
     (if length s \<le> 8 \<or> s ! 8 = 0x20 then [] else 0x2E # takeWhile (\<lambda>c. c \<noteq> 0x20) (drop 8 s))"

lemma store_frame:
  assumes "region q k \<inter> region p n = {}" "length bs \<le> n" "n \<le> 4294967296" "a \<in> region q k"
  shows "store m p bs a = m a"
proof -
  have "a \<notin> region p (length bs)" using assms region_mono [of "length bs" n p] by auto
  then show ?thesis using assms(2,3) by (simp add: store_eq)
qed

lemma store_cstr_frame:
  assumes "cstr m q t" "region q (Suc (length t)) \<inter> region p n = {}" "length bs \<le> n" "n \<le> 4294967296"
  shows "cstr (store m p bs) q t"
  using assms by (auto intro!: cstr_cong [OF assms(1)] store_frame)

lemma get_fat16_filename_spec:
  assumes "cstr (mem st) entry s" "8 \<le> length s" "2 * length s + 2 \<le> 100" "cstr (mem st) (dot_lit st) [0x2E]"
    and "region entry (Suc (length s)) \<inter> region buf 100 = {}" "region (dot_lit st) 2 \<inter> region buf 100 = {}"
  shows "\<exists>m. get_fat16_filename entry buf st = Some (st\<lparr>mem := m\<rparr>) \<and> cstr m buf (fat_name s) \<and>
    (\<forall>a. a \<notin> region buf 100 \<longrightarrow> m a = mem st a)"
proof -
  let ?m = "mem st" and ?w = "takeWhile (\<lambda>c. c \<noteq> 0x20) s" and ?e = "drop 8 s"
  have w: "length ?w \<le> length s" by (rule length_takeWhile_le)
  have nz: "0 \<notin> set s" using assms(1) by (rule cstr_nonzero)
  then have nzw: "0 \<notin> set ?w" "0 \<notin> set ?e" by (auto dest: set_takeWhileD in_set_dropD)
  define m1 where "m1 = store ?m buf (?w @ [0])"
  have "safe_copy entry buf (length s)" using assms(5) by (rule safe_copy_disjoint) simp
  then have r1: "rstrip ?m entry buf = Some m1" using rstrip_store [OF assms(1)] by (simp add: m1_def)
  have d2: "region (dot_lit st) (Suc (length [0x2E :: u8])) \<inter> region buf 100 = {}"
    using assms(6) by (simp add: numeral_2_eq_2)
  have lw: "length (?w @ [0]) \<le> 100" using w assms(3) by simp
  have f1: "cstr m1 entry s" "cstr m1 (dot_lit st) [0x2E]" "cstr m1 buf ?w"
    unfolding m1_def
    by (rule store_cstr_frame [OF assms(1,5) lw], simp, rule store_cstr_frame [OF assms(4) d2 lw], simp,
        rule cstr_store [OF nzw(1)], use lw in simp)
  have e1: "m1 (entry + 8) = (if length s = 8 then 0 else s ! 8)"
    using f1(1) assms(2) unfolding cstr_iff by (auto dest: spec [of _ 8])
  have out1: "m1 a = ?m a" if "a \<notin> region buf 100" for a
    using that w assms(3) region_mono [of "length (?w @ [0])" 100 buf] unfolding m1_def by (subst store_eq) auto
  show ?thesis
  proof (cases "length s \<le> 8 \<or> s ! 8 = 0x20")
    case True
    then have "get_fat16_filename entry buf st = Some (st\<lparr>mem := m1\<rparr>)"
      using r1 e1 assms(2) by (auto simp: get_fat16_filename_def entry_extension_def)
    moreover have "fat_name s = ?w" using True by (simp add: fat_name_def)
    ultimately show ?thesis using f1(3) out1 by auto
  next
    case False
    let ?v = "?w @ [0x2E]"
    have sub: "region buf k \<subseteq> region buf 100" if "k \<le> 100" for k using that by (rule region_mono)
    have lv: "length ?v + Suc (length ?e) \<le> 100" using w assms(2,3) by simp
    define m2 where "m2 = store m1 buf (?v @ [0])"
    have "region (dot_lit st) (Suc (length [0x2E :: u8])) \<inter> region buf (length ?w + Suc (length [0x2E :: u8])) = {}"
      using d2 sub [of "length ?w + Suc (length [0x2E :: u8])"] lv by auto
    then have r2: "strcat m1 buf (dot_lit st) buf = Some m2"
      using strcat_store [OF f1(3,2)] lv unfolding m2_def by simp
    have f2: "cstr m2 entry s" "cstr m2 buf ?v"
      unfolding m2_def
      by (rule store_cstr_frame [OF f1(1) assms(5)], use lv in simp, simp,
          rule cstr_store, use lv nzw in simp_all)
    have c2: "cstr m2 (entry + 8) ?e" using cstr_drop [OF f2(1), of 8] assms(2) by simp
    have sube: "region (entry + 8) (Suc (length ?e)) \<subseteq> region entry (Suc (length s))"
      using region_shift_subset [of 8 "Suc (length ?e)" "Suc (length s)" entry] assms(2,3) by simp
    define m3 where "m3 = store m2 buf (?v @ ?e @ [0])"
    have "region (entry + 8) (Suc (length ?e)) \<inter> region buf (length ?v + Suc (length ?e)) = {}"
      using assms(5) sube sub [OF lv] by blast
    then have r3: "strcat m2 buf (entry + 8) buf = Some m3"
      using strcat_store [OF f2(2) c2] lv unfolding m3_def by simp
    have f3: "cstr m3 buf (?v @ ?e)"
      using nzw lv cstr_store [of "?v @ ?e" m2 buf] unfolding m3_def by simp
    define m4 where "m4 = store m3 buf (takeWhile (\<lambda>c. c \<noteq> 0x20) (?v @ ?e) @ [0])"
    have r4: "rstrip m3 buf buf = Some m4" using rstrip_store [OF f3] by (simp add: m4_def)
    have name: "takeWhile (\<lambda>c. c \<noteq> 0x20) (?v @ ?e) = fat_name s"
    proof -
      have "\<forall>c \<in> set ?v. c \<noteq> 0x20" by (auto dest: set_takeWhileD)
      then have "takeWhile (\<lambda>c. c \<noteq> 0x20) (?v @ ?e) = ?v @ takeWhile (\<lambda>c. c \<noteq> 0x20) ?e"
        by (intro takeWhile_append2) blast
      then show ?thesis using False by (simp add: fat_name_def)
    qed
    have ln: "length (fat_name s) < 100"
      unfolding name [symmetric] using lv length_takeWhile_le [of "\<lambda>c. c \<noteq> 0x20" "?v @ ?e"] by simp
    have "cstr m4 buf (fat_name s)"
    proof -
      have "0 \<notin> set (fat_name s)" unfolding name [symmetric] using nzw by (auto dest!: set_takeWhileD)
      then show ?thesis unfolding m4_def name using ln by (intro cstr_store) simp_all
    qed
    moreover have "m4 a = ?m a" if "a \<notin> region buf 100" for a
    proof -
      have no: "a \<notin> region buf k" if "k \<le> 100" for k using sub [OF that] \<open>a \<notin> region buf 100\<close> by blast
      show ?thesis
        using no [of "length (fat_name s @ [0])"] no [of "length (?v @ ?e @ [0])"] no [of "length (?v @ [0])"]
          out1 [OF that] lv ln unfolding m4_def m3_def m2_def name
        by (simp add: store_eq)
    qed
    moreover have "s ! 8 \<noteq> 0" using False nz by (metis nth_mem not_le)
    then have "get_fat16_filename entry buf st = Some (st\<lparr>mem := m4\<rparr>)"
      using r1 r2 r3 r4 e1 False by (simp add: get_fat16_filename_def entry_extension_def)
    ultimately show ?thesis by blast
  qed
qed

section \<open>A mounted disk\<close>

text \<open>
  The state after mounting, as far as the read operations need it: the disk structure
  points to the private data and every stream the driver opened exists.
\<close>

definition mounted :: "addr \<Rightarrow> addr \<Rightarrow> Fat16Private \<Rightarrow> 'a fat_state_scheme \<Rightarrow> bool" where
  "mounted dp priv p st \<longleftrightarrow> dp = disk_addr st \<and> fs_private (disk st) = priv \<and>
     sector_size (disk st) = 512 \<and> fat_privates st priv = Some p \<and>
     fat_read_stream p \<noteq> 0 \<and>
     (\<exists>n. streams st (fat_read_stream p) = Some \<lparr>stream_pos = n, stream_disk = dp\<rparr>) \<and>
     (\<exists>n. streams st (cluster_read_stream p) = Some \<lparr>stream_pos = n, stream_disk = dp\<rparr>)"

lemma sint_of_nat_small:
  assumes "n < 2147483648"
  shows "sint (of_nat n :: u32) = int n"
proof -
  have "unat (of_nat n :: u32) = n" using assms by simp
  then show ?thesis using sint_eq_uint_small [of "of_nat n"] assms by simp
qed

section \<open>Properties\<close>

text \<open>
  The names of directory entries.  For an entry whose bytes up to the next NUL are \<open>s\<close>
  (8 bytes of name, 3 of extension, the attribute byte and so on), \<^verbatim>\<open>get_fat16_filename\<close>
  writes \<open>fat_name s\<close>: everything up to the first blank, then, if the extension is not blank,
  a dot and everything from the extension on up to its first blank.  No byte outside the
  100-byte buffer changes.
\<close>

lemma get_fat16_filename_name:
  assumes "cstr (mem st) entry s" "8 \<le> length s" "length s \<le> 49" "cstr (mem st) (dot_lit st) [0x2E]"
    and "region entry (Suc (length s)) \<inter> region buf 100 = {}" "region (dot_lit st) 2 \<inter> region buf 100 = {}"
  shows "\<exists>st'. get_fat16_filename entry buf st = Some st' \<and> cstr (mem st') buf (fat_name s) \<and>
    (\<forall>a. a \<notin> region buf 100 \<longrightarrow> mem st' a = mem st a)"
proof -
  have "2 * length s + 2 \<le> 100" using assms(3) by simp
  from get_fat16_filename_spec [OF assms(1,2) this assms(4-6)] show ?thesis by auto
qed

text \<open>
  A mounted disk for the witnesses: one sector per cluster, the data area at sector 10, a
  file of 9 bytes named \<^verbatim>\<open>RUN.ELF\<close> whose entry is at \<open>0x7200\<close>.
\<close>

definition fat_state_ex :: fat_state where
  "fat_state_ex =
     \<lparr>mem = write32 (store (store ((\<lambda>_. 0)(0x500D := 1)) 0x7200
         [0x52, 0x55, 0x4E, 0x20, 0x20, 0x20, 0x20, 0x20, 0x45, 0x4C, 0x46, 0x20]) 0x7300 [0x2E]) 0x721C 9,
      kernel_heap = heap_ex, console = [], current_directory = 0, cr3 = 0, cr0 = 0,
      path_nodes = Map.empty, root_paths = Map.empty, colon_slash = 0,
      dev = sevens_dev, io_log = [],
      disk = \<lparr>disk_id = 0, disk_type = 0, sector_size = 512, disk_fs = 1, fs_private = 0x5000\<rparr>,
      disk_addr = 0x9000,
      streams = [0x8000 \<mapsto> \<lparr>stream_pos = 0, stream_disk = 0x9000\<rparr>,
                 0x8100 \<mapsto> \<lparr>stream_pos = 0, stream_disk = 0x9000\<rparr>],
      fat_privates = [0x5000 \<mapsto> \<lparr>cluster_read_stream = 0x8000, fat_read_stream = 0x8100, directory_stream = 0\<rparr>],
      directories = [0x5040 \<mapsto> \<lparr>directory_item = 0, dir_total = 0, sector_pos = 8, ending_sector_pos = 10\<rparr>],
      fat_items = [0x7100 \<mapsto> \<lparr>item_ptr = 0x7200, item_type = 1\<rparr>],
      fat_descriptors = [0x7000 \<mapsto> \<lparr>desc_item = 0x7100, desc_pos = 0\<rparr>],
      fat16_fs = 1, dot_lit = 0x7300, entry_buf = 0x7400, result_buf = 0x7500, filename_buf = 0x7600\<rparr>"

lemma fat_state_ex_mounted:
  "mounted 0x9000 0x5000 \<lparr>cluster_read_stream = 0x8000, fat_read_stream = 0x8100, directory_stream = 0\<rparr> fat_state_ex"
  "ata (dev fat_state_ex) (\<lambda>_. 7)"
  by (simp_all add: fat_state_ex_def mounted_def sevens_ata)



end
