(* ===== verification/Zhios_File.thy ===== *)
theory Zhios_File
  imports Zhios_Fat16
begin

text \<open>
  The virtual file system, \<^verbatim>\<open>src/src/fs/file.c\<close>, and the disk initialisation of
  \<^verbatim>\<open>disk.c\<close> that depends on it.  A \<open>FileSystem\<close> is a record of functions on the kernel
  state; \<open>fs_ops\<close> dispatches on the address of the structure, of which the program has one,
  \<open>fat16_fs\<close>.  The tables of file systems and of descriptors are lists of addresses of fixed
  length; an index outside a table, which the code does not exclude, has no value.
\<close>

section \<open>State\<close>

record 'st FileSystem =
  op_open :: "addr \<Rightarrow> addr \<Rightarrow> u32 \<Rightarrow> 'st \<Rightarrow> (addr \<times> 'st) option"
  op_resolve :: "addr \<Rightarrow> 'st \<Rightarrow> (int \<times> 'st) option"
  op_read :: "addr \<Rightarrow> addr \<Rightarrow> int \<Rightarrow> addr \<Rightarrow> 'st \<Rightarrow> (int \<times> 'st) option"
  op_seek :: "addr \<Rightarrow> int \<Rightarrow> 'st \<Rightarrow> (int \<times> 'st) option"
  op_stat :: "addr \<Rightarrow> addr \<Rightarrow> 'st \<Rightarrow> (int \<times> 'st) option"
  op_close :: "addr \<Rightarrow> 'st \<Rightarrow> 'st option"

record FileDescriptor =
  fd_id :: int
  fd_fs :: addr
  private_data :: addr
  fd_disk :: addr

abbreviation (input) ZHIOS_MAX_FILE_SYSTEMS :: nat where
  "ZHIOS_MAX_FILE_SYSTEMS \<equiv> 12"

abbreviation (input) ZHIOS_MAX_FILE_DESCRIPTORS :: nat where
  "ZHIOS_MAX_FILE_DESCRIPTORS \<equiv> 256"

abbreviation (input) FILE_MODE_WRITE :: "'a::one" where
  "FILE_MODE_WRITE \<equiv> 1"

abbreviation (input) FILE_MODE_APPEND :: "'a::numeral" where
  "FILE_MODE_APPEND \<equiv> 2"

abbreviation (input) FILE_MODE_INVALID :: "'a::numeral" where
  "FILE_MODE_INVALID \<equiv> 3"

text \<open>\<open>lit_r\<close>, \<open>lit_w\<close> and \<open>lit_a\<close> are the addresses of the mode literals.\<close>

record file_state = fat_state +
  file_systems :: "addr list"
  file_descriptors :: "addr list"
  descriptors :: "addr \<rightharpoonup> FileDescriptor"
  lit_r :: addr
  lit_w :: addr
  lit_a :: addr

definition fat16_ops :: "'a file_state_scheme FileSystem" where
  "fat16_ops = \<lparr>op_open = fat16_open, op_resolve = fat16_resolve, op_read = fat16_read,
     op_seek = fat16_seek, op_stat = fat16_stat, op_close = fat16_close\<rparr>"

definition fs_ops :: "addr \<Rightarrow> 'a file_state_scheme \<Rightarrow> 'a file_state_scheme FileSystem option" where
  "fs_ops a st = (if a = fat16_fs st then Some fat16_ops else None)"

section \<open>The tables\<close>

text \<open>The scan for the first null entry.\<close>

fun first_free :: "addr list \<Rightarrow> nat \<Rightarrow> nat option" where
  "first_free [] i = None"
| "first_free (x # xs) i = (if x = 0 then Some i else first_free xs (Suc i))"

definition get_free_filesystem :: "'a file_state_scheme \<Rightarrow> nat option" where
  "get_free_filesystem st = first_free (file_systems st) 0"

definition insert_file_system :: "addr \<Rightarrow> 'a file_state_scheme \<Rightarrow> int \<times> 'a file_state_scheme" where
  "insert_file_system new_fs st =
     (case get_free_filesystem st of
        None \<Rightarrow> (- EMEM, st)
      | Some i \<Rightarrow> (0, st\<lparr>file_systems := (file_systems st)[i := new_fs]\<rparr>))"

definition fat16_init :: "'a file_state_scheme \<Rightarrow> addr" where
  "fat16_init st = fat16_fs st"

definition fs_load_static :: "'a file_state_scheme \<Rightarrow> 'a file_state_scheme" where
  "fs_load_static st = snd (insert_file_system (fat16_init st) st)"

definition fs_init :: "'a file_state_scheme \<Rightarrow> 'a file_state_scheme" where
  "fs_init st = fs_load_static
     (st\<lparr>file_systems := replicate ZHIOS_MAX_FILE_SYSTEMS 0,
         file_descriptors := replicate ZHIOS_MAX_FILE_DESCRIPTORS 0\<rparr>)"

text \<open>An identifier of 0 or below reads before the table.\<close>

definition get_file_descriptor :: "int \<Rightarrow> 'a file_state_scheme \<Rightarrow> addr option" where
  "get_file_descriptor i st =
     (if i > int ZHIOS_MAX_FILE_DESCRIPTORS then Some 0
      else (let index = i - 1 in
            if 0 \<le> index \<and> index < int (length (file_descriptors st))
            then Some (file_descriptors st ! nat index) else None))"

definition new_file_descriptor :: "'a file_state_scheme \<Rightarrow> addr \<times> 'a file_state_scheme" where
  "new_file_descriptor st =
     (let (desc, st1) = kzalloc 16 st in
      case first_free (file_descriptors st1) 0 of
        None \<Rightarrow> (0, kfree desc st1)
      | Some i \<Rightarrow> (desc, st1\<lparr>descriptors := (descriptors st1)(desc \<mapsto>
            \<lparr>fd_id = int i + 1, fd_fs = 0, private_data = 0, fd_disk = 0\<rparr>),
          file_descriptors := (file_descriptors st1)[i := desc]\<rparr>))"

fun fs_resolve_loop ::
  "addr list \<Rightarrow> addr \<Rightarrow> 'a file_state_scheme \<Rightarrow> (addr \<times> 'a file_state_scheme) option" where
  "fs_resolve_loop [] dp st = Some (0, st)"
| "fs_resolve_loop (f # fs) dp st =
     (if f = 0 then fs_resolve_loop fs dp st
      else do {
        ops \<leftarrow> fs_ops f st;
        (r, st1) \<leftarrow> op_resolve ops dp st;
        if r = 0 then Some (f, st1) else fs_resolve_loop fs dp st1 })"

definition fs_resolve ::
  "addr \<Rightarrow> 'a file_state_scheme \<Rightarrow> (addr \<times> 'a file_state_scheme) option" where
  "fs_resolve dp st = fs_resolve_loop (file_systems st) dp st"

definition disk_search_and_init :: "'a file_state_scheme \<Rightarrow> 'a file_state_scheme option" where
  "disk_search_and_init st = do {
     let d = \<lparr>disk_id = 0, disk_type = 0, sector_size = ZHIOS_DISK_SECTOR_SIZE, disk_fs = 0, fs_private = 0\<rparr>;
     let st1 = st\<lparr>disk := d\<rparr>;
     (f, st2) \<leftarrow> fs_resolve (disk_addr st1) st1;
     Some (st2\<lparr>disk := (disk st2)\<lparr>disk_fs := f\<rparr>\<rparr>) }"

section \<open>Files\<close>

definition get_file_mode_from_string :: "addr \<Rightarrow> 'a file_state_scheme \<Rightarrow> u32" where
  "get_file_mode_from_string mode_str st =
     (if strncmp (mem st) mode_str (lit_r st) 1 = 0 then FILE_MODE_READ
      else if strncmp (mem st) mode_str (lit_w st) 1 = 0 then FILE_MODE_WRITE
      else if strncmp (mem st) mode_str (lit_a st) 1 = 0 then FILE_MODE_APPEND
      else FILE_MODE_INVALID)"

definition free_file_descriptor :: "addr \<Rightarrow> 'a file_state_scheme \<Rightarrow> 'a file_state_scheme option" where
  "free_file_descriptor desc st = do {
     d \<leftarrow> descriptors st desc;
     let i = fd_id d - 1;
     if 0 \<le> i \<and> i < int (length (file_descriptors st))
     then Some (kfree desc (st\<lparr>file_descriptors := (file_descriptors st)[nat i := 0]\<rparr>))
     else None }"

text \<open>
  \<open>fopen\<close>: every error before the file system's own open jumps to a cleanup that tests the
  variable \<^verbatim>\<open>private_descriptor_data\<close> before it is assigned, so there is no value; only an
  invalid mode returns.  The test \<^verbatim>\<open>ISERR\<close> of a pointer is a comparison of an unsigned value
  with 0 and never true, so a null result of the file system is stored like any other.
\<close>

definition fopen :: "addr \<Rightarrow> addr \<Rightarrow> 'a file_state_scheme \<Rightarrow> (int \<times> 'a file_state_scheme) option" where
  "fopen filename mode st = do {
     (path, st1) \<leftarrow> parse_path filename 0 st;
     if path = 0 then None
     else do {
       rp \<leftarrow> root_paths st1 path;
       if root rp = 0 then None
       else (let file_mode = get_file_mode_from_string mode st1 in
         if file_mode = FILE_MODE_INVALID then Some (- EINARG, st1)
         else (let dp = get_disk (drive_number rp) st1 in
           if dp = 0 then None
           else do {
             d \<leftarrow> disk_at dp st1;
             if disk_fs d = 0 then None
             else do {
               ops \<leftarrow> fs_ops (disk_fs d) st1;
               (priv, st2) \<leftarrow> op_open ops dp (root rp) file_mode st1;
               let (fd, st3) = new_file_descriptor st2;
               if fd = 0 then Some (0, st3)
               else do {
                 d' \<leftarrow> disk_at dp st3;
                 x \<leftarrow> descriptors st3 fd;
                 let st4 = st3\<lparr>descriptors := (descriptors st3)(fd \<mapsto>
                       x\<lparr>private_data := priv, fd_fs := disk_fs d', fd_disk := dp\<rparr>)\<rparr>;
                 Some (fd_id x, st4) } } })) } }"

definition fread ::
  "int \<Rightarrow> addr \<Rightarrow> int \<Rightarrow> 'a file_state_scheme \<Rightarrow> (int \<times> 'a file_state_scheme) option" where
  "fread fd buffer sz st =
     (if sz = 0 \<or> fd < 0 then Some (- EINARG, st)
      else do {
        desc \<leftarrow> get_file_descriptor fd st;
        x \<leftarrow> descriptors st desc;
        ops \<leftarrow> fs_ops (fd_fs x) st;
        op_read ops (fd_disk x) (private_data x) sz buffer st })"

text \<open>\<open>SEEK_CURRENT\<close> adds the offset to 0, not to the current position.\<close>

definition fseek ::
  "int \<Rightarrow> int \<Rightarrow> u32 \<Rightarrow> 'a file_state_scheme \<Rightarrow> (int \<times> 'a file_state_scheme) option" where
  "fseek fd offset mode st =
     (if mode \<noteq> 0 \<and> mode \<noteq> 1 then Some (- EINARG, st)
      else do {
        let pos = (if mode = 0 then offset else 0 + offset);
        desc \<leftarrow> get_file_descriptor fd st;
        x \<leftarrow> descriptors st desc;
        ops \<leftarrow> fs_ops (fd_fs x) st;
        op_seek ops (private_data x) pos st })"

definition fstat :: "int \<Rightarrow> addr \<Rightarrow> 'a file_state_scheme \<Rightarrow> (int \<times> 'a file_state_scheme) option" where
  "fstat fd stat st = do {
     desc \<leftarrow> get_file_descriptor fd st;
     if desc = 0 then Some (- EIO, st)
     else do {
       x \<leftarrow> descriptors st desc;
       ops \<leftarrow> fs_ops (fd_fs x) st;
       op_stat ops (private_data x) stat st } }"

definition fclose :: "int \<Rightarrow> 'a file_state_scheme \<Rightarrow> 'a file_state_scheme option" where
  "fclose fd st = do {
     desc \<leftarrow> get_file_descriptor fd st;
     x \<leftarrow> descriptors st desc;
     ops \<leftarrow> fs_ops (fd_fs x) st;
     st1 \<leftarrow> op_close ops (private_data x) st;
     free_file_descriptor desc st1 }"

section \<open>The contract of a descriptor table\<close>

text \<open>
  What the callers of the descriptor table rely on: a new entry gets an unused identifier,
  looking up an identifier finds the entry, releasing it makes the identifier unused again,
  and neither operation touches the other identifiers.
\<close>

locale descriptor_table =
  fixes new_entry :: "'s \<Rightarrow> addr \<times> 's"
    and lookup :: "int \<Rightarrow> 's \<Rightarrow> addr option"
    and release :: "addr \<Rightarrow> 's \<Rightarrow> 's option"
    and ident :: "addr \<Rightarrow> 's \<Rightarrow> int option"
    and ok :: "'s \<Rightarrow> bool"
  assumes new_unused: "ok s \<Longrightarrow> new_entry s = (d, s') \<Longrightarrow> d \<noteq> 0 \<Longrightarrow>
      ok s' \<and> (\<exists>i. ident d s' = Some i \<and> 1 \<le> i \<and> lookup i s = Some 0 \<and> lookup i s' = Some d \<and>
        (\<forall>j. j \<noteq> i \<longrightarrow> lookup j s' = lookup j s))"
    and release_used: "ok s \<Longrightarrow> ident d s = Some i \<Longrightarrow> lookup i s = Some d \<Longrightarrow> d \<noteq> 0 \<Longrightarrow>
      \<exists>s'. release d s = Some s' \<and> ok s' \<and> lookup i s' = Some 0 \<and>
        (\<forall>j. j \<noteq> i \<longrightarrow> lookup j s' = lookup j s)"
begin

lemma new_release:
  assumes "ok s" "new_entry s = (d, s')" "d \<noteq> 0"
  shows "\<exists>s''. release d s' = Some s'' \<and> ok s'' \<and> (\<forall>j. lookup j s'' = lookup j s)"
proof -
  obtain i where i: "ok s'" "ident d s' = Some i" "lookup i s = Some 0" "lookup i s' = Some d"
    "\<forall>j. j \<noteq> i \<longrightarrow> lookup j s' = lookup j s"
    using new_unused [OF assms] by blast
  from release_used [OF i(1,2,4) assms(3)] obtain s'' where s'':
    "release d s' = Some s''" "ok s''" "lookup i s'' = Some 0"
    "\<forall>j. j \<noteq> i \<longrightarrow> lookup j s'' = lookup j s'" by blast
  have "lookup j s'' = lookup j s" for j
    using i(3,5) s''(3,4) by (cases "j = i") auto
  with s'' show ?thesis by blast
qed

end

lemma first_free_Some:
  assumes "first_free xs i = Some k"
  shows "i \<le> k" "k - i < length xs" "xs ! (k - i) = 0"
proof -
  have "i \<le> k \<and> k - i < length xs \<and> xs ! (k - i) = 0"
    using assms
  proof (induction xs arbitrary: i)
    case (Cons x xs)
    show ?case
    proof (cases "x = 0")
      case False
      then have IH: "Suc i \<le> k" "k - Suc i < length xs" "xs ! (k - Suc i) = 0"
        using Cons.IH [of "Suc i"] Cons.prems by simp_all
      have "k - i = Suc (k - Suc i)" using IH(1) by simp
      then show ?thesis using IH by simp
    qed (use Cons.prems in simp)
  qed simp
  then show "i \<le> k" "k - i < length xs" "xs ! (k - i) = 0" by simp_all
qed

lemma first_free_None: "first_free xs i = None \<longleftrightarrow> 0 \<notin> set xs"
  by (induction xs arbitrary: i) auto

definition fd_table_ok :: "'a file_state_scheme \<Rightarrow> bool" where
  "fd_table_ok st \<longleftrightarrow> length (file_descriptors st) = 256"

definition fd_ident :: "addr \<Rightarrow> 'a file_state_scheme \<Rightarrow> int option" where
  "fd_ident d st = map_option fd_id (descriptors st d)"

lemma get_file_descriptor_eq:
  assumes "fd_table_ok st"
  shows "get_file_descriptor i st = (if 256 < i then Some 0
    else if 1 \<le> i then Some (file_descriptors st ! nat (i - 1)) else None)"
  using assms by (auto simp: get_file_descriptor_def fd_table_ok_def Let_def)

lemma new_file_descriptor_spec:
  assumes "fd_table_ok st" "new_file_descriptor st = (d, st')" "d \<noteq> 0"
  obtains m k where "kzalloc 16 st = (d, st\<lparr>mem := m\<rparr>)" "k < 256" "file_descriptors st ! k = 0"
    "st' = st\<lparr>mem := m, descriptors := (descriptors st)(d \<mapsto>
        \<lparr>fd_id = int k + 1, fd_fs = 0, private_data = 0, fd_disk = 0\<rparr>),
      file_descriptors := (file_descriptors st)[k := d]\<rparr>"
proof -
  obtain m where m: "snd (kzalloc 16 st) = st\<lparr>mem := m\<rparr>" using kzalloc_put by blast
  obtain k where k: "first_free (file_descriptors st) 0 = Some k"
    using assms(2,3) m by (cases "first_free (file_descriptors st) 0") (auto simp: new_file_descriptor_def split_def)
  then have "k < 256" "file_descriptors st ! k = 0"
    using assms(1) first_free_Some [OF k] by (simp_all add: fd_table_ok_def)
  moreover have "kzalloc 16 st = (d, st\<lparr>mem := m\<rparr>)"
    using assms(2) m k by (auto simp: new_file_descriptor_def split_def Let_def prod_eq_iff)
  ultimately show ?thesis
    using assms(2) k by (intro that [of m k]) (auto simp: new_file_descriptor_def)
qed

interpretation fdt: descriptor_table new_file_descriptor get_file_descriptor free_file_descriptor
  fd_ident fd_table_ok
proof (unfold_locales, goal_cases)
  case (1 s d s')
  then obtain m k where k: "k < 256" "file_descriptors s ! k = 0"
    "s' = s\<lparr>mem := m, descriptors := (descriptors s)(d \<mapsto>
        \<lparr>fd_id = int k + 1, fd_fs = 0, private_data = 0, fd_disk = 0\<rparr>),
      file_descriptors := (file_descriptors s)[k := d]\<rparr>"
    by (rule new_file_descriptor_spec)
  have ok: "fd_table_ok s'" using 1(1) k(3) by (simp add: fd_table_ok_def)
  have "get_file_descriptor j s' = get_file_descriptor j s" if "j \<noteq> int k + 1" for j
    using that k(3) unfolding get_file_descriptor_eq [OF ok] get_file_descriptor_eq [OF 1(1)]
    by (auto simp: nth_list_update)
  moreover have "get_file_descriptor (int k + 1) s = Some 0" "get_file_descriptor (int k + 1) s' = Some d"
    using k 1(1) unfolding get_file_descriptor_eq [OF ok] get_file_descriptor_eq [OF 1(1)]
    by (simp_all add: fd_table_ok_def)
  ultimately show ?case using ok k(3) by (auto simp: fd_ident_def)
next
  case (2 s d i)
  then have i: "1 \<le> i" "i \<le> 256"
    by (auto simp: get_file_descriptor_eq split: if_splits)
  obtain x where x: "descriptors s d = Some x" "fd_id x = i" using 2(2) by (auto simp: fd_ident_def)
  let ?s = "kfree d (s\<lparr>file_descriptors := (file_descriptors s)[nat (i - 1) := 0]\<rparr>)"
  have ok: "fd_table_ok ?s" using 2(1) by (simp add: fd_table_ok_def kfree_def)
  have "free_file_descriptor d s = Some ?s"
    using x i 2(1) by (simp add: free_file_descriptor_def fd_table_ok_def)
  moreover have "get_file_descriptor i ?s = Some 0"
    using i 2(1) unfolding get_file_descriptor_eq [OF ok] by (simp add: fd_table_ok_def kfree_def)
  moreover have "get_file_descriptor j ?s = get_file_descriptor j s" if "j \<noteq> i" for j
    using that i unfolding get_file_descriptor_eq [OF ok] get_file_descriptor_eq [OF 2(1)]
    by (auto simp: kfree_def nth_list_update)
  ultimately show ?case using ok by blast
qed

text \<open>A state for the witnesses: an initialised heap and an empty descriptor table.\<close>

definition file_state_ex :: file_state where
  "file_state_ex = kheap_init
     \<lparr>mem = \<lambda>_. 0, kernel_heap = heap_ex, console = [], current_directory = 0, cr3 = 0, cr0 = 0,
      path_nodes = Map.empty, root_paths = Map.empty, colon_slash = 0,
      dev = sevens_dev, io_log = [],
      disk = \<lparr>disk_id = 0, disk_type = 0, sector_size = 512, disk_fs = 0x100, fs_private = 0\<rparr>,
      disk_addr = 0x9000, streams = Map.empty,
      fat_privates = Map.empty, directories = Map.empty, fat_items = Map.empty, fat_descriptors = Map.empty,
      fat16_fs = 0x100, dot_lit = 0, entry_buf = 0, result_buf = 0, filename_buf = 0,
      file_systems = replicate 12 0, file_descriptors = replicate 256 0, descriptors = Map.empty,
      lit_r = 0x200, lit_w = 0x202, lit_a = 0x204\<rparr>"

lemma file_state_ex_ok: "fd_table_ok file_state_ex"
  by (simp add: file_state_ex_def fd_table_ok_def kheap_init_eq)

lemma new_descriptor_d:
  assumes "kheap_ok st" "0 < kheap_avail st" "0 \<in> set (file_descriptors st)"
    and "new_file_descriptor st = (d, st1)"
  shows "d \<noteq> 0"
proof -
  obtain p st0 where z: "kzalloc 16 st = (p, st0)" by (rule prod.exhaust)
  have p: "p \<noteq> 0" using kh.zalloc_keeps(5) [OF assms(1) _ _ assms(2) z] by simp
  obtain m where "snd (kzalloc 16 st) = st\<lparr>mem := m\<rparr>" using kzalloc_put by blast
  then have "file_descriptors st0 = file_descriptors st" using z by simp
  then obtain k where "first_free (file_descriptors st0) 0 = Some k"
    using assms(3) first_free_None [of "file_descriptors st" 0] by (metis not_None_eq)
  then show ?thesis using assms(4) z p by (auto simp: new_file_descriptor_def)
qed

lemma new_descriptor_ex:
  assumes "new_file_descriptor file_state_ex = (d, st1)"
  shows "d \<noteq> 0"
  by (rule new_descriptor_d [OF _ _ _ assms])
    (simp_all add: file_state_ex_def kheap_init_ok, simp add: kheap_init_eq)

section \<open>Properties\<close>

text \<open>
  C17: the life of a descriptor.  \<^verbatim>\<open>new_file_descriptor\<close> uses an identifier from 1 to 256 that
  was unused, \<^verbatim>\<open>get_file_descriptor\<close> finds the new entry under it and all others as before;
  releasing it restores every lookup.
\<close>

theorem file_descriptor_roundtrip:
  assumes "fd_table_ok st" "new_file_descriptor st = (d, st1)" "d \<noteq> 0"
  shows "\<exists>i st2. 1 \<le> i \<and> i \<le> 256 \<and> get_file_descriptor i st = Some 0 \<and>
    get_file_descriptor i st1 = Some d \<and>
    (\<forall>j. j \<noteq> i \<longrightarrow> get_file_descriptor j st1 = get_file_descriptor j st) \<and>
    free_file_descriptor d st1 = Some st2 \<and>
    (\<forall>j. get_file_descriptor j st2 = get_file_descriptor j st)"
proof -
  obtain i where i: "1 \<le> i" "get_file_descriptor i st = Some 0" "get_file_descriptor i st1 = Some d"
    "\<forall>j. j \<noteq> i \<longrightarrow> get_file_descriptor j st1 = get_file_descriptor j st" "fd_table_ok st1"
    using fdt.new_unused [OF assms] by blast
  have "i \<le> 256" using i(3,5) assms(3) by (auto simp: get_file_descriptor_eq split: if_splits)
  then show ?thesis using i fdt.new_release [OF assms] by blast
qed

theorem file_descriptor_roundtrip_witness:
  "\<exists>d st1 i st2. new_file_descriptor file_state_ex = (d, st1) \<and> d \<noteq> 0 \<and>
     get_file_descriptor i st1 = Some d \<and> free_file_descriptor d st1 = Some st2 \<and>
     get_file_descriptor i st2 = Some 0"
proof -
  obtain d st1 where n: "new_file_descriptor file_state_ex = (d, st1)" by (rule prod.exhaust)
  have d: "d \<noteq> 0" by (rule new_descriptor_ex [OF n])
  from file_descriptor_roundtrip [OF file_state_ex_ok n d] n d show ?thesis by metis
qed

text \<open>
  Opening for writing.  The file system supports reading only and its open returns the
  null pointer for any other mode; \<^verbatim>\<open>fopen\<close> does not notice and returns a positive
  identifier of a descriptor with null private data.  Reading from it has no value.
\<close>

lemma fopen_write_mode_succeeds:
  assumes "parse_path filename 0 st = Some (p, st1)" "p \<noteq> 0"
    and "root_paths st1 p = Some \<lparr>drive_number = 0, root = r\<rparr>" "r \<noteq> 0"
    and "get_file_mode_from_string mode st1 = FILE_MODE_WRITE"
    and "disk_addr st1 \<noteq> 0" "disk_fs (disk st1) = fat16_fs st1" "fat16_fs st1 \<noteq> 0"
    and "fd_table_ok st1" "fat_descriptors st1 0 = None"
    and "new_file_descriptor st1 = (d, st2)" "d \<noteq> 0"
  shows "\<exists>i st'. fopen filename mode st = Some (i, st') \<and> 1 \<le> i \<and>
    get_file_descriptor i st' = Some d \<and> map_option private_data (descriptors st' d) = Some 0 \<and>
    (\<forall>buf sz. sz \<noteq> 0 \<longrightarrow> fread i buf sz st' = None)"
proof -
  obtain m k where k: "k < 256" "file_descriptors st1 ! k = 0"
    "st2 = st1\<lparr>mem := m, descriptors := (descriptors st1)(d \<mapsto>
        \<lparr>fd_id = int k + 1, fd_fs = 0, private_data = 0, fd_disk = 0\<rparr>),
      file_descriptors := (file_descriptors st1)[k := d]\<rparr>"
    using new_file_descriptor_spec [OF assms(9,11,12)] by metis
  let ?x = "\<lparr>fd_id = int k + 1, fd_fs = fat16_fs st1, private_data = 0, fd_disk = disk_addr st1\<rparr>"
  let ?st = "st2\<lparr>descriptors := (descriptors st2)(d \<mapsto> ?x)\<rparr>"
  have "fopen filename mode st = Some (int k + 1, ?st)"
    using assms k(3)
    by (simp add: fopen_def get_disk_def disk_at_def fs_ops_def fat16_ops_def fat16_open_def)
  moreover have "fd_table_ok ?st" using assms(9) k(3) by (simp add: fd_table_ok_def)
  then have "get_file_descriptor (int k + 1) ?st = Some d"
    using k assms(9) by (simp add: get_file_descriptor_eq fd_table_ok_def)
  moreover from this have "fread (int k + 1) buf sz ?st = None" if "sz \<noteq> 0" for buf sz
    using that k(3) assms(10) by (simp add: fread_def fs_ops_def fat16_ops_def fat16_read_def)
  ultimately show ?thesis by (intro exI [of _ "int k + 1"] exI [of _ ?st]) simp
qed

end
