(* ===== verification/Zhios_Loader.thy ===== *)
theory Zhios_Loader
  imports Zhios_File
begin

text \<open>
  The program loaders: \<^verbatim>\<open>src/src/loaders/loader.c\<close> and \<^verbatim>\<open>formats/elfloader.c\<close>,
  \<^verbatim>\<open>formats/binary.c\<close>, \<^verbatim>\<open>formats/elf.c\<close>.  An ELF image is bytes in memory, its headers are
  read at the offsets of the packed structures of \<^verbatim>\<open>elf.h\<close>; an \<open>ElfFile\<close> is an entry of a
  typed store.  An output parameter (\<^verbatim>\<open>**out\<close>, \<^verbatim>\<open>*size\<close>) is a value that goes in and comes
  back.  The main lemmas give the virtual bounds that the loop over the program headers
  computes, and the address translation that results from mapping a flat binary or a
  segment.
\<close>

section \<open>Headers\<close>

definition e_type :: "memory \<Rightarrow> addr \<Rightarrow> u16" where
  "e_type m header = read16 m (header + 16)"

definition e_entry :: "memory \<Rightarrow> addr \<Rightarrow> u32" where
  "e_entry m header = read32 m (header + 24)"

definition e_phoff :: "memory \<Rightarrow> addr \<Rightarrow> u32" where
  "e_phoff m header = read32 m (header + 28)"

definition e_shoff :: "memory \<Rightarrow> addr \<Rightarrow> u32" where
  "e_shoff m header = read32 m (header + 32)"

definition e_phnum :: "memory \<Rightarrow> addr \<Rightarrow> u16" where
  "e_phnum m header = read16 m (header + 44)"

definition e_shstrndx :: "memory \<Rightarrow> addr \<Rightarrow> u16" where
  "e_shstrndx m header = read16 m (header + 50)"

definition p_type :: "memory \<Rightarrow> addr \<Rightarrow> u32" where
  "p_type m pheader = read32 m pheader"

definition p_offset :: "memory \<Rightarrow> addr \<Rightarrow> u32" where
  "p_offset m pheader = read32 m (pheader + 4)"

definition p_vaddr :: "memory \<Rightarrow> addr \<Rightarrow> u32" where
  "p_vaddr m pheader = read32 m (pheader + 8)"

definition p_filesz :: "memory \<Rightarrow> addr \<Rightarrow> u32" where
  "p_filesz m pheader = read32 m (pheader + 16)"

definition p_memsz :: "memory \<Rightarrow> addr \<Rightarrow> u32" where
  "p_memsz m pheader = read32 m (pheader + 20)"

definition p_flags :: "memory \<Rightarrow> addr \<Rightarrow> u32" where
  "p_flags m pheader = read32 m (pheader + 24)"

definition sh_offset :: "memory \<Rightarrow> addr \<Rightarrow> u32" where
  "sh_offset m sheader = read32 m (sheader + 16)"

abbreviation (input) PT_LOAD :: "'a::one" where
  "PT_LOAD \<equiv> 1"

abbreviation (input) PF_W :: "'a::numeral" where
  "PF_W \<equiv> 2"

abbreviation (input) ET_EXEC :: "'a::numeral" where
  "ET_EXEC \<equiv> 2"

abbreviation (input) ZHIOS_PROGRAM_VIRTUAL_ADDRESS :: "'a::numeral" where
  "ZHIOS_PROGRAM_VIRTUAL_ADDRESS \<equiv> 0x400000"

section \<open>State\<close>

text \<open>The name in the structure is never written.\<close>

record ElfFile =
  elf_filename :: "u8 list"
  in_memory_size :: int
  elf_memory :: addr
  virtual_base_address :: addr
  virtual_end_address :: addr
  physical_start_address :: addr
  physical_end_address :: addr

definition zero_elf :: ElfFile where
  "zero_elf = \<lparr>elf_filename = replicate ZHIOS_MAX_PATH 0, in_memory_size = 0, elf_memory = 0,
     virtual_base_address = 0, virtual_end_address = 0, physical_start_address = 0,
     physical_end_address = 0\<rparr>"

text \<open>
  \<open>elf_signature\<close> is the address of the array \<^verbatim>\<open>ELF_SIGNATURE\<close>, \<open>stat_buf\<close> that of the
  local \<^verbatim>\<open>struct FileStat\<close> of the loaders.
\<close>

record elf_state = file_state +
  elf_files :: "addr \<rightharpoonup> ElfFile"
  elf_signature :: addr
  stat_buf :: addr

section \<open>elfloader.c\<close>

text \<open>
  The signature test compares the size of the array with the size of a pointer; both are 4.
\<close>

definition elf_is_valid_signature :: "addr \<Rightarrow> 'a elf_state_scheme \<Rightarrow> bool" where
  "elf_is_valid_signature buffer st \<longleftrightarrow> memcmp (mem st) (elf_signature st) buffer 4 = 0"

definition elf_is_valid_class :: "memory \<Rightarrow> addr \<Rightarrow> bool" where
  "elf_is_valid_class m header \<longleftrightarrow> m (header + 4) = 0 \<or> m (header + 4) = 1"

definition elf_is_valid_encoding :: "memory \<Rightarrow> addr \<Rightarrow> bool" where
  "elf_is_valid_encoding m header \<longleftrightarrow> m (header + 5) = 0 \<or> m (header + 5) = 1"

definition elf_is_executable :: "memory \<Rightarrow> addr \<Rightarrow> bool" where
  "elf_is_executable m header \<longleftrightarrow> e_type m header = ET_EXEC \<and> e_entry m header \<ge> ZHIOS_PROGRAM_VIRTUAL_ADDRESS"

definition elf_has_program_header :: "memory \<Rightarrow> addr \<Rightarrow> bool" where
  "elf_has_program_header m header \<longleftrightarrow> e_phoff m header \<noteq> 0"

definition elf_get_header :: "addr \<Rightarrow> 'a elf_state_scheme \<Rightarrow> addr option" where
  "elf_get_header file st = map_option elf_memory (elf_files st file)"

definition elf_get_pheader_start :: "memory \<Rightarrow> addr \<Rightarrow> addr" where
  "elf_get_pheader_start m header = (if e_phoff m header = 0 then 0 else header + e_phoff m header)"

definition elf_get_sheader_start :: "memory \<Rightarrow> addr \<Rightarrow> addr" where
  "elf_get_sheader_start m header = header + e_shoff m header"

definition elf_get_pheader :: "memory \<Rightarrow> addr \<Rightarrow> int \<Rightarrow> addr" where
  "elf_get_pheader m header index = elf_get_pheader_start m header + 32 * of_int index"

definition elf_get_sheader :: "memory \<Rightarrow> addr \<Rightarrow> int \<Rightarrow> addr" where
  "elf_get_sheader m header index = elf_get_sheader_start m header + 40 * of_int index"

definition elf_str_table :: "memory \<Rightarrow> addr \<Rightarrow> addr" where
  "elf_str_table m header =
     (let section = elf_get_sheader m header (uint (e_shstrndx m header))
      in header + sh_offset m section)"

definition elf_get_vrirtual_base :: "addr \<Rightarrow> 'a elf_state_scheme \<Rightarrow> addr option" where
  "elf_get_vrirtual_base file st = map_option virtual_base_address (elf_files st file)"

definition elf_get_virtual_end :: "addr \<Rightarrow> 'a elf_state_scheme \<Rightarrow> addr option" where
  "elf_get_virtual_end file st = map_option virtual_end_address (elf_files st file)"

definition elf_get_physical_base :: "addr \<Rightarrow> 'a elf_state_scheme \<Rightarrow> addr option" where
  "elf_get_physical_base file st = map_option physical_start_address (elf_files st file)"

definition elf_get_physical_end :: "addr \<Rightarrow> 'a elf_state_scheme \<Rightarrow> addr option" where
  "elf_get_physical_end file st = map_option physical_end_address (elf_files st file)"

definition elf_get_entry_addr :: "memory \<Rightarrow> addr \<Rightarrow> u32" where
  "elf_get_entry_addr m header = e_entry m header"

definition elf_validate_load :: "addr \<Rightarrow> 'a elf_state_scheme \<Rightarrow> int" where
  "elf_validate_load header st =
     (if elf_is_valid_signature header st \<and> elf_is_valid_class (mem st) header \<and>
         elf_is_valid_encoding (mem st) header \<and> elf_has_program_header (mem st) header \<and>
         elf_is_executable (mem st) header
      then 0 else - EINFORMAT)"

text \<open>The steps over the program headers change the \<open>ElfFile\<close> only, so they act on its record.\<close>

definition elf_process_pt_load :: "memory \<Rightarrow> addr \<Rightarrow> ElfFile \<Rightarrow> int \<times> ElfFile" where
  "elf_process_pt_load m pheader elf_file =
     (let elf1 =
            (if virtual_base_address elf_file \<ge> p_vaddr m pheader \<or> virtual_base_address elf_file = 0
             then elf_file\<lparr>virtual_base_address := p_vaddr m pheader,
               physical_start_address := elf_memory elf_file + p_offset m pheader\<rparr>
             else elf_file);
          end_virtual_address = p_vaddr m pheader + p_filesz m pheader;
          elf2 =
            (if virtual_end_address elf1 \<le> end_virtual_address \<or> virtual_end_address elf1 = 0
             then elf1\<lparr>virtual_end_address := end_virtual_address,
               physical_end_address := elf_memory elf1 + p_offset m pheader + p_filesz m pheader\<rparr>
             else elf1)
      in (0, elf2))"

definition elf_process_pheader :: "memory \<Rightarrow> addr \<Rightarrow> ElfFile \<Rightarrow> int \<times> ElfFile" where
  "elf_process_pheader m pheader elf_file =
     (if p_type m pheader = PT_LOAD then elf_process_pt_load m pheader elf_file else (0, elf_file))"

fun pheader_loop :: "memory \<Rightarrow> addr \<Rightarrow> nat \<Rightarrow> nat \<Rightarrow> int \<Rightarrow> ElfFile \<Rightarrow> int \<times> ElfFile" where
  "pheader_loop m header i 0 res elf_file = (res, elf_file)"
| "pheader_loop m header i (Suc left) res elf_file =
     (let (res', elf') = elf_process_pheader m (elf_get_pheader m header (int i)) elf_file in
      if res' < 0 then (res', elf')
      else pheader_loop m header (Suc i) left res' elf')"

definition elf_process_pheaders :: "memory \<Rightarrow> ElfFile \<Rightarrow> int \<times> ElfFile" where
  "elf_process_pheaders m elf_file =
     (let header = elf_memory elf_file
      in pheader_loop m header 0 (unat (e_phnum m header)) 0 elf_file)"

definition elf_process_loaded :: "addr \<Rightarrow> 'a elf_state_scheme \<Rightarrow> (int \<times> 'a elf_state_scheme) option" where
  "elf_process_loaded file st = do {
     f \<leftarrow> elf_files st file;
     let res = elf_validate_load (elf_memory f) st;
     if res < 0 then Some (res, st)
     else (let (res', f') = elf_process_pheaders (mem st) f
           in Some (res', st\<lparr>elf_files := (elf_files st)(file \<mapsto> f')\<rparr>)) }"

definition elf_get_pheader_phy_address :: "memory \<Rightarrow> ElfFile \<Rightarrow> addr \<Rightarrow> addr" where
  "elf_get_pheader_phy_address m f pheader = elf_memory f + p_offset m pheader"

text \<open>
  The cleanup at the label \<^verbatim>\<open>out\<close>: on an error the image and the structure are released,
  and a descriptor other than 0 is closed, also a negative one, which has no value.
\<close>

definition elf_load_out :: "addr \<Rightarrow> int \<Rightarrow> int \<Rightarrow> 'a elf_state_scheme \<Rightarrow> 'a elf_state_scheme option" where
  "elf_load_out elf_file fd res st = do {
     st1 \<leftarrow> (if elf_file \<noteq> 0 \<and> res < 0
            then do {
              f \<leftarrow> elf_files st elf_file;
              Some (kfree elf_file (if elf_memory f \<noteq> 0 then kfree (elf_memory f) st else st)) }
            else Some st);
     if fd \<noteq> 0 then fclose fd st1 else Some st1 }"

definition elf_load_file ::
  "addr \<Rightarrow> int \<Rightarrow> 'a elf_state_scheme \<Rightarrow> (int \<times> 'a elf_state_scheme) option" where
  "elf_load_file elf_file fd st =
     (if fd \<le> 0 then Some (- EIO, st)
      else do {
        (res, st1) \<leftarrow> fstat fd (stat_buf st) st;
        if res < 0 then Some (- EIO, st1)
        else do {
          let stat_size = read32 (mem st1) (stat_buf st1 + 104);
          let (image, st2) = kzalloc stat_size st1;
          f \<leftarrow> elf_files st2 elf_file;
          let st3 = st2\<lparr>elf_files := (elf_files st2)(elf_file \<mapsto> f\<lparr>elf_memory := image\<rparr>)\<rparr>;
          (res', st4) \<leftarrow> fread fd image (sint stat_size) st3;
          if res' < 0 then Some (res', st4) else elf_process_loaded elf_file st4 } })"

definition elf_load ::
  "addr \<Rightarrow> addr \<Rightarrow> 'a elf_state_scheme \<Rightarrow> (int \<times> addr \<times> 'a elf_state_scheme) option" where
  "elf_load filename out st = do {
     let (elf_file, st1) = kzalloc 124 st;
     let st2 = (if elf_file = 0 then st1 else st1\<lparr>elf_files := (elf_files st1)(elf_file \<mapsto> zero_elf)\<rparr>);
     (fd, st3) \<leftarrow> fopen filename (lit_r st2) st2;
     (res, st4) \<leftarrow> elf_load_file elf_file fd st3;
     st5 \<leftarrow> elf_load_out elf_file fd res st4;
     Some (res, (if res < 0 then out else elf_file), st5) }"

definition elf_close :: "addr \<Rightarrow> 'a elf_state_scheme \<Rightarrow> 'a elf_state_scheme option" where
  "elf_close file st =
     (if file = 0 then Some st
      else do {
        f \<leftarrow> elf_files st file;
        Some (kfree file (kfree (elf_memory f) st)) })"

section \<open>binary.c\<close>

text \<open>A descriptor of 0 is closed as well, which has no value.\<close>

definition load_binary_file ::
  "int \<Rightarrow> addr \<Rightarrow> u32 \<Rightarrow> 'a elf_state_scheme \<Rightarrow> (int \<times> addr \<times> u32 \<times> 'a elf_state_scheme) option" where
  "load_binary_file fd data sz st =
     (if fd = 0 then Some (- EIO, data, sz, st)
      else do {
        (res, st1) \<leftarrow> fstat fd (stat_buf st) st;
        if res < 0 then Some (res, data, sz, st1)
        else do {
          let stat_size = read32 (mem st1) (stat_buf st1 + 104);
          let (program_data, st2) = kzalloc stat_size st1;
          if program_data = 0 then Some (- EMEM, data, sz, st2)
          else do {
            (n, st3) \<leftarrow> fread fd program_data (sint stat_size) st2;
            if n < 0 then Some (- EIO, data, sz, kfree program_data st3)
            else Some (res, program_data, stat_size, st3) } } })"

definition load_binary ::
  "addr \<Rightarrow> addr \<Rightarrow> u32 \<Rightarrow> 'a elf_state_scheme \<Rightarrow> (int \<times> addr \<times> u32 \<times> 'a elf_state_scheme) option" where
  "load_binary filename data sz st = do {
     (fd, st1) \<leftarrow> fopen filename (lit_r st) st;
     (res, data', sz', st2) \<leftarrow> load_binary_file fd data sz st1;
     st3 \<leftarrow> fclose fd st2;
     Some (res, data', sz', st3) }"

section \<open>loader.c\<close>

abbreviation (input) PROCESS_FILETYPE_ELF :: "'a::one" where
  "PROCESS_FILETYPE_ELF \<equiv> 1"

abbreviation (input) PROCESS_FILETYPE_BINARY :: "'a::numeral" where
  "PROCESS_FILETYPE_BINARY \<equiv> 2"

definition load_data ::
  "addr \<Rightarrow> addr \<Rightarrow> u32 \<Rightarrow> 'a elf_state_scheme \<Rightarrow> (int \<times> addr \<times> u32 \<times> 'a elf_state_scheme) option" where
  "load_data filename data sz st = do {
     (res, data1, st1) \<leftarrow> elf_load filename data st;
     if res = - EINFORMAT
     then do {
       (res', data', sz', st2) \<leftarrow> load_binary filename data1 sz st1;
       Some (if res' < 0 then res' else PROCESS_FILETYPE_BINARY, data', sz', st2) }
     else Some (if res < 0 then res else PROCESS_FILETYPE_ELF, data1, sz, st1) }"

text \<open>
  The page tables are in the memory that also holds the image, so the headers are read anew
  in every round.  The number of headers has 16 bits, which bounds the loop.
\<close>

function map_elf_loop ::
  "addr \<Rightarrow> addr \<Rightarrow> ElfFile \<Rightarrow> nat \<Rightarrow> int \<Rightarrow> memory \<Rightarrow> int \<times> memory" where
  "map_elf_loop page header f i res m =
     (if i < unat (e_phnum m header)
      then (let pheader = elf_get_pheader m header (int i);
                phy_address = elf_get_pheader_phy_address m f pheader;
                flags = (if p_flags m pheader AND PF_W \<noteq> 0 then 7 else 5);
                (res', m') = map_page_range m page (algin_to_lower_page (p_vaddr m pheader))
                  (algin_to_lower_page phy_address) (sint (p_memsz m pheader)) flags
            in if res' < 0 then (res', m') else map_elf_loop page header f (Suc i) res' m')
      else (res, m))"
  by pat_completeness auto

lemma unat_u16_less: "unat (w :: u16) < 65536"
  using unsigned_less [of w, where ?'a = nat] by simp

termination map_elf_loop
proof (relation "measure (\<lambda>(page, header, f, i, res, m). 65536 - i)", goal_cases)
  case (2 page header f i res m)
  then show ?case using less_trans [OF 2(1) unat_u16_less] by simp
qed simp

declare map_elf_loop.simps [simp del]

definition process_map_memory_to_elf ::
  "addr \<Rightarrow> addr \<Rightarrow> 'a elf_state_scheme \<Rightarrow> (int \<times> 'a elf_state_scheme) option" where
  "process_map_memory_to_elf page elf_file st = do {
     f \<leftarrow> elf_files st elf_file;
     let (res, m) = map_elf_loop page (elf_memory f) f 0 0 (mem st);
     Some (res, st\<lparr>mem := m\<rparr>) }"

definition process_map_memory_to_binary ::
  "addr \<Rightarrow> addr \<Rightarrow> u32 \<Rightarrow> 'a elf_state_scheme \<Rightarrow> int \<times> 'a elf_state_scheme" where
  "process_map_memory_to_binary page data sz st =
     (let (res, m) = map_page_range (mem st) page ZHIOS_PROGRAM_VIRTUAL_ADDRESS data (sint sz) 7
      in (res, st\<lparr>mem := m\<rparr>))"

definition loader_map_memory ::
  "addr \<Rightarrow> addr \<Rightarrow> u32 \<Rightarrow> int \<Rightarrow> 'a elf_state_scheme \<Rightarrow> (int \<times> 'a elf_state_scheme) option" where
  "loader_map_memory page data sz file_type st =
     (if file_type = PROCESS_FILETYPE_ELF then process_map_memory_to_elf page data st
      else if file_type = PROCESS_FILETYPE_BINARY then Some (process_map_memory_to_binary page data sz st)
      else Some (- EINFORMAT, st))"

definition loader_free_data ::
  "addr \<Rightarrow> int \<Rightarrow> 'a elf_state_scheme \<Rightarrow> 'a elf_state_scheme option" where
  "loader_free_data program_data file_type st =
     (if file_type = PROCESS_FILETYPE_ELF then elf_close program_data st
      else if file_type = PROCESS_FILETYPE_BINARY then Some (kfree program_data st)
      else Some st)"

section \<open>The program headers\<close>

lemma pheader_loop_fold:
  "pheader_loop m header i n res f =
     (if n = 0 then res else 0,
      fold (\<lambda>p f. snd (elf_process_pheader m p f)) (map (\<lambda>j. elf_get_pheader m header (int j)) [i..<i + n]) f)"
proof (induction n arbitrary: i res f)
  case (Suc n)
  have "[i..<i + Suc n] = i # [Suc i..<Suc i + n]" by (simp add: upt_conv_Cons)
  moreover have "fst (elf_process_pheader m p f) = 0" for p
    by (simp add: elf_process_pheader_def elf_process_pt_load_def Let_def)
  ultimately show ?case using Suc by (auto simp: split_def Let_def)
qed simp

text \<open>The headers that count, and what one of them contributes.\<close>

definition load_headers :: "memory \<Rightarrow> addr \<Rightarrow> addr list" where
  "load_headers m header = filter (\<lambda>p. p_type m p = PT_LOAD)
     (map (\<lambda>j. elf_get_pheader m header (int j)) [0..<unat (e_phnum m header)])"

definition p_vend :: "memory \<Rightarrow> addr \<Rightarrow> u32" where
  "p_vend m p = p_vaddr m p + p_filesz m p"

definition load_step :: "memory \<Rightarrow> addr \<Rightarrow> ElfFile \<Rightarrow> ElfFile" where
  "load_step m p f = snd (elf_process_pt_load m p f)"

lemma fold_pheaders:
  "fold (\<lambda>p f. snd (elf_process_pheader m p f)) ps f = fold (load_step m) (filter (\<lambda>p. p_type m p = PT_LOAD) ps) f"
  by (induction ps arbitrary: f) (simp_all add: elf_process_pheader_def load_step_def)

lemma load_step_simps:
  "elf_memory (load_step m p f) = elf_memory f"
  "virtual_base_address (load_step m p f) =
     (if virtual_base_address f = 0 then p_vaddr m p else min (virtual_base_address f) (p_vaddr m p))"
  "virtual_end_address (load_step m p f) =
     (if virtual_end_address f = 0 then p_vend m p else max (virtual_end_address f) (p_vend m p))"
  "physical_start_address (load_step m p f) =
     (if virtual_base_address f = 0 \<or> p_vaddr m p \<le> virtual_base_address f
      then elf_memory f + p_offset m p else physical_start_address f)"
  "physical_end_address (load_step m p f) =
     (if virtual_end_address f = 0 \<or> virtual_end_address f \<le> p_vend m p
      then elf_memory f + p_offset m p + p_filesz m p else physical_end_address f)"
  by (auto simp: load_step_def elf_process_pt_load_def Let_def p_vend_def min_def max_def)

definition bounds_of :: "memory \<Rightarrow> addr list \<Rightarrow> ElfFile \<Rightarrow> bool" where
  "bounds_of m ps f \<longleftrightarrow>
     virtual_base_address f = Min (p_vaddr m ` set ps) \<and> virtual_end_address f = Max (p_vend m ` set ps) \<and>
     (\<exists>p \<in> set ps. p_vaddr m p = virtual_base_address f \<and>
        physical_start_address f = elf_memory f + p_offset m p) \<and>
     (\<exists>p \<in> set ps. p_vend m p = virtual_end_address f \<and>
        physical_end_address f = elf_memory f + p_offset m p + p_filesz m p)"

lemma bounds_step:
  assumes "bounds_of m ps f" "ps \<noteq> []" "\<forall>q \<in> set ps. p_vaddr m q \<noteq> 0 \<and> p_vend m q \<noteq> 0"
  shows "bounds_of m (ps @ [p]) (load_step m p f)"
proof -
  have nz: "virtual_base_address f \<noteq> 0" "virtual_end_address f \<noteq> 0"
    using assms(1,3) unfolding bounds_of_def by metis+
  have "Min (p_vaddr m ` set (ps @ [p])) = min (virtual_base_address f) (p_vaddr m p)"
    "Max (p_vend m ` set (ps @ [p])) = max (virtual_end_address f) (p_vend m p)"
    using assms(1,2) by (simp_all add: bounds_of_def min.commute max.commute)
  then show ?thesis
    using assms(1) nz unfolding bounds_of_def load_step_simps
    by (auto simp: min_def max_def)
qed

lemma fold_load_step:
  assumes "ps \<noteq> []" "\<forall>q \<in> set ps. p_vaddr m q \<noteq> 0 \<and> p_vend m q \<noteq> 0"
    and "virtual_base_address f = 0" "virtual_end_address f = 0"
  shows "bounds_of m ps (fold (load_step m) ps f) \<and> elf_memory (fold (load_step m) ps f) = elf_memory f"
  using assms(1,2)
proof (induction ps rule: rev_nonempty_induct)
  case (single p)
  then show ?case using assms(3,4) by (simp add: bounds_of_def load_step_simps)
next
  case (snoc p ps)
  then have "bounds_of m (ps @ [p]) (load_step m p (fold (load_step m) ps f))"
    by (intro bounds_step) auto
  with snoc show ?case by (simp add: load_step_simps)
qed

section \<open>Mapping\<close>

text \<open>
  What header \<open>i\<close> of an image asks for: the pages from its rounded-down virtual address, as
  many as fit in its memory size and one more, and the entry for an address in them.
\<close>

definition seg_base :: "memory \<Rightarrow> addr \<Rightarrow> nat \<Rightarrow> addr" where
  "seg_base m header i = algin_to_lower_page (p_vaddr m (elf_get_pheader m header (int i)))"

definition seg_phys :: "memory \<Rightarrow> ElfFile \<Rightarrow> addr \<Rightarrow> nat \<Rightarrow> addr" where
  "seg_phys m f header i = algin_to_lower_page (elf_memory f + p_offset m (elf_get_pheader m header (int i)))"

definition seg_size :: "memory \<Rightarrow> addr \<Rightarrow> nat \<Rightarrow> int" where
  "seg_size m header i = sint (p_memsz m (elf_get_pheader m header (int i)))"

definition seg_flags :: "memory \<Rightarrow> addr \<Rightarrow> nat \<Rightarrow> int" where
  "seg_flags m header i = (if p_flags m (elf_get_pheader m header (int i)) AND PF_W \<noteq> 0 then 7 else 5)"

definition covers :: "memory \<Rightarrow> addr \<Rightarrow> addr \<Rightarrow> nat \<Rightarrow> bool" where
  "covers m header w i \<longleftrightarrow> int (unat (w - seg_base m header i) div 4096) < seg_size m header i div 4096 + 1"

definition seg_entry :: "memory \<Rightarrow> ElfFile \<Rightarrow> addr \<Rightarrow> addr \<Rightarrow> nat \<Rightarrow> u32" where
  "seg_entry m f header w i =
     (seg_phys m f header i + of_nat (4096 * (unat (w - seg_base m header i) div 4096)))
       OR of_int (seg_flags m header i)"

text \<open>The entry of an address after mapping headers \<open>i\<close> to \<open>n - 1\<close>: the last header that covers it wins.\<close>

definition mapped_entry :: "memory \<Rightarrow> ElfFile \<Rightarrow> addr \<Rightarrow> nat \<Rightarrow> nat \<Rightarrow> addr \<Rightarrow> u32 \<Rightarrow> u32" where
  "mapped_entry m f header i n w old =
     (case find (covers m header w) (rev [i..<n]) of None \<Rightarrow> old | Some j \<Rightarrow> seg_entry m f header w j)"

lemmas seg_defs = seg_base_def seg_phys_def seg_size_def seg_flags_def covers_def seg_entry_def

lemma mapped_entry_Cons:
  assumes "i < n"
  shows "mapped_entry m f header i n w old =
    mapped_entry m f header (Suc i) n w (if covers m header w i then seg_entry m f header w i else old)"
proof -
  have "find P (xs @ [x]) = (case find P xs of None \<Rightarrow> if P x then Some x else None | Some y \<Rightarrow> Some y)"
    for P xs and x :: nat
    by (induction xs) simp_all
  then show ?thesis using assms by (simp add: mapped_entry_def upt_conv_Cons split: option.split)
qed

text \<open>The bytes of an image that lies apart from the page tables survive the mapping, and so do its headers.\<close>

definition apart :: "memory \<Rightarrow> addr \<Rightarrow> addr \<Rightarrow> nat \<Rightarrow> bool" where
  "apart m page a n \<longleftrightarrow> (\<forall>q \<in> tables_of m page. region q 4096 \<inter> region a n = {})"

lemma remaps_apart:
  assumes "remaps m page m'" "apart m page h n" "a \<in> region h n"
  shows "m' a = m a"
proof (rule remapsD(4) [OF assms(1)])
  have al: "unat (a - a mod 4096) mod 4096 = 0" by (simp only: page_base_unat mod_mult_self1_is_0)
  show "unat (a - a mod 4096) mod 4096 = 0" by (rule al)
  show in_page: "a \<in> region (a - a mod 4096) 4096"
    using first_page [OF al, of a] page_base_unat [of a] by (simp add: in_region)
  show "a - a mod 4096 \<notin> tables_of m page"
    using assms(2,3) in_page unfolding apart_def by blast
qed

definition image_fits :: "memory \<Rightarrow> addr \<Rightarrow> nat \<Rightarrow> bool" where
  "image_fits m header n \<longleftrightarrow> n \<le> 4294967296 \<and> 52 \<le> n \<and> e_phoff m header \<noteq> 0 \<and>
     unat (e_phoff m header) + 32 * unat (e_phnum m header) \<le> n"

definition same_bytes :: "memory \<Rightarrow> memory \<Rightarrow> addr \<Rightarrow> nat \<Rightarrow> bool" where
  "same_bytes m m' h n \<longleftrightarrow> (\<forall>a \<in> region h n. m' a = m a)"

lemma same_read32:
  assumes "same_bytes m m' h n" "k + 4 \<le> n" "n \<le> 4294967296"
  shows "read32 m' (h + of_nat k) = read32 m (h + of_nat k)"
  using region_shift_subset [OF assms(2,3)] assms(1) by (intro read32_cong) (auto simp: same_bytes_def)

lemma same_headers:
  assumes "same_bytes m m' h n" "image_fits m h n"
  shows "e_phoff m' h = e_phoff m h" "e_phnum m' h = e_phnum m h"
    "elf_get_pheader m' h i = elf_get_pheader m h i"
proof -
  have n: "52 \<le> n" "n \<le> 4294967296" using assms(2) by (simp_all add: image_fits_def)
  show off: "e_phoff m' h = e_phoff m h"
    using same_read32 [OF assms(1) _ n(2), of 28] n(1) by (simp add: e_phoff_def)
  have "h + 44 \<in> region h n" "h + 45 \<in> region h n"
    using n region_add [of 44 n h] region_add [of 45 n h] by simp_all
  then show "e_phnum m' h = e_phnum m h"
    using assms(1) by (simp add: e_phnum_def read16_def same_bytes_def add.assoc)
  show "elf_get_pheader m' h i = elf_get_pheader m h i"
    by (simp add: elf_get_pheader_def elf_get_pheader_start_def off)
qed

lemma same_pheader:
  assumes "same_bytes m m' h n" "image_fits m h n" "i < unat (e_phnum m h)" "k \<le> 28"
  shows "read32 m' (elf_get_pheader m h (int i) + of_nat k) = read32 m (elf_get_pheader m h (int i) + of_nat k)"
proof -
  have f: "e_phoff m h \<noteq> 0" "unat (e_phoff m h) + 32 * unat (e_phnum m h) \<le> n" "n \<le> 4294967296"
    using assms(2) by (simp_all add: image_fits_def)
  have eq: "elf_get_pheader m h (int i) + of_nat k = h + of_nat (unat (e_phoff m h) + 32 * i + k)"
    using f(1) by (simp add: elf_get_pheader_def elf_get_pheader_start_def)
  show ?thesis
    unfolding eq by (rule same_read32 [OF assms(1) _ f(3)]) (use f(2) assms(3,4) in linarith)
qed

lemma same_segment:
  assumes "same_bytes m m' h n" "image_fits m h n" "i < unat (e_phnum m h)"
  shows "seg_base m' h i = seg_base m h i" "seg_phys m' f h i = seg_phys m f h i"
    "seg_size m' h i = seg_size m h i" "seg_flags m' h i = seg_flags m h i"
  using same_pheader [OF assms, of 4] same_pheader [OF assms, of 8] same_pheader [OF assms, of 20]
    same_pheader [OF assms, of 24]
  by (simp_all add: seg_defs same_headers [OF assms(1,2)] p_vaddr_def p_offset_def p_memsz_def p_flags_def)

lemma lower_page_aligned: "unat (algin_to_lower_page a) mod 4096 = 0"
  unfolding algin_to_lower_page_def by (simp only: page_base_unat mod_mult_self1_is_0)

lemma map_elf_loop_spec:
  assumes "page_ok m0 page" "image_fits m0 h n" "apart m0 page h n" "N = unat (e_phnum m0 h)"
    and "\<And>i. i < N \<Longrightarrow> 0 \<le> seg_size m0 h i \<and> seg_size m0 h i < 2147479552"
  shows "remaps m0 page m \<Longrightarrow> i \<le> N \<Longrightarrow> map_elf_loop page h f i 0 m = (res, m') \<Longrightarrow>
    res = 0 \<and> remaps m0 page m' \<and>
    get_page m' (read32 m0 page) w = mapped_entry m0 f h i N w (get_page m (read32 m0 page) w)"
proof (induction "N - i" arbitrary: i m)
  case 0
  have "same_bytes m0 m h n" using remaps_apart [OF 0(2) assms(3)] by (simp add: same_bytes_def)
  then have "e_phnum m h = e_phnum m0 h" by (rule same_headers [OF _ assms(2)])
  then have "map_elf_loop page h f i 0 m = (0, m)" using 0(1) assms(4) by (subst map_elf_loop.simps) simp
  then show ?case using 0 by (simp add: mapped_entry_def)
next
  case (Suc x)
  have i: "i < N" "i < unat (e_phnum m0 h)" using Suc(2) assms(4) by auto
  have same: "same_bytes m0 m h n" using remaps_apart [OF Suc(3) assms(3)] by (simp add: same_bytes_def)
  note sg = same_segment [OF same assms(2) i(2)]
  obtain r m1 where m1: "map_page_range m page (seg_base m h i) (seg_phys m f h i) (seg_size m h i)
      (seg_flags m h i) = (r, m1)" by (rule prod.exhaust)
  have ok: "page_ok m page" and dir: "read32 m page = read32 m0 page" using remapsD [OF Suc(3)] by auto
  have "unat (seg_base m h i) mod 4096 = 0" "unat (seg_phys m f h i) mod 4096 = 0"
    by (simp_all only: seg_base_def seg_phys_def lower_page_aligned)
  note sp = map_page_range_spec [OF ok this _ _ m1, unfolded sg]
  have r: "r = 0" "remaps m page m1" using sp(1,2) assms(5) [OF i(1)] by simp_all
  have g: "get_page m1 (read32 m0 page) w =
      (if covers m0 h w i then seg_entry m0 f h w i else get_page m (read32 m0 page) w)"
    using sp(3) [of w] assms(5) [OF i(1)] by (simp add: dir covers_def seg_entry_def)
  have "map_elf_loop page h f i 0 m = map_elf_loop page h f (Suc i) 0 m1"
    using i(2) m1 r(1) same_headers(2) [OF same assms(2)]
    by (subst map_elf_loop.simps) (simp add: seg_defs elf_get_pheader_phy_address_def Let_def)
  then show ?case
    using Suc(1) [of "Suc i" m1] Suc(2,5) i(1) remaps_trans [OF Suc(3) r(2)]
    by (simp add: g mapped_entry_Cons [OF i(1)])
qed

section \<open>Properties\<close>

text \<open>
  C32: the bounds of an ELF image.  When no loadable segment starts or ends at virtual
  address 0, the loop over the program headers succeeds; the virtual base is the least start
  and the virtual end the greatest end of a loadable segment, and the physical bounds are
  those of the image bytes of such a segment.
\<close>

theorem elf_process_pheaders_bounds:
  assumes "virtual_base_address f = 0" "virtual_end_address f = 0"
    and "ps = load_headers m (elf_memory f)" "ps \<noteq> []"
    and "\<forall>p \<in> set ps. p_vaddr m p \<noteq> 0 \<and> p_vend m p \<noteq> 0"
    and "elf_process_pheaders m f = (res, f')"
  shows "res = 0 \<and> elf_memory f' = elf_memory f \<and>
    virtual_base_address f' = Min (p_vaddr m ` set ps) \<and>
    virtual_end_address f' = Max (p_vend m ` set ps) \<and>
    (\<exists>p \<in> set ps. p_vaddr m p = virtual_base_address f' \<and>
       physical_start_address f' = elf_memory f + p_offset m p) \<and>
    (\<exists>p \<in> set ps. p_vend m p = virtual_end_address f' \<and>
       physical_end_address f' = elf_memory f + p_offset m p + p_filesz m p)"
proof -
  have e: "f' = fold (load_step m) ps f" "res = 0"
    using assms(3,6) by (auto simp: elf_process_pheaders_def Let_def pheader_loop_fold fold_pheaders load_headers_def)
  have "bounds_of m ps (fold (load_step m) ps f) \<and> elf_memory (fold (load_step m) ps f) = elf_memory f"
    by (rule fold_load_step [OF assms(4,5,1,2)])
  then have b: "bounds_of m ps f'" "elf_memory f' = elf_memory f" by (simp_all add: e(1))
  then show ?thesis using e(2) b(1) [unfolded bounds_of_def b(2)] by blast
qed

text \<open>An image with two loadable segments, at address \<open>0x1000\<close>.\<close>

definition elf_mem_ex :: memory where
  "elf_mem_ex = (\<lambda>_. 0)(0x101C := 52, 0x102C := 2,
     0x1034 := 1, 0x1039 := 0x10, 0x103E := 0x40, 0x1045 := 2, 0x1049 := 2, 0x104C := 5,
     0x1054 := 1, 0x1059 := 0x20, 0x105D := 0x10, 0x105E := 0x40, 0x1065 := 1, 0x1069 := 0x18, 0x106C := 6)"

definition elf_ex :: ElfFile where
  "elf_ex = zero_elf\<lparr>elf_memory := 0x1000\<rparr>"

lemmas elf_fields = e_phoff_def e_phnum_def p_type_def p_offset_def p_vaddr_def p_filesz_def p_memsz_def
  p_flags_def elf_get_pheader_def elf_get_pheader_start_def

lemma elf_mem_ex_fields:
  "e_phoff elf_mem_ex 0x1000 = 52" "e_phnum elf_mem_ex 0x1000 = 2"
  "p_type elf_mem_ex 0x1034 = 1" "p_type elf_mem_ex 0x1054 = 1"
  "p_offset elf_mem_ex 0x1034 = 0x1000" "p_offset elf_mem_ex 0x1054 = 0x2000"
  "p_vaddr elf_mem_ex 0x1034 = 0x400000" "p_vaddr elf_mem_ex 0x1054 = 0x401000"
  "p_filesz elf_mem_ex 0x1034 = 0x200" "p_filesz elf_mem_ex 0x1054 = 0x100"
  "p_memsz elf_mem_ex 0x1034 = 0x200" "p_memsz elf_mem_ex 0x1054 = 0x1800"
  "p_flags elf_mem_ex 0x1034 = 5" "p_flags elf_mem_ex 0x1054 = 6"
  by (simp_all add: elf_fields read16_def read32_def elf_mem_ex_def)

lemma elf_mem_ex_headers:
  "elf_get_pheader elf_mem_ex 0x1000 0 = 0x1034" "elf_get_pheader elf_mem_ex 0x1000 1 = 0x1054"
  "load_headers elf_mem_ex 0x1000 = [0x1034, 0x1054]"
  by (simp_all add: load_headers_def upt_conv_Cons elf_get_pheader_def elf_get_pheader_start_def elf_mem_ex_fields)

theorem elf_process_pheaders_bounds_witness:
  "\<exists>f'. elf_process_pheaders elf_mem_ex elf_ex = (0, f') \<and>
     virtual_base_address f' = 0x400000 \<and> virtual_end_address f' = 0x401100"
proof -
  obtain res f' where f: "elf_process_pheaders elf_mem_ex elf_ex = (res, f')" by (rule prod.exhaust)
  have "res = 0 \<and> elf_memory f' = elf_memory elf_ex \<and>
      virtual_base_address f' = Min (p_vaddr elf_mem_ex ` set [0x1034, 0x1054]) \<and>
      virtual_end_address f' = Max (p_vend elf_mem_ex ` set [0x1034, 0x1054])"
    using elf_process_pheaders_bounds [OF _ _ _ _ _ f, of "[0x1034, 0x1054]"]
    by (simp add: elf_ex_def zero_elf_def elf_mem_ex_headers elf_mem_ex_fields p_vend_def)
  with f show ?thesis by (simp add: elf_mem_ex_fields p_vend_def)
qed

text \<open>
  A state with a new address space and a page that holds given bytes, for the witnesses.
\<close>

definition elf_state_ex :: elf_state where
  "elf_state_ex = kheap_init
     \<lparr>mem = \<lambda>_. 0, kernel_heap = heap_ex, console = [], current_directory = 0, cr3 = 0, cr0 = 0,
      path_nodes = Map.empty, root_paths = Map.empty, colon_slash = 0,
      dev = sevens_dev, io_log = [],
      disk = \<lparr>disk_id = 0, disk_type = 0, sector_size = 512, disk_fs = 0x100, fs_private = 0\<rparr>,
      disk_addr = 0x9000, streams = Map.empty,
      fat_privates = Map.empty, directories = Map.empty, fat_items = Map.empty, fat_descriptors = Map.empty,
      fat16_fs = 0x100, dot_lit = 0, entry_buf = 0, result_buf = 0, filename_buf = 0,
      file_systems = replicate 12 0, file_descriptors = replicate 256 0, descriptors = Map.empty,
      lit_r = 0x200, lit_w = 0x202, lit_a = 0x204,
      elf_files = Map.empty, elf_signature = 0x300, stat_buf = 0x310\<rparr>"

lemma new_space_apart:
  assumes "kheap_ok st" "1027 \<le> kheap_avail st" "0 < length bs" "length bs \<le> 4096"
    and "kzalloc (of_nat (length bs)) st = (p, st1)"
    and "paging_new_chunk flags (st1\<lparr>mem := store (mem st1) p bs\<rparr>) = (page, st2)"
  shows "kheap_ok st2" "page_ok (mem st2) page" "apart (mem st2) page p 4096" "unat p mod 4096 = 0"
    "\<And>k. k < length bs \<Longrightarrow> mem st2 (p + of_nat k) = bs ! k"
proof -
  let ?st = "st1\<lparr>mem := store (mem st1) p bs\<rparr>"
  have sz: "0 < unat (of_nat (length bs) :: u32)" "unat (of_nat (length bs) :: u32) \<le> 4096"
    using assms(3,4) by simp_all
  have "0 < kheap_avail st" using assms(2) by simp
  note z = kh.zalloc_keeps [OF assms(1) sz this assms(5)]
  have live: "(p, 4096) \<in> kheap_live st1" using z(2) by simp
  have "store (mem st1) p bs a = mem st1 a" if "a \<notin> region p 4096" for a
    using that assms(4) region_mono [OF assms(4), of p] by (subst store_eq) auto
  note put = kh.put_live [OF z(1) live this]
  have "1026 \<le> kheap_avail ?st" using put(3) z(3) assms(2) by simp
  note c = paging_new_chunk_spec [OF put(1) this assms(6)]
  show "kheap_ok st2" "page_ok (mem st2) page" using c(1,3) by simp_all
  show al: "unat p mod 4096 = 0" by (rule z(6))
  show "apart (mem st2) page p 4096"
    unfolding apart_def
  proof
    fix q
    assume "q \<in> tables_of (mem st2) page"
    then have "(q, 4096) \<in> chunk_owned (mem st2) page" "unat q mod 4096 = 0"
      by (auto simp: tables_of_def chunk_owned_def chunk_pages_def table_of_aligned simp del: mod_0_imp_dvd)
    moreover have "(p, 4096) \<in> kheap_live ?st" using put(2) live by simp
    ultimately show "region q 4096 \<inter> region p 4096 = {}"
      using c(5) al by (intro pages_disjoint) auto
  qed
  show "mem st2 (p + of_nat k) = bs ! k" if "k < length bs" for k
  proof -
    have "p + of_nat k \<in> region p 4096" using that assms(4) by (intro region_add) simp_all
    then have "mem st2 (p + of_nat k) = mem ?st (p + of_nat k)"
      using c(8) [of p 4096] put(2) live by simp
    then show ?thesis using that assms(4) by (simp add: store_eq in_region)
  qed
qed

definition image_ex :: "u8 list" where
  "image_ex = (replicate 84 0)[28 := 52, 44 := 1, 52 := 1, 62 := 0x40, 72 := 84, 76 := 6]"

text \<open>
  C15: the address space of an ELF program.  When the image (its header and program headers
  within \<open>n\<close> bytes) lies apart from the page tables and no segment has a negative or a huge
  memory size, \<^verbatim>\<open>loader_map_memory\<close> succeeds, keeps the directory well-formed and the image
  unchanged, and the entry of every address is the one that the last program header covering
  it asks for; an address that no header covers keeps its entry.  A header covers the pages
  from its rounded-down start, counted by its memory size alone, so the last page of a
  segment that starts inside a page can remain outside.
\<close>

theorem elf_mapping_last_header_wins:
  assumes "elf_files st file = Some f" "page_ok (mem st) page"
    and "image_fits (mem st) (elf_memory f) n" "apart (mem st) page (elf_memory f) n"
    and "\<And>i. i < unat (e_phnum (mem st) (elf_memory f)) \<Longrightarrow>
      0 \<le> seg_size (mem st) (elf_memory f) i \<and> seg_size (mem st) (elf_memory f) i < 2147479552"
  shows "\<exists>st'. loader_map_memory page file sz PROCESS_FILETYPE_ELF st = Some (0, st') \<and>
    page_ok (mem st') page \<and> (\<forall>a \<in> region (elf_memory f) n. mem st' a = mem st a) \<and>
    (\<forall>w. get_page (mem st') (paging_get_directory (mem st') page) w =
       mapped_entry (mem st) f (elf_memory f) 0 (unat (e_phnum (mem st) (elf_memory f))) w
         (get_page (mem st) (paging_get_directory (mem st) page) w))"
proof -
  obtain res m where m: "map_elf_loop page (elf_memory f) f 0 0 (mem st) = (res, m)" by (rule prod.exhaust)
  note sp = map_elf_loop_spec [OF assms(2-4) refl assms(5) remaps_refl [OF assms(2)] le0 m]
  have re: "res = 0" "remaps (mem st) page m" using sp by simp_all
  have "loader_map_memory page file sz PROCESS_FILETYPE_ELF st = Some (0, st\<lparr>mem := m\<rparr>)"
    using assms(1) m re(1) by (simp add: loader_map_memory_def process_map_memory_to_elf_def)
  moreover have "page_ok m page" "read32 m page = read32 (mem st) page" using remapsD [OF re(2)] by auto
  moreover have "\<forall>a \<in> region (elf_memory f) n. m a = mem st a"
    using remaps_apart [OF re(2) assms(4)] by blast
  ultimately show ?thesis
    using sp by (intro exI [of _ "st\<lparr>mem := m\<rparr>"]) (simp add: paging_get_directory_def)
qed

theorem elf_mapping_last_header_wins_witness:
  "\<exists>(st :: elf_state) page p st'. loader_map_memory page 0x500 84 PROCESS_FILETYPE_ELF st = Some (0, st') \<and>
     get_page (mem st') (paging_get_directory (mem st') page) 0x400010 = p OR 7"
proof -
  obtain p st1 where z: "kzalloc (of_nat (length image_ex)) elf_state_ex = (p, st1)" by (rule prod.exhaust)
  obtain page st2 where c: "paging_new_chunk 7 (st1\<lparr>mem := store (mem st1) p image_ex\<rparr>) = (page, st2)"
    by (rule prod.exhaust)
  have ex: "kheap_ok elf_state_ex" "1027 \<le> kheap_avail elf_state_ex"
    unfolding elf_state_ex_def by (simp_all add: kheap_init_ok)
  have len: "0 < length image_ex" "length image_ex \<le> 4096" by (simp_all add: image_ex_def)
  note sp = new_space_apart [OF ex len z c]
  let ?m = "mem st2"
  have b: "?m (p + of_nat k) = image_ex ! k" if "k < 84" for k using sp(5) that by (simp add: image_ex_def)
  have f: "e_phoff ?m p = 52" "e_phnum ?m p = 1"
    using b [of 28] b [of 29] b [of 30] b [of 31] b [of 44] b [of 45]
    by (simp_all add: e_phoff_def e_phnum_def read32_def read16_def add.assoc image_ex_def)
  have h: "elf_get_pheader ?m p 0 = p + 52" using f by (simp add: elf_get_pheader_def elf_get_pheader_start_def)
  have g: "p_offset ?m (p + 52) = 0" "p_vaddr ?m (p + 52) = 0x400000" "p_memsz ?m (p + 52) = 84"
    "p_flags ?m (p + 52) = 6"
    using b [of 56] b [of 57] b [of 58] b [of 59] b [of 60] b [of 61] b [of 62] b [of 63]
      b [of 72] b [of 73] b [of 74] b [of 75] b [of 76] b [of 77] b [of 78] b [of 79]
    by (simp_all add: p_offset_def p_vaddr_def p_memsz_def p_flags_def read32_def add.assoc image_ex_def)
  let ?f = "zero_elf\<lparr>elf_memory := p\<rparr>"
  let ?st = "st2\<lparr>elf_files := [0x500 \<mapsto> ?f]\<rparr>"
  have fits: "image_fits ?m p 4096" using f by (simp add: image_fits_def)
  have sg: "seg_base ?m p 0 = 0x400000" "seg_size ?m p 0 = 84" "seg_flags ?m p 0 = 7" "seg_phys ?m ?f p 0 = p"
    using h g sp(4) by (simp_all add: seg_defs algin_to_lower_page_def page_aligned_word)
  have ent: "mapped_entry ?m ?f p 0 1 0x400010 old = p OR 7" for old
    by (simp add: mapped_entry_def covers_def seg_entry_def sg)
  have "\<exists>st'. loader_map_memory page 0x500 84 PROCESS_FILETYPE_ELF ?st = Some (0, st') \<and>
      page_ok (mem st') page \<and> (\<forall>a \<in> region p 4096. mem st' a = ?m a) \<and>
      (\<forall>w. get_page (mem st') (paging_get_directory (mem st') page) w =
        mapped_entry ?m ?f p 0 1 w (get_page ?m (paging_get_directory ?m page) w))"
    using elf_mapping_last_header_wins [of ?st "0x500" ?f page 4096 84] sp(2,3) fits f sg(2) by simp
  then show ?thesis using ent by metis
qed

text \<open>
  C34: the address space of a flat binary.  Every byte \<open>k\<close> of the program is found at virtual
  address \<open>0x400000 + k\<close>, provided that the buffer is page-aligned.
\<close>

theorem loader_map_binary_translates:
  assumes "page_ok (mem st) page" "unat data mod 4096 = 0" "unat sz < 2147479552" "k \<le> unat sz"
  shows "\<exists>st'. loader_map_memory page data sz PROCESS_FILETYPE_BINARY st = Some (0, st') \<and>
    page_ok (mem st') page \<and>
    paging_get_physical_address (mem st') page (ZHIOS_PROGRAM_VIRTUAL_ADDRESS + of_nat k) = data + of_nat k"
proof -
  have sz: "sint sz = int (unat sz)" using assms(3) by (intro sint_eq_uint_small) simp
  obtain res m where m: "map_page_range (mem st) page ZHIOS_PROGRAM_VIRTUAL_ADDRESS data (sint sz) 7 = (res, m)"
    by (rule prod.exhaust)
  have v: "unat (ZHIOS_PROGRAM_VIRTUAL_ADDRESS :: addr) mod 4096 = 0" by simp
  have b: "0 \<le> sint sz" "sint sz < 2147479552"
    using assms(3) unfolding sz by (simp_all only: of_nat_0_le_iff of_nat_less_numeral_iff)
  have "int k div 4096 \<le> sint sz div 4096" unfolding sz using assms(4) by (intro zdiv_mono1) (simp_all only: of_nat_le_iff zero_less_numeral)
  note t = map_page_range_translate [OF assms(1) v assms(2) b m _ _ this]
  have re: "res = 0" "page_ok m page"
    using map_page_range_spec(1,2) [OF assms(1) v assms(2) b m] by (auto dest: remapsD)
  then have "loader_map_memory page data sz PROCESS_FILETYPE_BINARY st = Some (0, st\<lparr>mem := m\<rparr>)"
    using m by (simp add: loader_map_memory_def process_map_memory_to_binary_def)
  then show ?thesis using re t by simp
qed

theorem loader_map_binary_translates_witness:
  "\<exists>(st :: elf_state) page st'. loader_map_memory page 0x1500000 5000 PROCESS_FILETYPE_BINARY st = Some (0, st') \<and>
     paging_get_physical_address (mem st') page (ZHIOS_PROGRAM_VIRTUAL_ADDRESS + of_nat 4999) = 0x1500000 + of_nat 4999"
proof -
  obtain m page where ok: "page_ok m page" using page_ok_ex by blast
  then have "page_ok (mem (elf_state_ex\<lparr>mem := m\<rparr>)) page" by simp
  from loader_map_binary_translates [OF this, of "0x1500000" 5000 4999] show ?thesis by fastforce
qed

end
