(* ===== verification/Zhios_Task.thy ===== *)
theory Zhios_Task
  imports Zhios_Loader
begin

text \<open>
  Tasks, \<^verbatim>\<open>src/src/task/task.c\<close> and \<^verbatim>\<open>task.asm\<close>, and \<^verbatim>\<open>kernel_page\<close> of \<^verbatim>\<open>kernel.c\<close>.  Tasks and
  processes point to each other, so the records of both are here.  The list of tasks is
  doubly linked through typed stores; \<open>tasks_ok st ts\<close> says that it holds the tasks \<open>ts\<close> in
  order.  The kernel's own data are reached through the identity mapping that every address
  space has for them; accesses to addresses of a task go through the directory in \<open>cr3\<close>
  (\<open>mmu\<close>), and have no value when the page is not present.
  \<^verbatim>\<open>restore_task\<close> does not return: it enters user mode with the given registers, which is
  one of the two outcomes in \<open>control\<close>.  An endless loop (\<^verbatim>\<open>while (1)\<close>) has no value.
\<close>

section \<open>Records\<close>

record Registers =
  reg_edi :: u32
  reg_esi :: u32
  reg_ebp :: u32
  reg_ebx :: u32
  reg_edx :: u32
  reg_ecx :: u32
  reg_eax :: u32
  reg_ip :: u32
  reg_cs :: u32
  reg_flags :: u32
  reg_esp :: u32
  reg_ss :: u32

record InterruptFrame =
  frame_edi :: u32
  frame_esi :: u32
  frame_ebp :: u32
  frame_reserved :: u32
  frame_ebx :: u32
  frame_edx :: u32
  frame_ecx :: u32
  frame_eax :: u32
  frame_ip :: u32
  frame_cs :: u32
  frame_flags :: u32
  frame_esp :: u32
  frame_ss :: u32

record Task =
  page_directory :: addr
  registers :: Registers
  task_next_link :: addr
  task_prev_link :: addr
  task_process :: addr

record KeyboardBuffer =
  kb_head :: int
  kb_tail :: int
  kb_buffer :: "u8 list"

record ProcessAllocation =
  alloc_ptr :: addr
  alloc_size :: u32

record ProcessParameters =
  par_count :: u32
  command_arguments :: "addr list"
  par_start_address :: u32

record Process =
  proc_id :: u16
  proc_filename :: "u8 list"
  proc_task :: addr
  allocations :: "ProcessAllocation list"
  proc_stack :: addr
  program_data :: addr
  proc_size :: u32
  file_type :: int
  keyboard_buffer :: KeyboardBuffer
  parameters :: addr

text \<open>
  The state: the three statics of \<^verbatim>\<open>task.c\<close>, the global \<^verbatim>\<open>page\<close> of \<^verbatim>\<open>kernel.c\<close>, and the
  selector in the data-segment registers.
\<close>

record task_state = elf_state +
  tasks :: "addr \<rightharpoonup> Task"
  processes :: "addr \<rightharpoonup> Process"
  current_task :: addr
  head_task :: addr
  tail_task :: addr
  kernel_chunk :: addr
  data_segment :: u16

datatype 'a control = Returns 'a | Enters Registers

abbreviation (input) USER_DATA_SEGMENT :: "'a::numeral" where
  "USER_DATA_SEGMENT \<equiv> 0x23"

abbreviation (input) USER_CODE_SEGMENT :: "'a::numeral" where
  "USER_CODE_SEGMENT \<equiv> 0x1B"

abbreviation (input) ZHIOS_PROGRAM_VIRTUAL_STACK_ADDRESS_START :: "'a::numeral" where
  "ZHIOS_PROGRAM_VIRTUAL_STACK_ADDRESS_START \<equiv> 0x3FF000"

section \<open>Registers and address translation\<close>

definition user_registers :: "'a task_state_scheme \<Rightarrow> 'a task_state_scheme" where
  "user_registers st = st\<lparr>data_segment := 0x23\<rparr>"

definition kernel_registers :: "'a task_state_scheme \<Rightarrow> 'a task_state_scheme" where
  "kernel_registers st = st\<lparr>data_segment := 0x10\<rparr>"

text \<open>\<open>restore_task\<close> sets the interrupt flag in the flags it loads.\<close>

definition restore_task ::
  "Registers \<Rightarrow> 'a task_state_scheme \<Rightarrow> 'r control \<times> 'a task_state_scheme" where
  "restore_task r st =
     (Enters (r\<lparr>reg_flags := reg_flags r OR 0x200\<rparr>), st\<lparr>data_segment := ucast (reg_ss r)\<rparr>)"

definition kernel_page :: "'a task_state_scheme \<Rightarrow> 'a task_state_scheme" where
  "kernel_page st = paging_switch (kernel_chunk st) (kernel_registers st)"

definition mmu :: "memory \<Rightarrow> addr \<Rightarrow> addr \<Rightarrow> addr option" where
  "mmu m directory v =
     (let entry = get_page m directory v
      in if entry AND PAGING_IS_PRESENT \<noteq> 0 then Some ((entry AND 0xfffff000) + v mod PAGING_PAGE_SIZE)
         else None)"

definition vread8 :: "addr \<Rightarrow> 'a task_state_scheme \<Rightarrow> u8 option" where
  "vread8 v st = map_option (mem st) (mmu (mem st) (cr3 st) v)"

definition vread32 :: "addr \<Rightarrow> 'a task_state_scheme \<Rightarrow> u32 option" where
  "vread32 v st = do {
     b0 \<leftarrow> vread8 v st;
     b1 \<leftarrow> vread8 (v + 1) st;
     b2 \<leftarrow> vread8 (v + 2) st;
     b3 \<leftarrow> vread8 (v + 3) st;
     Some (ucast b0 OR push_bit 8 (ucast b1) OR push_bit 16 (ucast b2) OR push_bit 24 (ucast b3)) }"

definition vwrite8 :: "addr \<Rightarrow> u8 \<Rightarrow> 'a task_state_scheme \<Rightarrow> 'a task_state_scheme option" where
  "vwrite8 v b st = do {
     a \<leftarrow> mmu (mem st) (cr3 st) v;
     Some (st\<lparr>mem := (mem st)(a := b)\<rparr>) }"

text \<open>\<open>strncpy\<close> of the library, running in the address space in \<open>cr3\<close>.\<close>

fun vcopy :: "addr \<Rightarrow> addr \<Rightarrow> nat \<Rightarrow> nat \<Rightarrow> 'a task_state_scheme \<Rightarrow> 'a task_state_scheme option" where
  "vcopy src dest i 0 st = Some st"
| "vcopy src dest i (Suc left) st = do {
     b \<leftarrow> vread8 (src + of_nat i) st;
     st1 \<leftarrow> vwrite8 (dest + of_nat i) b st;
     vcopy src dest (Suc i) left st1 }"

definition vstrncpy :: "addr \<Rightarrow> addr \<Rightarrow> int \<Rightarrow> 'a task_state_scheme \<Rightarrow> 'a task_state_scheme option" where
  "vstrncpy src dest n st = do {
     st1 \<leftarrow> vcopy src dest 0 (nat n) st;
     vwrite8 (dest + of_nat (nat n)) 0 st1 }"

section \<open>The list of tasks\<close>

definition upd_task ::
  "(Task \<Rightarrow> Task) \<Rightarrow> addr \<Rightarrow> 'a task_state_scheme \<Rightarrow> 'a task_state_scheme option" where
  "upd_task f t st = map_option (\<lambda>x. st\<lparr>tasks := (tasks st)(t \<mapsto> f x)\<rparr>) (tasks st t)"

definition zero_registers :: Registers where
  "zero_registers = \<lparr>reg_edi = 0, reg_esi = 0, reg_ebp = 0, reg_ebx = 0, reg_edx = 0, reg_ecx = 0,
     reg_eax = 0, reg_ip = 0, reg_cs = 0, reg_flags = 0, reg_esp = 0, reg_ss = 0\<rparr>"

text \<open>
  \<open>init_task\<close>: the caller ignores the result, so a task whose directory could not be
  allocated stays in the list with zeroed registers.
\<close>

definition init_task ::
  "addr \<Rightarrow> addr \<Rightarrow> 'a task_state_scheme \<Rightarrow> (int \<times> 'a task_state_scheme) option" where
  "init_task task process st =
     (if task = 0 then None
      else (let (page, st1) = paging_new_chunk 5 (st\<lparr>mem := memset (mem st) task 0 64\<rparr>);
                t0 = \<lparr>page_directory = page, registers = zero_registers, task_next_link = 0,
                      task_prev_link = 0, task_process = 0\<rparr>
            in if page = 0 then Some (- EIO, st1\<lparr>tasks := (tasks st1)(task \<mapsto> t0)\<rparr>)
               else do {
                 p \<leftarrow> processes st1 process;
                 ip \<leftarrow> (if file_type p = PROCESS_FILETYPE_ELF
                        then map_option (e_entry (mem st1)) (elf_get_header (program_data p) st1)
                        else Some ZHIOS_PROGRAM_VIRTUAL_ADDRESS);
                 let r = zero_registers\<lparr>reg_ip := ip, reg_ss := USER_DATA_SEGMENT, reg_cs := USER_CODE_SEGMENT,
                       reg_esp := ZHIOS_PROGRAM_VIRTUAL_STACK_ADDRESS_START,
                       reg_ebp := ZHIOS_PROGRAM_VIRTUAL_STACK_ADDRESS_START\<rparr>;
                 Some (0, st1\<lparr>tasks := (tasks st1)(task \<mapsto> t0\<lparr>registers := r, task_process := process\<rparr>)\<rparr>) }))"

definition create_task :: "addr \<Rightarrow> 'a task_state_scheme \<Rightarrow> (addr \<times> 'a task_state_scheme) option" where
  "create_task process st = do {
     let (task, st1) = kzalloc 64 st;
     (res, st2) \<leftarrow> init_task task process st1;
     if head_task st2 = 0
     then Some (task, st2\<lparr>head_task := task, tail_task := task, current_task := task\<rparr>)
     else do {
       st3 \<leftarrow> upd_task (\<lambda>t. t\<lparr>task_next_link := task\<rparr>) (tail_task st2) st2;
       st4 \<leftarrow> upd_task (\<lambda>t. t\<lparr>task_prev_link := tail_task st3\<rparr>) task st3;
       Some (task, st4\<lparr>tail_task := task\<rparr>) } }"

definition switch_task :: "addr \<Rightarrow> 'a task_state_scheme \<Rightarrow> 'a task_state_scheme option" where
  "switch_task task st = do {
     t \<leftarrow> tasks st task;
     Some (paging_switch (page_directory t) (st\<lparr>current_task := task\<rparr>)) }"

definition current_task_page :: "'a task_state_scheme \<Rightarrow> 'a task_state_scheme option" where
  "current_task_page st = switch_task (current_task st) (user_registers st)"

definition switch_to_task_page :: "addr \<Rightarrow> 'a task_state_scheme \<Rightarrow> 'a task_state_scheme option" where
  "switch_to_task_page task st = do {
     t \<leftarrow> tasks st task;
     Some (paging_switch (page_directory t) (user_registers st)) }"

definition run_first_task ::
  "'a task_state_scheme \<Rightarrow> (unit control \<times> 'a task_state_scheme) option" where
  "run_first_task st =
     (if head_task st = 0 then Some (Returns (), kprint (bytes_of ''No tasks to execute..'') st)
      else do {
        st1 \<leftarrow> switch_task (head_task st) st;
        t \<leftarrow> tasks st1 (head_task st1);
        Some (restore_task (registers t) st1) })"

definition get_next_task :: "'a task_state_scheme \<Rightarrow> addr option" where
  "get_next_task st = do {
     t \<leftarrow> tasks st (current_task st);
     Some (if task_next_link t = 0 then head_task st else task_next_link t) }"

definition remove_from_task_list ::
  "addr \<Rightarrow> 'a task_state_scheme \<Rightarrow> 'a task_state_scheme option" where
  "remove_from_task_list task st = do {
     t \<leftarrow> tasks st task;
     st1 \<leftarrow> (if task_prev_link t \<noteq> 0
            then upd_task (\<lambda>p. p\<lparr>task_next_link := task_next_link t\<rparr>) (task_prev_link t) st
            else Some st);
     t1 \<leftarrow> tasks st1 task;
     let st2 = (if task = head_task st1 then st1\<lparr>head_task := task_next_link t1\<rparr> else st1);
     let st3 = (if task = tail_task st2 then st2\<lparr>tail_task := task_prev_link t1\<rparr> else st2);
     if task = current_task st3
     then do {
       n \<leftarrow> get_next_task st3;
       Some (st3\<lparr>current_task := n\<rparr>) }
     else Some st3 }"

definition free_task :: "addr \<Rightarrow> 'a task_state_scheme \<Rightarrow> (int \<times> 'a task_state_scheme) option" where
  "free_task task st = do {
     t \<leftarrow> tasks st task;
     st1 \<leftarrow> remove_from_task_list task (free_page (page_directory t) st);
     Some (0, st1) }"

definition save_state ::
  "addr \<Rightarrow> InterruptFrame \<Rightarrow> 'a task_state_scheme \<Rightarrow> 'a task_state_scheme option" where
  "save_state task frame st =
     upd_task (\<lambda>t. t\<lparr>registers := \<lparr>reg_edi = frame_edi frame, reg_esi = frame_esi frame,
        reg_ebp = frame_ebp frame, reg_ebx = frame_ebx frame, reg_edx = frame_edx frame,
        reg_ecx = frame_ecx frame, reg_eax = frame_eax frame, reg_ip = frame_ip frame,
        reg_cs = frame_cs frame, reg_flags = frame_flags frame, reg_esp = frame_esp frame,
        reg_ss = frame_ss frame\<rparr>\<rparr>) task st"

text \<open>
  \<open>copy_string_from_task\<close> maps a kernel page into the task's address space, copies there
  with the task's directory loaded, restores the entry and copies on with the kernel's.
\<close>

definition copy_string_from_task ::
  "addr \<Rightarrow> addr \<Rightarrow> addr \<Rightarrow> int \<Rightarrow> 'a task_state_scheme \<Rightarrow> (int \<times> 'a task_state_scheme) option" where
  "copy_string_from_task task virt phy_address maxlen st =
     (if maxlen \<ge> PAGING_PAGE_SIZE then Some (- EINARG, st)
      else (let (tmp, st1) = kzalloc (of_int maxlen) st in
            if tmp = 0 then Some (- EMEM, st1)
            else do {
              t \<leftarrow> tasks st1 task;
              let page = page_directory t;
              let old_entry = get_page (mem st1) (read32 (mem st1) page) tmp;
              let (res1, m2) = map_page (mem st1) page tmp tmp 7;
              st4 \<leftarrow> vstrncpy virt tmp maxlen (paging_switch page (st1\<lparr>mem := m2\<rparr>));
              let st5 = kernel_page st4;
              let (res, m6) = set_page (mem st5) (read32 (mem st5) page) tmp old_entry;
              let st6 = st5\<lparr>mem := m6\<rparr>;
              if res < 0 then Some (res, kfree tmp st6)
              else Some (res, kfree tmp (st6\<lparr>mem := strncpy (mem st6) tmp phy_address maxlen\<rparr>)) }))"

definition get_current_task :: "'a task_state_scheme \<Rightarrow> addr" where
  "get_current_task st = current_task st"

definition task_save_current_state ::
  "InterruptFrame \<Rightarrow> 'a task_state_scheme \<Rightarrow> 'a task_state_scheme option" where
  "task_save_current_state frame st =
     (if get_current_task st = 0 then None else save_state (get_current_task st) frame st)"

definition task_get_stack_item ::
  "addr \<Rightarrow> int \<Rightarrow> 'a task_state_scheme \<Rightarrow> (u32 \<times> 'a task_state_scheme) option" where
  "task_get_stack_item task index st = do {
     t \<leftarrow> tasks st task;
     let st_ptr = reg_esp (registers t);
     st1 \<leftarrow> switch_to_task_page task st;
     result \<leftarrow> vread32 (st_ptr + 4 * of_int index) st1;
     Some (result, kernel_page st1) }"

definition task_next :: "'a task_state_scheme \<Rightarrow> (addr control \<times> 'a task_state_scheme) option" where
  "task_next st = do {
     next_task \<leftarrow> get_next_task st;
     if next_task = 0 then None
     else do {
       st1 \<leftarrow> switch_task next_task st;
       t \<leftarrow> tasks st1 next_task;
       Some (restore_task (registers t) st1) } }"

section \<open>The list as a sequence\<close>

definition next_of :: "'a task_state_scheme \<Rightarrow> addr \<Rightarrow> addr option" where
  "next_of st t = map_option task_next_link (tasks st t)"

definition prev_of :: "'a task_state_scheme \<Rightarrow> addr \<Rightarrow> addr option" where
  "prev_of st t = map_option task_prev_link (tasks st t)"

text \<open>The element at a position, and the null pointer behind the end.\<close>

definition link_at :: "addr list \<Rightarrow> nat \<Rightarrow> addr" where
  "link_at ts i = (if i < length ts then ts ! i else 0)"

definition prev_at :: "addr list \<Rightarrow> nat \<Rightarrow> addr" where
  "prev_at ts i = (if i = 0 then 0 else ts ! (i - 1))"

text \<open>
  \<open>tasks_fwd\<close>: head, tail, current task and next links describe the sequence; \<open>tasks_ok\<close>: the
  prev links do so too.
\<close>

definition tasks_fwd :: "'a task_state_scheme \<Rightarrow> addr list \<Rightarrow> bool" where
  "tasks_fwd st ts \<longleftrightarrow> distinct ts \<and> 0 \<notin> set ts \<and> head_task st = link_at ts 0 \<and>
     (\<forall>i < length ts. next_of st (ts ! i) = Some (link_at ts (Suc i))) \<and>
     tail_task st = prev_at ts (length ts) \<and>
     (if ts = [] then current_task st = 0 else current_task st \<in> set ts)"

definition tasks_ok :: "'a task_state_scheme \<Rightarrow> addr list \<Rightarrow> bool" where
  "tasks_ok st ts \<longleftrightarrow> tasks_fwd st ts \<and> (\<forall>i < length ts. prev_of st (ts ! i) = Some (prev_at ts i))"

lemma link_at_nonzero: "0 \<notin> set ts \<Longrightarrow> link_at ts i = 0 \<longleftrightarrow> length ts \<le> i"
  by (auto simp: link_at_def) (metis nth_mem)

lemma nth_inj: "distinct ts \<Longrightarrow> i < length ts \<Longrightarrow> j < length ts \<Longrightarrow> ts ! i = ts ! j \<longleftrightarrow> i = j"
  by (rule nth_eq_iff_index_eq)

lemma get_next_task_cyclic:
  assumes "tasks_fwd st ts" "i < length ts" "current_task st = ts ! i"
  shows "get_next_task st = Some (ts ! (Suc i mod length ts))"
proof -
  have n: "next_of st (ts ! i) = Some (link_at ts (Suc i))" "head_task st = link_at ts 0" "0 \<notin> set ts"
    using assms(1,2) by (auto simp: tasks_fwd_def)
  then obtain x where x: "tasks st (ts ! i) = Some x" "task_next_link x = link_at ts (Suc i)"
    by (auto simp: next_of_def)
  show ?thesis
  proof (cases "Suc i < length ts")
    case True
    then have "link_at ts (Suc i) \<noteq> 0" using link_at_nonzero [OF n(3)] by simp
    then show ?thesis using x True assms(3) by (simp add: get_next_task_def link_at_def)
  next
    case False
    then have "Suc i = length ts" using assms(2) by simp
    then show ?thesis using x n(2) assms(2,3) by (auto simp: get_next_task_def link_at_def)
  qed
qed

lemma tasks_fwd_switch:
  assumes "tasks_fwd st ts" "t \<in> set ts"
  shows "tasks_fwd (paging_switch page (st\<lparr>current_task := t\<rparr>)) ts"
  using assms by (auto simp: tasks_fwd_def paging_switch_def page_load_directory_def next_of_def Let_def)

lemma tasks_ok_switch:
  assumes "tasks_ok st ts" "t \<in> set ts"
  shows "tasks_ok (paging_switch page (st\<lparr>current_task := t\<rparr>)) ts"
  using assms tasks_fwd_switch [of st ts t page]
  by (simp add: tasks_ok_def prev_of_def paging_switch_def page_load_directory_def Let_def)

text \<open>The state part of \<open>task_next\<close>, and what it does to a well-formed list.\<close>

definition task_switched :: "'a task_state_scheme \<Rightarrow> 'a task_state_scheme option" where
  "task_switched st = map_option snd (task_next st)"

lemma task_next_spec:
  assumes "tasks_ok st ts" "i < length ts" "current_task st = ts ! i" "t = ts ! (Suc i mod length ts)"
  obtains x st' where "tasks st t = Some x"
    "task_next st = Some (Enters ((registers x)\<lparr>reg_flags := reg_flags (registers x) OR 0x200\<rparr>), st')"
    "tasks_ok st' ts" "current_task st' = t" "tasks st' = tasks st"
    "cr3 st' = read32 (mem st) (page_directory x)"
proof -
  have fwd: "tasks_fwd st ts" using assms(1) by (simp add: tasks_ok_def)
  have j: "Suc i mod length ts < length ts" using assms(2) by (intro mod_less_divisor) auto
  then have t: "t \<in> set ts" "t \<noteq> 0" using assms(4) fwd by (auto simp: tasks_fwd_def) (metis nth_mem)
  have "next_of st t \<noteq> None" using fwd j assms(4) by (simp add: tasks_fwd_def)
  then obtain x where x: "tasks st t = Some x" by (auto simp: next_of_def)
  let ?st = "paging_switch (page_directory x) (st\<lparr>current_task := t\<rparr>)"
  have s: "tasks ?st = tasks st" "current_task ?st = t" "cr3 ?st = read32 (mem st) (page_directory x)"
    by (simp_all add: paging_switch_def page_load_directory_def Let_def)
  have "task_next st = Some (restore_task (registers x) ?st)"
    using get_next_task_cyclic [OF fwd assms(2,3)] t(2) x s(1) assms(4)
    by (simp add: task_next_def switch_task_def)
  moreover have "tasks_ok (?st\<lparr>data_segment := d\<rparr>) ts" for d
    using tasks_ok_switch [OF assms(1) t(1), of "page_directory x"]
    by (simp add: tasks_ok_def tasks_fwd_def next_of_def prev_of_def)
  ultimately show ?thesis
    using x s by (intro that [of x "?st\<lparr>data_segment := ucast (reg_ss (registers x))\<rparr>"]) (simp_all add: restore_task_def)
qed

section \<open>Round robin\<close>

text \<open>
  The contract of a scheduler: a step moves on to the next of a cyclic sequence that it does
  not change.  Every task gets its turn.
\<close>

primrec iterate :: "nat \<Rightarrow> ('s \<Rightarrow> 's option) \<Rightarrow> 's \<Rightarrow> 's option" where
  "iterate 0 f s = Some s"
| "iterate (Suc k) f s = Option.bind (iterate k f s) f"

locale round_robin =
  fixes ok :: "'s \<Rightarrow> addr list \<Rightarrow> bool"
    and running :: "'s \<Rightarrow> addr"
    and step :: "'s \<Rightarrow> 's option"
  assumes step_next: "ok s ts \<Longrightarrow> i < length ts \<Longrightarrow> running s = ts ! i \<Longrightarrow>
      \<exists>s'. step s = Some s' \<and> ok s' ts \<and> running s' = ts ! (Suc i mod length ts)"
    and running_in: "ok s ts \<Longrightarrow> ts \<noteq> [] \<Longrightarrow> running s \<in> set ts"
begin

lemma steps_cyclic:
  assumes "ok s ts" "i < length ts" "running s = ts ! i"
  shows "\<exists>s'. iterate k step s = Some s' \<and> ok s' ts \<and> running s' = ts ! ((i + k) mod length ts)"
proof (induction k)
  case 0
  then show ?case using assms by simp
next
  case (Suc k)
  then obtain s' where s': "iterate k step s = Some s'" "ok s' ts" "running s' = ts ! ((i + k) mod length ts)"
    by blast
  have "(i + k) mod length ts < length ts" using assms(2) by (intro mod_less_divisor) auto
  from step_next [OF s'(2) this s'(3)] show ?case using s'(1) by (auto simp: mod_Suc_eq)
qed

lemma every_turn:
  assumes "ok s ts" "t \<in> set ts"
  shows "\<exists>k < length ts. \<exists>s'. iterate k step s = Some s' \<and> ok s' ts \<and> running s' = t"
proof -
  have "ts \<noteq> []" using assms(2) by auto
  then obtain i where i: "i < length ts" "running s = ts ! i"
    using running_in [OF assms(1)] by (auto simp: in_set_conv_nth)
  obtain j where j: "j < length ts" "t = ts ! j" using assms(2) by (auto simp: in_set_conv_nth)
  let ?k = "(j + length ts - i) mod length ts"
  have "(i + ?k) mod length ts = (i + (j + length ts - i)) mod length ts" by (rule mod_add_right_eq)
  also have "\<dots> = j" using i(1) j(1) by simp
  finally have "(i + ?k) mod length ts = j" .
  moreover have "?k < length ts" using i(1) by (intro mod_less_divisor) auto
  ultimately show ?thesis using steps_cyclic [OF assms(1) i, of ?k] j(2) by auto
qed

end

interpretation rr: round_robin tasks_ok current_task task_switched
proof
  fix st :: "'a task_state_scheme" and ts i
  assume a: "tasks_ok st ts" "i < length ts" "current_task st = ts ! i"
  obtain r st' where "task_next st = Some (Enters r, st')"
    "tasks_ok st' ts" "current_task st' = ts ! (Suc i mod length ts)"
    by (rule task_next_spec [OF a refl]) (rule that)
  then show "\<exists>st'. task_switched st = Some st' \<and> tasks_ok st' ts \<and> current_task st' = ts ! (Suc i mod length ts)"
    by (intro exI [of _ st']) (simp add: task_switched_def)
qed (auto simp: tasks_ok_def tasks_fwd_def)

section \<open>Removal\<close>

lemma upd_task_links:
  assumes "upd_task f t st = Some st'"
  shows "tasks st' = (tasks st)(t \<mapsto> f (the (tasks st t)))" "tasks st t \<noteq> None"
    "head_task st' = head_task st" "tail_task st' = tail_task st" "current_task st' = current_task st"
  using assms by (auto simp: upd_task_def)

definition drop_at :: "nat \<Rightarrow> 'b list \<Rightarrow> 'b list" where
  "drop_at i ts = take i ts @ drop (Suc i) ts"

lemma drop_at_nth:
  assumes "i < length ts"
  shows "length (drop_at i ts) = length ts - 1"
    "k < length ts - 1 \<Longrightarrow> drop_at i ts ! k = ts ! (if k < i then k else Suc k)"
  using assms by (auto simp: drop_at_def nth_append min_def)

lemma link_at_drop:
  assumes "i < length ts"
  shows "link_at (drop_at i ts) k = link_at ts (if k < i then k else Suc k)"
  using assms by (auto simp: link_at_def drop_at_nth)

lemma drop_at_set:
  assumes "distinct ts" "i < length ts"
  shows "set (drop_at i ts) = set ts - {ts ! i}" "distinct (drop_at i ts)"
proof -
  have ts: "ts = take i ts @ ts ! i # drop (Suc i) ts" using assms(2) by (rule id_take_nth_drop)
  have "distinct (take i ts @ ts ! i # drop (Suc i) ts)" using assms(1) ts by simp
  moreover have "set ts = set (take i ts @ ts ! i # drop (Suc i) ts)" using ts by simp
  ultimately show "set (drop_at i ts) = set ts - {ts ! i}" "distinct (drop_at i ts)"
    unfolding drop_at_def by (auto simp del: append_take_drop_id)
qed

text \<open>
  The state after the predecessor of task \<open>i\<close>, when it has one, has been redirected: next
  links skip task \<open>i\<close>, everything else is as before.
\<close>

definition skips :: "'a task_state_scheme \<Rightarrow> 'a task_state_scheme \<Rightarrow> addr list \<Rightarrow> nat \<Rightarrow> bool" where
  "skips st st1 ts i \<longleftrightarrow>
     (\<forall>k < length ts. next_of st1 (ts ! k) = Some (if Suc k = i then link_at ts (Suc i) else link_at ts (Suc k)) \<and>
        prev_of st1 (ts ! k) = Some (prev_at ts k)) \<and>
     head_task st1 = head_task st \<and> tail_task st1 = tail_task st \<and> current_task st1 = current_task st"

lemma redirected_links:
  assumes "tasks_ok st ts" "i < length ts" "tasks st (ts ! i) = Some t"
  obtains st1 where
    "(if task_prev_link t \<noteq> 0
      then upd_task (\<lambda>p. p\<lparr>task_next_link := task_next_link t\<rparr>) (task_prev_link t) st else Some st) = Some st1"
    "skips st st1 ts i"
proof -
  have d: "distinct ts" "0 \<notin> set ts" and n: "\<And>k. k < length ts \<Longrightarrow> next_of st (ts ! k) = Some (link_at ts (Suc k))"
    and p: "\<And>k. k < length ts \<Longrightarrow> prev_of st (ts ! k) = Some (prev_at ts k)"
    using assms(1) by (auto simp: tasks_ok_def tasks_fwd_def)
  have t: "task_next_link t = link_at ts (Suc i)" "task_prev_link t = prev_at ts i"
    using n [OF assms(2)] p [OF assms(2)] assms(3) by (simp_all add: next_of_def prev_of_def)
  show ?thesis
  proof (cases "i = 0")
    case True
    then show ?thesis using t n p by (intro that [of st]) (simp_all add: prev_at_def skips_def)
  next
    case False
    then have i1: "i - 1 < length ts" "prev_at ts i = ts ! (i - 1)" using assms(2) by (simp_all add: prev_at_def)
    then have nz: "prev_at ts i \<noteq> 0" using d(2) by (metis nth_mem)
    obtain x where x: "tasks st (ts ! (i - 1)) = Some x" using n [OF i1(1)] by (auto simp: next_of_def)
    let ?st = "st\<lparr>tasks := (tasks st)(ts ! (i - 1) \<mapsto> x\<lparr>task_next_link := link_at ts (Suc i)\<rparr>)\<rparr>"
    have "ts ! k = ts ! (i - 1) \<longleftrightarrow> Suc k = i" if "k < length ts" for k
      using nth_inj [OF d(1) that i1(1)] False by auto
    then have "next_of ?st (ts ! k) = Some (if Suc k = i then link_at ts (Suc i) else link_at ts (Suc k)) \<and>
        prev_of ?st (ts ! k) = Some (prev_at ts k)" if "k < length ts" for k
      using that n [OF that] p [OF that] x by (auto simp: next_of_def prev_of_def)
    then have "skips st ?st ts i" by (simp add: skips_def)
    then show ?thesis using x nz i1(2) t by (intro that [of ?st]) (simp_all add: upd_task_def)
  qed
qed

text \<open>Where a removal leaves the current task.\<close>

definition current_after :: "addr \<Rightarrow> addr list \<Rightarrow> nat \<Rightarrow> addr" where
  "current_after cur ts i =
     (if cur \<noteq> ts ! i then cur
      else if Suc i < length ts then ts ! Suc i else link_at (drop_at i ts) 0)"

lemma skips_fwd:
  assumes "skips st st1 ts i" "tasks_ok st ts" "i < length ts"
    and "head_task st' = (if i = 0 then link_at ts 1 else head_task st)"
    and "tail_task st' = (if Suc i = length ts then prev_at ts i else tail_task st)"
    and "current_task st' = current_after (current_task st) ts i" "tasks st' = tasks st1"
  shows "tasks_fwd st' (drop_at i ts)"
proof -
  have d: "distinct ts" "0 \<notin> set ts" "head_task st = link_at ts 0" "tail_task st = prev_at ts (length ts)"
    "current_task st \<in> set ts"
    using assms(2,3) by (auto simp: tasks_ok_def tasks_fwd_def split: if_splits)
  note ds = drop_at_set [OF d(1) assms(3)] and dn = drop_at_nth [OF assms(3)] and dl = link_at_drop [OF assms(3)]
  have "next_of st' (drop_at i ts ! k) = Some (link_at (drop_at i ts) (Suc k))" if "k < length (drop_at i ts)" for k
  proof -
    have k: "k < length ts - 1" using that dn(1) by simp
    have "next_of st1 (ts ! (if k < i then k else Suc k)) =
        Some (if Suc (if k < i then k else Suc k) = i then link_at ts (Suc i)
              else link_at ts (Suc (if k < i then k else Suc k)))"
      using assms(1) k by (simp add: skips_def)
    moreover have "next_of st' a = next_of st1 a" for a using assms(7) by (simp add: next_of_def)
    moreover have "Suc k < i \<or> Suc k = i \<or> i \<le> k" by linarith
    ultimately show ?thesis by (elim disjE) (simp_all add: dl dn(2) [OF k])
  qed
  moreover have "head_task st' = link_at (drop_at i ts) 0" using assms(4) d(3) by (simp add: dl)
  moreover have "tail_task st' = prev_at (drop_at i ts) (length (drop_at i ts))"
  proof (cases "length ts = 1")
    case True
    then show ?thesis using assms(3,5) dn(1) by (simp add: prev_at_def)
  next
    case False
    then obtain n where n: "length ts = Suc (Suc n)" using assms(3) by (metis One_nat_def less_nat_zero_code not0_implies_Suc)
    then have "Suc i = length ts \<longleftrightarrow> n < i" "n < i \<Longrightarrow> i = Suc n" using assms(3) by auto
    then show ?thesis
      using n assms(5) d(4) dn(1) dn(2) [of n] by (cases "n < i") (simp_all add: prev_at_def)
  qed
  moreover have "if drop_at i ts = [] then current_task st' = 0 else current_task st' \<in> set (drop_at i ts)"
  proof -
    have "ts ! Suc i \<in> set ts - {ts ! i}" if "Suc i < length ts" using that nth_inj [OF d(1), of "Suc i" i] by simp
    then have "current_after (current_task st) ts i \<in> set (drop_at i ts) \<or>
        drop_at i ts = [] \<and> current_after (current_task st) ts i = 0"
      unfolding current_after_def using d(5) ds(1) nth_mem [of 0 "drop_at i ts"]
      by (cases "current_task st = ts ! i"; cases "Suc i < length ts") (auto simp: link_at_def)
    with assms(6) have "current_task st' \<in> set (drop_at i ts) \<or> drop_at i ts = [] \<and> current_task st' = 0" by simp
    then show ?thesis by auto
  qed
  ultimately show ?thesis using ds d(2) unfolding tasks_fwd_def by simp
qed

lemma remove_from_task_list_spec:
  assumes "tasks_ok st ts" "i < length ts"
  obtains st' st1 where "remove_from_task_list (ts ! i) st = Some st'" "skips st st1 ts i"
    "tasks st' = tasks st1" "tasks_fwd st' (drop_at i ts)"
    "current_task st' = current_after (current_task st) ts i"
proof -
  have d: "distinct ts" "0 \<notin> set ts" "head_task st = link_at ts 0" "tail_task st = prev_at ts (length ts)"
    and n: "next_of st (ts ! i) = Some (link_at ts (Suc i))"
    using assms by (auto simp: tasks_ok_def tasks_fwd_def)
  obtain t where t: "tasks st (ts ! i) = Some t" using n by (auto simp: next_of_def)
  obtain st1 where st1: "(if task_prev_link t \<noteq> 0
      then upd_task (\<lambda>p. p\<lparr>task_next_link := task_next_link t\<rparr>) (task_prev_link t) st else Some st) = Some st1"
    "skips st st1 ts i" by (rule redirected_links [OF assms t])
  have l: "next_of st1 (ts ! i) = Some (link_at ts (Suc i))" "prev_of st1 (ts ! i) = Some (prev_at ts i)"
    "head_task st1 = head_task st" "tail_task st1 = tail_task st" "current_task st1 = current_task st"
    using st1(2) assms(2) by (auto simp: skips_def)
  obtain t1 where t1: "tasks st1 (ts ! i) = Some t1" "task_next_link t1 = link_at ts (Suc i)"
    "task_prev_link t1 = prev_at ts i" using l(1,2) by (auto simp: next_of_def prev_of_def)
  have hd: "ts ! i = head_task st \<longleftrightarrow> i = 0" using d(1,3) assms(2) nth_inj [OF d(1) assms(2), of 0] by (auto simp: link_at_def)
  have tl: "ts ! i = tail_task st \<longleftrightarrow> Suc i = length ts"
    using d(4) assms(2) nth_inj [OF d(1) assms(2), of "length ts - 1"] by (auto simp: prev_at_def)
  define st2 where "st2 = (if ts ! i = head_task st1 then st1\<lparr>head_task := task_next_link t1\<rparr> else st1)"
  define st3 where "st3 = (if ts ! i = tail_task st2 then st2\<lparr>tail_task := task_prev_link t1\<rparr> else st2)"
  let ?st' = "st3\<lparr>current_task := current_after (current_task st) ts i\<rparr>"
  have s2: "head_task st2 = (if i = 0 then link_at ts 1 else head_task st)" "tail_task st2 = tail_task st"
    "tasks st2 = tasks st1" "current_task st2 = current_task st"
    using l(3-5) hd t1(2) by (simp_all add: st2_def)
  have fld: "head_task st3 = (if i = 0 then link_at ts 1 else head_task st)"
    "tail_task st3 = (if Suc i = length ts then prev_at ts i else tail_task st)"
    "tasks st3 = tasks st1" "current_task st3 = current_task st"
    using s2 tl t1(3) by (simp_all add: st3_def)
  have "get_next_task st3 = Some (current_after (ts ! i) ts i)" if "current_task st = ts ! i"
  proof -
    have "head_task st3 = link_at (drop_at i ts) 0" unfolding fld(1) using d(3) by (simp add: link_at_drop assms(2))
    then show ?thesis
      using that t1 fld link_at_nonzero [OF d(2), of "Suc i"]
      by (auto simp: get_next_task_def current_after_def link_at_def)
  qed
  moreover have "remove_from_task_list (ts ! i) st =
      (if ts ! i = current_task st3 then Option.bind (get_next_task st3) (\<lambda>n. Some (st3\<lparr>current_task := n\<rparr>))
       else Some st3)"
    unfolding remove_from_task_list_def t st1(1) t1(1) Option.bind.bind_lunit Let_def st3_def st2_def ..
  ultimately have "remove_from_task_list (ts ! i) st = Some ?st'"
    using fld(4) by (cases "current_task st = ts ! i") (simp_all add: current_after_def)
  moreover have "tasks_fwd ?st' (drop_at i ts)"
    by (rule skips_fwd [OF st1(2) assms]) (use fld in auto)
  ultimately show ?thesis using st1(2) fld(3) by (intro that [of ?st' st1]) simp_all
qed

section \<open>Creation\<close>

lemma tasks_ok_append:
  assumes "tasks_ok st ts" "task \<notin> set ts" "task \<noteq> 0"
    and "next_of st' task = Some 0" "prev_of st' task = Some (prev_at ts (length ts))"
    and "\<And>i. i < length ts \<Longrightarrow> next_of st' (ts ! i) = (if Suc i = length ts then Some task else next_of st (ts ! i))"
    and "\<And>i. i < length ts \<Longrightarrow> prev_of st' (ts ! i) = prev_of st (ts ! i)"
    and "head_task st' = (if ts = [] then task else head_task st)" "tail_task st' = task"
    and "current_task st' = (if ts = [] then task else current_task st)"
  shows "tasks_ok st' (ts @ [task])"
proof -
  have o: "distinct ts" "0 \<notin> set ts" "head_task st = link_at ts 0"
    "\<And>i. i < length ts \<Longrightarrow> next_of st (ts ! i) = Some (link_at ts (Suc i))"
    "\<And>i. i < length ts \<Longrightarrow> prev_of st (ts ! i) = Some (prev_at ts i)"
    "ts \<noteq> [] \<Longrightarrow> current_task st \<in> set ts"
    using assms(1) by (auto simp: tasks_ok_def tasks_fwd_def)
  have "next_of st' ((ts @ [task]) ! i) = Some (link_at (ts @ [task]) (Suc i))" if "i < Suc (length ts)" for i
    using that o(4) assms(4,6) by (cases "i = length ts") (auto simp: link_at_def nth_append)
  moreover have "prev_of st' ((ts @ [task]) ! i) = Some (prev_at (ts @ [task]) i)" if "i < Suc (length ts)" for i
    using that o(5) assms(5,7) by (cases "i = length ts") (auto simp: prev_at_def nth_append)
  moreover have "head_task st' = link_at (ts @ [task]) 0"
    using assms(8) o(3) by (cases ts) (simp_all add: link_at_def)
  moreover have "tail_task st' = prev_at (ts @ [task]) (length (ts @ [task]))"
    using assms(9) by (simp add: prev_at_def nth_append)
  ultimately show ?thesis
    using o(1,2,6) assms(2,3,10) unfolding tasks_ok_def tasks_fwd_def by auto
qed

text \<open>The new task: zeroed memory, an address space of its own, the entry point of the program.\<close>

definition start_registers :: "u32 \<Rightarrow> Registers" where
  "start_registers ip = zero_registers\<lparr>reg_ip := ip, reg_ss := USER_DATA_SEGMENT, reg_cs := USER_CODE_SEGMENT,
     reg_esp := ZHIOS_PROGRAM_VIRTUAL_STACK_ADDRESS_START, reg_ebp := ZHIOS_PROGRAM_VIRTUAL_STACK_ADDRESS_START\<rparr>"

definition entry_point :: "Process \<Rightarrow> 'a task_state_scheme \<Rightarrow> u32 option" where
  "entry_point p st =
     (if file_type p = PROCESS_FILETYPE_ELF
      then map_option (e_entry (mem st)) (elf_get_header (program_data p) st)
      else Some ZHIOS_PROGRAM_VIRTUAL_ADDRESS)"

lemma init_task_spec:
  assumes "kheap_ok st" "1026 \<le> kheap_avail st" "(task, 4096) \<in> kheap_live st"
    and "processes st process = Some p" "file_type p = PROCESS_FILETYPE_ELF \<Longrightarrow> elf_files st (program_data p) \<noteq> None"
  obtains m x ip where "init_task task process st = Some (0, st\<lparr>mem := m, tasks := (tasks st)(task \<mapsto> x)\<rparr>)"
    "kheap_ok (st\<lparr>mem := m\<rparr>)" "kheap_live st \<subseteq> kheap_live (st\<lparr>mem := m\<rparr>)" "page_ok m (page_directory x)"
    "\<And>v. paging_get_physical_address m (page_directory x) v = v"
    "entry_point p (st\<lparr>mem := m\<rparr>) = Some ip" "registers x = start_registers ip"
    "task_next_link x = 0" "task_prev_link x = 0" "task_process x = process"
proof -
  let ?m = "memset (mem st) task 0 64"
  have "?m a = mem st a" if "a \<notin> region task 4096" for a
    using that region_mono [of 64 4096 task] by (auto simp: memset_eq)
  note put = kh.put_live [OF assms(1,3) this]
  obtain page st1 where c: "paging_new_chunk 5 (st\<lparr>mem := ?m\<rparr>) = (page, st1)" by (rule prod.exhaust)
  obtain m where m: "st1 = st\<lparr>mem := m\<rparr>"
    using paging_new_chunk_put [of 5 "st\<lparr>mem := ?m\<rparr>"] c by auto
  have "1026 \<le> kheap_avail (st\<lparr>mem := ?m\<rparr>)" using put(3) assms(2) by simp
  note sp = paging_new_chunk_spec [OF put(1) this c, unfolded m, simplified]
  have "(page, 4096) \<in> kheap_live (st\<lparr>mem := m\<rparr>)" using sp(4) by (simp add: chunk_owned_def)
  then have page: "page \<noteq> 0" using kh.live_region [OF sp(1)] by blast
  have "task \<noteq> 0" using kh.live_region [OF assms(1,3)] by blast
  have "entry_point p (st\<lparr>mem := m\<rparr>) \<noteq> None"
    using assms(5) by (auto simp: entry_point_def elf_get_header_def)
  then obtain ip where ip: "entry_point p (st\<lparr>mem := m\<rparr>) = Some ip" by blast
  let ?x = "\<lparr>page_directory = page, registers = start_registers ip, task_next_link = 0, task_prev_link = 0,
    task_process = process\<rparr>"
  have "init_task task process st = Some (0, st\<lparr>mem := m, tasks := (tasks st)(task \<mapsto> ?x)\<rparr>)"
    using \<open>task \<noteq> 0\<close> page c m assms(4) ip
    by (auto simp: init_task_def entry_point_def start_registers_def Let_def split: if_splits)
  moreover have "paging_get_physical_address m page v = v" for v by (rule identity_physical_address [OF sp(7)]) simp
  ultimately show ?thesis
    using sp(1,3,4) put(2) ip by (intro that [where m = m and x = ?x and ip = ip]) auto
qed

lemma create_task_spec:
  assumes "tasks_ok st ts" "kheap_ok st" "1027 \<le> kheap_avail st" "\<And>t. t \<in> set ts \<Longrightarrow> (t, 4096) \<in> kheap_live st"
    and "processes st process = Some p" "file_type p = PROCESS_FILETYPE_ELF \<Longrightarrow> elf_files st (program_data p) \<noteq> None"
  obtains task x ip st' where "create_task process st = Some (task, st')" "tasks_ok st' (ts @ [task])"
    "tasks st' task = Some x" "task_process x = process" "registers x = start_registers ip"
    "entry_point p st' = Some ip" "page_ok (mem st') (page_directory x)"
    "\<And>v. paging_get_physical_address (mem st') (page_directory x) v = v"
    "kheap_ok st'" "insert (task, 4096) (kheap_live st) \<subseteq> kheap_live st'" "task \<notin> set ts"
    "current_task st' = (if ts = [] then task else current_task st)"
proof -
  obtain task st1 where z: "kzalloc 64 st = (task, st1)" by (rule prod.exhaust)
  have "0 < kheap_avail st" using assms(3) by simp
  note k = kh.zalloc_keeps [OF assms(2) _ _ this z, simplified]
  obtain m1 where m1: "st1 = st\<lparr>mem := m1\<rparr>" using k(10) by blast
  have live: "(task, 4096) \<in> kheap_live st1" "1026 \<le> kheap_avail st1" using k(2,3) assms(3) by simp_all
  have "processes st1 process = Some p" "file_type p = PROCESS_FILETYPE_ELF \<Longrightarrow> elf_files st1 (program_data p) \<noteq> None"
    using assms(5,6) m1 by simp_all
  from init_task_spec [OF k(1) live(2,1) this] obtain m x ip where
    i: "init_task task process st1 = Some (0, st1\<lparr>mem := m, tasks := (tasks st1)(task \<mapsto> x)\<rparr>)"
    "kheap_ok (st1\<lparr>mem := m\<rparr>)" "kheap_live st1 \<subseteq> kheap_live (st1\<lparr>mem := m\<rparr>)" "page_ok m (page_directory x)"
    "\<And>v. paging_get_physical_address m (page_directory x) v = v"
    "entry_point p (st1\<lparr>mem := m\<rparr>) = Some ip" "registers x = start_registers ip"
    "task_next_link x = 0" "task_prev_link x = 0" "task_process x = process" by blast
  have fresh: "task \<notin> set ts"
    using k(7) assms(4) region_base [of 4096 task] by (metis disjoint_iff zero_less_numeral)
  have o: "0 \<notin> set ts" "head_task st = link_at ts 0" "tail_task st = prev_at ts (length ts)" "distinct ts"
    using assms(1) by (auto simp: tasks_ok_def tasks_fwd_def)
  let ?st = "st1\<lparr>mem := m, tasks := (tasks st1)(task \<mapsto> x)\<rparr>"
  define st' where "st' = (if ts = [] then ?st\<lparr>head_task := task, tail_task := task, current_task := task\<rparr>
    else ?st\<lparr>tasks := (tasks st)(task \<mapsto> x\<lparr>task_prev_link := last ts\<rparr>,
      last ts \<mapsto> (the (tasks st (last ts)))\<lparr>task_next_link := task\<rparr>), tail_task := task\<rparr>)"
  have last: "last ts \<in> set ts" "last ts = prev_at ts (length ts)" "last ts \<noteq> task" if "ts \<noteq> []"
    using that fresh by (auto simp: prev_at_def last_conv_nth)
  have tl: "tasks st (last ts) \<noteq> None" if "ts \<noteq> []"
  proof -
    have "next_of st (ts ! (length ts - 1)) \<noteq> None" using assms(1) that by (simp add: tasks_ok_def tasks_fwd_def)
    then show ?thesis using that by (simp add: last_conv_nth next_of_def)
  qed
  have cr: "create_task process st = Some (task, st')"
  proof (cases "ts = []")
    case True
    then show ?thesis using z i(1) o(2) m1 by (simp add: create_task_def st'_def link_at_def)
  next
    case False
    then have "head_task ?st \<noteq> 0" using link_at_nonzero [OF o(1), of 0] o(2) m1 by simp
    then show ?thesis
      using z i(1) m1 False tl last o(3) by (auto simp: create_task_def st'_def upd_task_def fun_upd_twist)
  qed
  have tasks: "tasks st' task = Some (x\<lparr>task_prev_link := prev_at ts (length ts)\<rparr>)"
    using last i(9) m1 by (cases "ts = []") (simp_all add: st'_def prev_at_def)
  have "next_of st' (ts ! j) = (if Suc j = length ts then Some task else next_of st (ts ! j)) \<and>
      prev_of st' (ts ! j) = prev_of st (ts ! j)" if "j < length ts" for j
  proof -
    have "ts \<noteq> []" "ts ! j \<noteq> task" using that fresh by auto
    moreover have "ts ! j = last ts \<longleftrightarrow> Suc j = length ts"
      using that \<open>ts \<noteq> []\<close> nth_inj [OF o(4) that, of "length ts - 1"] by (auto simp: last_conv_nth)
    ultimately show ?thesis using tl by (auto simp: st'_def next_of_def prev_of_def)
  qed
  moreover have "task \<noteq> 0" by (rule k(5))
  ultimately have "tasks_ok st' (ts @ [task])"
    using tasks i(8) m1
    by (intro tasks_ok_append [OF assms(1) fresh]) (auto simp: next_of_def prev_of_def st'_def)
  moreover have hp: "mem st' = m" "kernel_heap st' = kernel_heap st1" "elf_files st' = elf_files st1"
    "current_task st' = (if ts = [] then task else current_task st)"
    using m1 by (simp_all add: st'_def)
  moreover have "entry_point p st' = entry_point p (st1\<lparr>mem := m\<rparr>)"
    using hp by (simp add: entry_point_def elf_get_header_def)
  moreover have "kheap_ok st'" "kheap_live st' = kheap_live (st1\<lparr>mem := m\<rparr>)"
    using i(2) hp by (simp_all add: kheap_defs)
  ultimately show ?thesis
    using cr tasks i(3,4,5,6,7,10) k(2) fresh hp(1) by (intro that [of task st' "x\<lparr>task_prev_link := prev_at ts (length ts)\<rparr>" ip]) auto
qed

section \<open>Properties\<close>

text \<open>
  C5: creation of a task.  In a well-formed list of tasks, with 1027 blocks free,
  \<^verbatim>\<open>create_task\<close> appends a new task at the end and keeps the list well-formed; the first task
  becomes the current one.  The task starts at the entry point of its program in the user
  segments with an empty stack, and its own address space maps every address to itself.
\<close>

theorem create_task_appends:
  assumes "tasks_ok st ts" "kheap_ok st" "1027 \<le> kheap_avail st" "\<And>t. t \<in> set ts \<Longrightarrow> (t, 4096) \<in> kheap_live st"
    and "processes st process = Some p" "file_type p = PROCESS_FILETYPE_ELF \<Longrightarrow> elf_files st (program_data p) \<noteq> None"
  shows "\<exists>task x st'. create_task process st = Some (task, st') \<and> task \<notin> set ts \<and> tasks_ok st' (ts @ [task]) \<and>
    kheap_ok st' \<and> (\<forall>t \<in> set (ts @ [task]). (t, 4096) \<in> kheap_live st') \<and>
    current_task st' = (if ts = [] then task else current_task st) \<and>
    tasks st' task = Some x \<and> task_process x = process \<and>
    map_option start_registers (entry_point p st') = Some (registers x) \<and>
    page_ok (mem st') (page_directory x) \<and>
    (\<forall>v. paging_get_physical_address (mem st') (page_directory x) v = v)"
proof (rule create_task_spec [OF assms])
  fix task x ip st'
  assume a: "create_task process st = Some (task, st')" "tasks_ok st' (ts @ [task])"
    "tasks st' task = Some x" "task_process x = process" "registers x = start_registers ip"
    "entry_point p st' = Some ip" "page_ok (mem st') (page_directory x)"
    "\<And>v. paging_get_physical_address (mem st') (page_directory x) v = v"
    "kheap_ok st'" "insert (task, 4096) (kheap_live st) \<subseteq> kheap_live st'" "task \<notin> set ts"
    "current_task st' = (if ts = [] then task else current_task st)"
  have "\<forall>t \<in> set (ts @ [task]). (t, 4096) \<in> kheap_live st'" using a(10) assms(4) by auto
  then show ?thesis
    using a(1-9,11,12) by (intro exI [of _ task] exI [of _ x] exI [of _ st']) simp
qed

text \<open>States for the witnesses: no tasks and one process of the binary type; three tasks.\<close>

definition process_ex :: Process where
  "process_ex = \<lparr>proc_id = 0, proc_filename = [], proc_task = 0, allocations = [], proc_stack = 0,
     program_data = 0, proc_size = 0, file_type = PROCESS_FILETYPE_BINARY,
     keyboard_buffer = \<lparr>kb_head = 0, kb_tail = 0, kb_buffer = replicate 1024 0\<rparr>, parameters = 0\<rparr>"

definition task_state_ex :: task_state where
  "task_state_ex = elf_state.extend elf_state_ex
     (task_state.fields Map.empty [0x700 \<mapsto> process_ex] 0 0 0 0 0x10)"

definition task_ex :: "addr \<Rightarrow> addr \<Rightarrow> Task" where
  "task_ex nxt prv = \<lparr>page_directory = 0, registers = zero_registers, task_next_link = nxt,
     task_prev_link = prv, task_process = 0\<rparr>"

definition three_tasks_ex :: task_state where
  "three_tasks_ex = task_state_ex\<lparr>tasks := [0x10 \<mapsto> task_ex 0x20 0, 0x20 \<mapsto> task_ex 0x30 0x10,
     0x30 \<mapsto> task_ex 0 0x20], head_task := 0x10, tail_task := 0x30, current_task := 0x10\<rparr>"

lemma task_state_ex_heap: "kheap_ok task_state_ex" "kheap_avail task_state_ex = 25600"
proof -
  have "kernel_heap task_state_ex = kernel_heap elf_state_ex" "mem task_state_ex = mem elf_state_ex"
    by (simp_all add: task_state_ex_def elf_state.defs)
  then show "kheap_ok task_state_ex" "kheap_avail task_state_ex = 25600"
    using kheap_init_ok unfolding elf_state_ex_def by (simp_all add: kheap_ok_def kheap_avail_def)
qed

lemma task_state_ex_fields:
  "processes task_state_ex = [0x700 \<mapsto> process_ex]" "tasks task_state_ex = Map.empty"
  "head_task task_state_ex = 0" "tail_task task_state_ex = 0" "current_task task_state_ex = 0"
  by (simp_all add: task_state_ex_def elf_state.defs task_state.defs)

lemma three_tasks_ok: "tasks_ok three_tasks_ex [0x10, 0x20, 0x30]"
  by (simp add: tasks_ok_def tasks_fwd_def three_tasks_ex_def task_ex_def link_at_def prev_at_def
      next_of_def prev_of_def All_less_Suc numeral_3_eq_3)

theorem create_task_appends_witness:
  "\<exists>task x st'. create_task 0x700 task_state_ex = Some (task, st') \<and> tasks_ok st' [task] \<and>
     tasks st' task = Some x \<and> reg_ip (registers x) = ZHIOS_PROGRAM_VIRTUAL_ADDRESS"
proof -
  have ok: "tasks_ok task_state_ex []"
    by (simp add: tasks_ok_def tasks_fwd_def task_state_ex_fields link_at_def prev_at_def)
  have p: "processes task_state_ex 0x700 = Some process_ex" by (simp add: task_state_ex_fields)
  have "\<exists>task x st'. create_task 0x700 task_state_ex = Some (task, st') \<and> tasks_ok st' ([] @ [task]) \<and>
      tasks st' task = Some x \<and> map_option start_registers (entry_point process_ex st') = Some (registers x)"
    using create_task_appends [OF ok task_state_ex_heap(1) _ _ p] task_state_ex_heap(2)
    by (fastforce simp: process_ex_def)
  then obtain task x st' where t: "create_task 0x700 task_state_ex = Some (task, st')" "tasks_ok st' [task]"
    "tasks st' task = Some x" "map_option start_registers (entry_point process_ex st') = Some (registers x)" by auto
  have "registers x = start_registers ZHIOS_PROGRAM_VIRTUAL_ADDRESS"
    using t(4) by (simp add: entry_point_def process_ex_def)
  then have "reg_ip (registers x) = ZHIOS_PROGRAM_VIRTUAL_ADDRESS" by (simp add: start_registers_def)
  with t show ?thesis by blast
qed

text \<open>
  C11: every task gets its turn.  From any state with a well-formed list of \<open>n\<close> tasks, fewer
  than \<open>n\<close> calls of \<^verbatim>\<open>task_next\<close> make any given task the current one; no call fails, the
  list stays as it is, and each call enters user mode with the saved registers of the task it
  chose.
\<close>

theorem every_task_gets_its_turn:
  assumes "tasks_ok st ts" "t \<in> set ts"
  shows "(\<exists>k < length ts. \<exists>st'. iterate k task_switched st = Some st' \<and> tasks_ok st' ts \<and> current_task st' = t) \<and>
    (\<exists>r st'. task_next st = Some (Enters r, st'))"
proof -
  have "ts \<noteq> []" using assms(2) by auto
  then have "current_task st \<in> set ts" using assms(1) by (auto simp: tasks_ok_def tasks_fwd_def)
  then obtain i where i: "i < length ts" "current_task st = ts ! i" by (auto simp: in_set_conv_nth)
  obtain r st' where "task_next st = Some (Enters r, st')"
    by (rule task_next_spec [OF assms(1) i refl]) (rule that)
  with rr.every_turn [OF assms] show ?thesis by blast
qed

theorem every_task_gets_its_turn_witness:
  "\<exists>k < 3. \<exists>st'. iterate k task_switched three_tasks_ex = Some st' \<and> current_task st' = 0x30"
  using every_task_gets_its_turn [OF three_tasks_ok, of "0x30"] by (auto simp: numeral_3_eq_3)



text \<open>
  The prev link of the successor is not repaired.  When a task and then its successor
  are removed, the second removal redirects the link of the task that is gone: the remaining
  predecessor still points to the removed successor, which the scheduler will run.
\<close>

lemma remove_twice_leaves_removed_task:
  assumes "tasks_ok st ts" "0 < i" "Suc i < length ts"
  shows "\<exists>st1 st2. remove_from_task_list (ts ! i) st = Some st1 \<and>
    remove_from_task_list (ts ! Suc i) st1 = Some st2 \<and> next_of st2 (ts ! (i - 1)) = Some (ts ! Suc i)"
proof -
  have i: "i < length ts" "i - 1 < length ts" "Suc (i - 1) = i" using assms(2,3) by auto
  have d: "distinct ts" "0 \<notin> set ts" using assms(1) by (auto simp: tasks_ok_def tasks_fwd_def)
  obtain st1 st0 where r: "remove_from_task_list (ts ! i) st = Some st1" "skips st st0 ts i"
    "tasks st1 = tasks st0" "tasks_fwd st1 (drop_at i ts)" "current_task st1 = current_after (current_task st) ts i"
    by (rule remove_from_task_list_spec [OF assms(1) i(1)])
  let ?c = "ts ! Suc i" and ?b = "ts ! i" and ?a = "ts ! (i - 1)"
  have "next_of st1 t = next_of st0 t" "prev_of st1 t = prev_of st0 t" for t
    using r(3) by (simp_all add: next_of_def prev_of_def)
  then have sk: "next_of st1 (ts ! k) = Some (if Suc k = i then link_at ts (Suc i) else link_at ts (Suc k))"
    "prev_of st1 (ts ! k) = Some (prev_at ts k)" if "k < length ts" for k
    using r(2) that by (simp_all add: skips_def)
  have c: "next_of st1 ?c = Some (link_at ts (Suc (Suc i)))" "prev_of st1 ?c = Some ?b"
    and a: "next_of st1 ?a = Some ?c" and b: "next_of st1 ?b \<noteq> None"
    using sk [OF assms(3)] sk(1) [OF i(1)] sk(1) [OF i(2)] assms(3) i(3)
    by (simp_all add: prev_at_def link_at_def)
  have ne: "?a \<noteq> ?b" "?c \<noteq> ?b" using nth_inj [OF d(1) i(2,1)] nth_inj [OF d(1) assms(3) i(1)] assms(2) by auto
  have b0: "?b \<noteq> 0" using d(2) nth_mem [OF i(1)] by metis
  obtain x y where x: "tasks st1 ?c = Some x" "task_prev_link x = ?b" and y: "tasks st1 ?b = Some y"
    using c b by (auto simp: next_of_def prev_of_def)
  let ?st = "st1\<lparr>tasks := (tasks st1)(?b \<mapsto> y\<lparr>task_next_link := task_next_link x\<rparr>)\<rparr>"
  have "current_task st1 \<in> set (drop_at i ts)"
    using r(4) assms(3) by (auto simp: tasks_fwd_def drop_at_def split: if_splits)
  then have "next_of st1 (current_task st1) \<noteq> None" using r(4) by (auto simp: tasks_fwd_def in_set_conv_nth)
  then have cur: "tasks ?st (current_task st1) \<noteq> None" by (auto simp: next_of_def)
  have u: "(if task_prev_link x \<noteq> 0
      then upd_task (\<lambda>p. p\<lparr>task_next_link := task_next_link x\<rparr>) (task_prev_link x) st1 else Some st1) = Some ?st"
    using x(2) y b0 by (simp add: upd_task_def)
  have x': "tasks ?st ?c = Some x" using x(1) ne(2) by simp
  define s2 where "s2 = (if ?c = head_task ?st then ?st\<lparr>head_task := task_next_link x\<rparr> else ?st)"
  define s3 where "s3 = (if ?c = tail_task s2 then s2\<lparr>tail_task := task_prev_link x\<rparr> else s2)"
  have s3: "tasks s3 = tasks ?st" "current_task s3 = current_task st1" by (simp_all add: s3_def s2_def)
  have "remove_from_task_list ?c st1 =
      (if ?c = current_task s3 then Option.bind (get_next_task s3) (\<lambda>n. Some (s3\<lparr>current_task := n\<rparr>)) else Some s3)"
    unfolding remove_from_task_list_def x(1) Option.bind.bind_lunit u x' Let_def s3_def s2_def ..
  moreover obtain n where "get_next_task s3 = Some n" using s3 cur by (auto simp: get_next_task_def)
  ultimately obtain st2 where "remove_from_task_list ?c st1 = Some st2" "tasks st2 = tasks ?st"
    using s3(1) by (cases "?c = current_task s3") auto
  moreover have "next_of st2 ?a = Some ?c" if "tasks st2 = tasks ?st" for st2 :: "'a task_state_scheme"
    using that a ne(1) by (simp add: next_of_def)
  ultimately show ?thesis using r(1) by blast
qed

end
