(* ===== verification/Zhios_Process.thy ===== *)
theory Zhios_Process
  imports Zhios_Task
begin

text \<open>
  Processes, \<^verbatim>\<open>src/src/task/process.c\<close>: loading a program into a slot of the process table,
  passing its arguments on its stack, its heap allocations, and its release.  Allocations
  are a list of 1024 pairs in the process record, argument vectors an own typed store.  The
  lemmas show what a process finds in its address space after an allocation, and that
  releasing an allocation gives the block back and unmaps it.
\<close>

section \<open>State\<close>

text \<open>
  \<open>args_list\<close> is the address of the local array of \<^verbatim>\<open>process_init_arguments\<close>.
\<close>

record process_state = task_state +
  current_process :: addr
  process_list :: "addr list"
  proc_params :: "addr \<rightharpoonup> ProcessParameters"
  args_list :: addr

abbreviation (input) ZHIOS_MAX_PROCESS :: nat where
  "ZHIOS_MAX_PROCESS \<equiv> 64"

abbreviation (input) ZHIOS_MAX_PROCESS_ARGUMENTS :: nat where
  "ZHIOS_MAX_PROCESS_ARGUMENTS \<equiv> 100"

abbreviation (input) ZHIOS_PROCESS_MAX_ALLOCATIONS :: nat where
  "ZHIOS_PROCESS_MAX_ALLOCATIONS \<equiv> 1024"

abbreviation (input) ZHIOS_PROGRAM_STACK_SIZE :: "'a::numeral" where
  "ZHIOS_PROGRAM_STACK_SIZE \<equiv> 16384"

abbreviation (input) ZHIOS_PROGRAM_VIRTUAL_STACK_ADDRESS_END :: "'a::numeral" where
  "ZHIOS_PROGRAM_VIRTUAL_STACK_ADDRESS_END \<equiv> 0x3FB000"

abbreviation (input) MAX_PROCESS_REACHED :: int where
  "MAX_PROCESS_REACHED \<equiv> - 301"

definition zero_process :: Process where
  "zero_process = \<lparr>proc_id = 0, proc_filename = [], proc_task = 0,
     allocations = replicate ZHIOS_PROCESS_MAX_ALLOCATIONS \<lparr>alloc_ptr = 0, alloc_size = 0\<rparr>,
     proc_stack = 0, program_data = 0, proc_size = 0, file_type = 0,
     keyboard_buffer = \<lparr>kb_head = 0, kb_tail = 0, kb_buffer = replicate 1024 0\<rparr>, parameters = 0\<rparr>"

definition upd_process ::
  "(Process \<Rightarrow> Process) \<Rightarrow> addr \<Rightarrow> 'a task_state_scheme \<Rightarrow> 'a task_state_scheme option" where
  "upd_process f p st = map_option (\<lambda>x. st\<lparr>processes := (processes st)(p \<mapsto> f x)\<rparr>) (processes st p)"

section \<open>The process table\<close>

definition init_process :: "addr \<Rightarrow> 'a process_state_scheme \<Rightarrow> 'a process_state_scheme option" where
  "init_process process st =
     (if process = 0 then None
      else Some (st\<lparr>mem := memset (mem st) process 0 9352,
        processes := (processes st)(process \<mapsto> zero_process)\<rparr>))"

definition get_current_process :: "'a process_state_scheme \<Rightarrow> addr" where
  "get_current_process st = current_process st"

definition get_process_free_slot :: "'a process_state_scheme \<Rightarrow> int" where
  "get_process_free_slot st =
     (case first_free (process_list st) 0 of None \<Rightarrow> MAX_PROCESS_REACHED | Some i \<Rightarrow> int i)"

definition get_process :: "int \<Rightarrow> 'a process_state_scheme \<Rightarrow> addr option" where
  "get_process process_id st =
     (if 0 \<le> process_id \<and> process_id < int (length (process_list st))
      then Some (process_list st ! nat process_id) else None)"

definition process_switch :: "addr \<Rightarrow> 'a process_state_scheme \<Rightarrow> 'a process_state_scheme" where
  "process_switch process st = st\<lparr>current_process := process\<rparr>"

section \<open>Arguments\<close>

text \<open>One round copies argument \<open>i\<close> and records its address; index 100 is outside the array.\<close>

fun init_arguments_loop ::
  "addr \<Rightarrow> addr \<Rightarrow> nat \<Rightarrow> nat \<Rightarrow> 'a process_state_scheme \<Rightarrow> 'a process_state_scheme option" where
  "init_arguments_loop params arguments i 0 st = Some st"
| "init_arguments_loop params arguments i (Suc left) st =
     (if i < ZHIOS_MAX_PROCESS_ARGUMENTS
      then do {
        let arg = read32 (mem st) (args_list st + 4 * of_nat i);
        m \<leftarrow> strcpy (mem st) arg arguments;
        p \<leftarrow> proc_params st params;
        let p' = p\<lparr>command_arguments := (command_arguments p)[i := arguments]\<rparr>;
        let st1 = st\<lparr>mem := m, proc_params := (proc_params st)(params \<mapsto> p')\<rparr>;
        len \<leftarrow> strlen (mem st1) (read32 (mem st1) (args_list st1 + 4 * of_nat i));
        init_arguments_loop params (arguments + of_nat len + 1) (Suc i) left st1 }
      else None)"

definition process_init_arguments ::
  "addr \<Rightarrow> addr \<Rightarrow> 'a process_state_scheme \<Rightarrow> 'a process_state_scheme option" where
  "process_init_arguments process args st = do {
     let (params, st1) = kzalloc 408 st;
     let st2 = st1\<lparr>proc_params := (proc_params st1)(params \<mapsto>
           \<lparr>par_count = 0, command_arguments = replicate ZHIOS_MAX_PROCESS_ARGUMENTS 0, par_start_address = 0\<rparr>)\<rparr>;
     let (arguments, st3) = kzalloc 512 st2;
     (args_count, m) \<leftarrow> str_token (mem st3) args (args_list st3) 0x20;
     st4 \<leftarrow> init_arguments_loop params arguments 0 args_count (st3\<lparr>mem := m\<rparr>);
     p \<leftarrow> (if params = 0 then None else proc_params st4 params);
     let st5 = st4\<lparr>proc_params := (proc_params st4)(params \<mapsto> p\<lparr>par_count := of_nat args_count\<rparr>)\<rparr>;
     upd_process (\<lambda>x. x\<lparr>parameters := params\<rparr>) process st5 }"

text \<open>The strings go below the top of the stack, the first argument highest.\<close>

fun copy_args_loop ::
  "addr \<Rightarrow> addr list \<Rightarrow> u32 \<Rightarrow> memory \<Rightarrow> (u32 \<times> memory) option" where
  "copy_args_loop page [] current_addr m = Some (current_addr, m)"
| "copy_args_loop page (a # as) current_addr m = do {
     len \<leftarrow> strlen m a;
     let current = current_addr - of_nat len - 1;
     let arg = paging_get_physical_address m page current;
     copy_args_loop page as current (memcpy m a arg (int len + 1)) }"

fun store_args_loop ::
  "addr list \<Rightarrow> addr \<Rightarrow> nat \<Rightarrow> u32 \<Rightarrow> memory \<Rightarrow> memory option" where
  "store_args_loop [] args_ptr i arg_start m = Some m"
| "store_args_loop (a # as) args_ptr i arg_start m = do {
     len \<leftarrow> strlen m a;
     let start = arg_start - of_nat len - 1;
     store_args_loop as args_ptr (Suc i) start (write32 m (args_ptr + 4 * of_nat i) start) }"

definition process_map_args_to_stack ::
  "addr \<Rightarrow> 'a process_state_scheme \<Rightarrow> 'a process_state_scheme option" where
  "process_map_args_to_stack process st = do {
     pr \<leftarrow> processes st process;
     let params = parameters pr;
     p \<leftarrow> proc_params st params;
     t \<leftarrow> tasks st (proc_task pr);
     let page = page_directory t;
     let n = unat (par_count p);
     if n > ZHIOS_MAX_PROCESS_ARGUMENTS then None
     else do {
       let args = take n (command_arguments p);
       (current_addr, m1) \<leftarrow> copy_args_loop page args ZHIOS_PROGRAM_VIRTUAL_STACK_ADDRESS_START (mem st);
       let virt_arguments = current_addr - (par_count p + 1) * 4;
       let virt_argv = virt_arguments - 4;
       let virt_argc = virt_argv - 4;
       let argc = paging_get_physical_address m1 page virt_argc;
       let argv = paging_get_physical_address m1 page virt_argv;
       let args_ptr = paging_get_physical_address m1 page virt_arguments;
       let m2 = write32 m1 argc (par_count p);
       let m3 = write32 m2 argv virt_arguments;
       m4 \<leftarrow> store_args_loop args args_ptr 0 ZHIOS_PROGRAM_VIRTUAL_STACK_ADDRESS_START m3;
       let m5 = write32 m4 (args_ptr + 4 * par_count p) 0;
       let st1 = st\<lparr>mem := m5, proc_params := (proc_params st)(params \<mapsto> p\<lparr>par_start_address := virt_argc\<rparr>)\<rparr>;
       upd_task (\<lambda>t. t\<lparr>registers := (registers t)\<lparr>reg_esp := virt_argc, reg_ebp := virt_argc\<rparr>\<rparr>)
         (proc_task pr) st1 } }"

section \<open>Loading\<close>

text \<open>Both branches of the choice of \<^verbatim>\<open>data\<close> read the same member of the union.\<close>

definition process_map_memory ::
  "addr \<Rightarrow> 'a process_state_scheme \<Rightarrow> (int \<times> 'a process_state_scheme) option" where
  "process_map_memory process st = do {
     pr \<leftarrow> processes st process;
     t \<leftarrow> tasks st (proc_task pr);
     (res, st1) \<leftarrow> loader_map_memory (page_directory t) (program_data pr) (proc_size pr) (file_type pr) st;
     if res < 0 then Some (res, st1)
     else do {
       let (res', m) = map_page_range (mem st1) (page_directory t) ZHIOS_PROGRAM_VIRTUAL_STACK_ADDRESS_END
             (proc_stack pr) ZHIOS_PROGRAM_STACK_SIZE 7;
       let st2 = st1\<lparr>mem := m\<rparr>;
       st3 \<leftarrow> (if parameters pr \<noteq> 0 then process_map_args_to_stack process st2 else Some st2);
       Some (res', st3) } }"

text \<open>
  \<^verbatim>\<open>strcpy\<close> into the field \<^verbatim>\<open>filename\<close>: 100 bytes and two bytes of padding; a longer string
  runs into the next field.
\<close>

definition store_filename ::
  "addr \<Rightarrow> addr \<Rightarrow> 'a process_state_scheme \<Rightarrow> 'a process_state_scheme option" where
  "store_filename filename process st = do {
     len \<leftarrow> strlen (mem st) filename;
     if len < 102
     then upd_process (\<lambda>x. x\<lparr>proc_filename := map (\<lambda>i. mem st (filename + of_nat i)) [0..<len]\<rparr>) process st
     else None }"

definition load_process ::
  "addr \<Rightarrow> addr \<Rightarrow> addr \<Rightarrow> 'a process_state_scheme \<Rightarrow> (int \<times> addr \<times> 'a process_state_scheme) option" where
  "load_process filename process args st =
     (let process_id = get_process_free_slot st in
      if process_id = MAX_PROCESS_REACHED then Some (MAX_PROCESS_REACHED, process, st)
      else (let (pr, st1) = kzalloc 9352 st in do {
        st2 \<leftarrow> init_process pr st1;
        (res, data, sz, st3) \<leftarrow> load_data filename 0 0 st2;
        st4 \<leftarrow> upd_process (\<lambda>x. x\<lparr>proc_size := sz\<rparr>) pr st3;
        if res \<le> 0 then Some (res, process, kfree pr st4)
        else do {
          st5 \<leftarrow> upd_process (\<lambda>x. x\<lparr>file_type := res, program_data := data\<rparr>) pr st4;
          (task, st6) \<leftarrow> create_task pr st5;
          st7 \<leftarrow> upd_process (\<lambda>x. x\<lparr>proc_task := task\<rparr>) pr st6;
          let (stack_ptr, st8) = kzalloc ZHIOS_PROGRAM_STACK_SIZE st7;
          if stack_ptr = 0 then Some (- EMEM, process, st8)
          else do {
            st9 \<leftarrow> (if args \<noteq> 0 then process_init_arguments pr args st8 else Some st8);
            st10 \<leftarrow> store_filename filename pr st9;
            st11 \<leftarrow> upd_process (\<lambda>x. x\<lparr>proc_stack := stack_ptr, proc_id := of_int process_id\<rparr>) pr st10;
            (mapped, st12) \<leftarrow> process_map_memory pr st11;
            Some (res, pr, st12\<lparr>process_list := (process_list st12)[nat process_id := pr]\<rparr>) } } }))"

definition process_load_and_switch ::
  "addr \<Rightarrow> addr \<Rightarrow> 'a process_state_scheme \<Rightarrow> (int \<times> addr \<times> 'a process_state_scheme) option" where
  "process_load_and_switch filename process st = do {
     (res, process', st1) \<leftarrow> load_process filename process 0 st;
     if res < 0 then Some (res, process', st1)
     else Some (res, process', process_switch process' st1) }"

definition process_load_with_args ::
  "addr \<Rightarrow> addr \<Rightarrow> addr \<Rightarrow> 'a process_state_scheme \<Rightarrow> (int \<times> addr \<times> 'a process_state_scheme) option" where
  "process_load_with_args filename process args st = do {
     (res, process', st1) \<leftarrow> load_process filename process args st;
     if res < 0 then Some (res, process', st1)
     else Some (res, process', process_switch process' st1) }"

section \<open>Allocations\<close>

text \<open>The scans for the first entry with a given pointer; \<open>- EMEM\<close> when there is none.\<close>

fun find_allocation :: "ProcessAllocation list \<Rightarrow> addr \<Rightarrow> nat \<Rightarrow> int" where
  "find_allocation [] ptr i = - EMEM"
| "find_allocation (a # as) ptr i = (if alloc_ptr a = ptr then int i else find_allocation as ptr (Suc i))"

definition process_get_allocation :: "Process \<Rightarrow> int" where
  "process_get_allocation pr = find_allocation (allocations pr) 0 0"

definition process_get_ptr_allocation :: "Process \<Rightarrow> addr \<Rightarrow> int" where
  "process_get_ptr_allocation pr ptr = find_allocation (allocations pr) ptr 0"

definition process_malloc ::
  "addr \<Rightarrow> u32 \<Rightarrow> 'a process_state_scheme \<Rightarrow> (addr \<times> 'a process_state_scheme) option" where
  "process_malloc process sz st = do {
     pr \<leftarrow> processes st process;
     let ind = process_get_allocation pr;
     if ind < 0 then Some (0, st)
     else (let (ptr, st1) = kzalloc sz st in
           if ptr = 0 then Some (0, st1)
           else do {
             t \<leftarrow> tasks st1 (proc_task pr);
             let (res, m) = map_page_range (mem st1) (page_directory t) ptr ptr (sint sz) 7;
             let st2 = st1\<lparr>mem := m\<rparr>;
             if res < 0 then Some (0, kfree ptr st2)
             else do {
               st3 \<leftarrow> upd_process (\<lambda>x. x\<lparr>allocations :=
                       (allocations x)[nat ind := \<lparr>alloc_ptr = ptr, alloc_size = sz\<rparr>]\<rparr>) process st2;
               Some (ptr, st3) } }) }"

definition process_free_allocation ::
  "addr \<Rightarrow> addr \<Rightarrow> 'a process_state_scheme \<Rightarrow> 'a process_state_scheme option" where
  "process_free_allocation process ptr st = do {
     pr \<leftarrow> processes st process;
     let ind = process_get_ptr_allocation pr ptr;
     if ind < 0 then Some st
     else do {
       t \<leftarrow> tasks st (proc_task pr);
       let a = allocations pr ! nat ind;
       let (res, m) = map_page_range (mem st) (page_directory t) (alloc_ptr a) (alloc_ptr a) (sint (alloc_size a)) 0;
       st1 \<leftarrow> upd_process (\<lambda>x. x\<lparr>allocations :=
               (allocations x)[nat ind := \<lparr>alloc_ptr = 0, alloc_size = 0\<rparr>]\<rparr>) process (st\<lparr>mem := m\<rparr>);
       Some (kfree ptr st1) } }"

fun free_all_loop ::
  "addr \<Rightarrow> nat \<Rightarrow> nat \<Rightarrow> 'a process_state_scheme \<Rightarrow> 'a process_state_scheme option" where
  "free_all_loop process i 0 st = Some st"
| "free_all_loop process i (Suc left) st = do {
     pr \<leftarrow> processes st process;
     st1 \<leftarrow> process_free_allocation process (alloc_ptr (allocations pr ! i)) st;
     free_all_loop process (Suc i) left st1 }"

definition process_free_all_allocations ::
  "addr \<Rightarrow> 'a process_state_scheme \<Rightarrow> 'a process_state_scheme option" where
  "process_free_all_allocations process st = free_all_loop process 0 ZHIOS_PROCESS_MAX_ALLOCATIONS st"

section \<open>Release\<close>

definition process_switch_to_any :: "'a process_state_scheme \<Rightarrow> 'a process_state_scheme option" where
  "process_switch_to_any st =
     (case find (\<lambda>p. p \<noteq> 0) (process_list st) of
        None \<Rightarrow> None
      | Some p \<Rightarrow> Some (process_switch p st))"

definition process_unlink :: "addr \<Rightarrow> 'a process_state_scheme \<Rightarrow> 'a process_state_scheme option" where
  "process_unlink process st = do {
     pr \<leftarrow> processes st process;
     if unat (proc_id pr) < length (process_list st)
     then (let st1 = st\<lparr>process_list := (process_list st)[unat (proc_id pr) := 0]\<rparr>
           in if process = current_process st1 then process_switch_to_any st1 else Some st1)
     else None }"

definition process_free :: "addr \<Rightarrow> 'a process_state_scheme \<Rightarrow> 'a process_state_scheme option" where
  "process_free process st = do {
     st1 \<leftarrow> process_free_all_allocations process st;
     pr \<leftarrow> processes st1 process;
     st2 \<leftarrow> loader_free_data (program_data pr) (file_type pr) st1;
     (res, st3) \<leftarrow> free_task (proc_task pr) st2;
     let st4 = kfree (proc_stack pr) st3;
     let st5 = (if parameters pr \<noteq> 0 then kfree (parameters pr) st4 else st4);
     process_unlink process (kfree process st5) }"

section \<open>Address spaces in the heap\<close>

text \<open>\<open>owned_space st page\<close>: a well-formed address space all of whose pages are allocated.\<close>

definition owned_space :: "'a mstate_scheme \<Rightarrow> addr \<Rightarrow> bool" where
  "owned_space st page \<longleftrightarrow> page_ok (mem st) page \<and> chunk_owned (mem st) page \<subseteq> kheap_live st"

lemma owned_tables:
  assumes "owned_space st page" "q \<in> tables_of (mem st) page"
  shows "(q, 4096) \<in> kheap_live st"
  using assms by (auto simp: owned_space_def tables_of_def chunk_owned_def chunk_pages_def)

text \<open>An address space depends on the bytes of its pages only.\<close>

lemma chunk_kept:
  assumes "page_ok m page" "\<And>q a. (q, 4096) \<in> chunk_owned m page \<Longrightarrow> a \<in> region q 4096 \<Longrightarrow> m' a = m a"
  shows "read32 m' page = read32 m page" "chunk_owned m' page = chunk_owned m page" "page_ok m' page"
    "tables_of m' page = tables_of m page" "get_page m' (read32 m page) w = get_page m (read32 m page) w"
proof -
  let ?dir = "read32 m page"
  have al: "unat page mod 4096 = 0" "unat ?dir mod 4096 = 0" using assms(1) by (simp_all add: page_ok_def pdir_ok_def)
  have rd: "read32 m' (q + 4 * of_nat k) = read32 m (q + 4 * of_nat k)"
    if "(q, 4096) \<in> chunk_owned m page" "unat q mod 4096 = 0" "k < 1024" for q k
    using page_entry_region [OF that(2,3)] assms(2) [OF that(1)] by (intro read32_cong) auto
  show r: "read32 m' page = ?dir" using rd [of page 0] al(1) by (simp add: chunk_owned_def)
  have t: "table_of m' ?dir i = table_of m ?dir i" if "i < 1024" for i
    using rd [of ?dir i] al(2) that by (simp add: table_of_def chunk_owned_def)
  then have img: "table_of m' ?dir ` {..<1024} = table_of m ?dir ` {..<1024}"
    "chunk_pages m' ?dir 1024 = chunk_pages m ?dir 1024" by (auto simp: chunk_pages_def)
  then show "chunk_owned m' page = chunk_owned m page" "tables_of m' page = tables_of m page"
    by (simp_all add: chunk_owned_def tables_of_def r)
  have "inj_on (table_of m' ?dir) {..<1024} \<longleftrightarrow> inj_on (table_of m ?dir) {..<1024}"
    using t by (intro inj_on_cong) simp
  then show "page_ok m' page" using assms(1) by (simp add: page_ok_def pdir_ok_def r img)
  have "(table_of m ?dir (unat w div 4194304), 4096) \<in> chunk_owned m page"
    using index_bounds(1) [of w] by (auto simp: chunk_owned_def chunk_pages_def)
  from rd [OF this table_of_aligned index_bounds(2)]
  show "get_page m' ?dir w = get_page m ?dir w"
    by (simp add: get_page_pte pte_def t [OF index_bounds(1)])
qed

text \<open>Remapping touches only table pages, so it keeps the heap and everything outside the tables.\<close>

lemma region_single: "region a (Suc 0) = {a}"
  using region_Suc [of 0 a] by simp

lemma remaps_heap:
  assumes "kheap_ok st" "owned_space st page" "remaps (mem st) page m"
  shows "kheap_ok (st\<lparr>mem := m\<rparr>)" "kheap_live (st\<lparr>mem := m\<rparr>) = kheap_live st"
    "kheap_avail (st\<lparr>mem := m\<rparr>) = kheap_avail st" "owned_space (st\<lparr>mem := m\<rparr>) page"
    "\<And>p a. (p, 4096) \<in> kheap_live st \<Longrightarrow> p \<notin> tables_of (mem st) page \<Longrightarrow> a \<in> region p 4096 \<Longrightarrow> m a = mem st a"
proof -
  have "m a = mem st a" if "a \<in> kheap_reserved st" for a
  proof (rule remaps_apart [OF assms(3)])
    show "apart (mem st) page a 1"
      unfolding apart_def
    proof
      fix q
      assume "q \<in> tables_of (mem st) page"
      from kh.live_region [OF assms(1) owned_tables [OF assms(2) this]] that
      show "region q 4096 \<inter> region a 1 = {}" by (auto simp: region_single)
    qed
  qed simp
  with kh.put_ok [OF assms(1)] show k: "kheap_ok (st\<lparr>mem := m\<rparr>)" "kheap_live (st\<lparr>mem := m\<rparr>) = kheap_live st"
    "kheap_avail (st\<lparr>mem := m\<rparr>) = kheap_avail st" by blast+
  have "chunk_owned m page = chunk_owned (mem st) page"
    using remapsD(2,3) [OF assms(3)] by (auto simp: chunk_owned_def chunk_pages_def tables_of_def)
  then show "owned_space (st\<lparr>mem := m\<rparr>) page"
    using assms(2) remapsD(1) [OF assms(3)] k(2) by (simp add: owned_space_def)
  show "m a = mem st a" if "(p, 4096) \<in> kheap_live st" "p \<notin> tables_of (mem st) page" "a \<in> region p 4096" for p a
    using kh.live_region [OF assms(1) that(1)] that(2,3) by (intro remapsD(4) [OF assms(3)]) auto
qed

section \<open>Allocation and release\<close>

text \<open>
  The allocation table of a process: unused slots are zero, the pointers in used slots are
  allocated.
\<close>

definition alloc_table_ok :: "'a mstate_scheme \<Rightarrow> Process \<Rightarrow> bool" where
  "alloc_table_ok st pr \<longleftrightarrow> length (allocations pr) = ZHIOS_PROCESS_MAX_ALLOCATIONS \<and>
     (\<forall>a \<in> set (allocations pr). if alloc_ptr a = 0 then alloc_size a = 0
        else \<exists>k. (alloc_ptr a, k) \<in> kheap_live st)"

lemma find_allocation_eq:
  "find_allocation as ptr j =
     (if ptr \<in> alloc_ptr ` set as then int (j + length (takeWhile (\<lambda>a. alloc_ptr a \<noteq> ptr) as)) else - EMEM)"
  by (induction as arbitrary: j) auto

lemma find_allocation_update:
  assumes "i < length as" "ptr \<notin> alloc_ptr ` set as" "alloc_ptr x = ptr"
  shows "find_allocation (as[i := x]) ptr 0 = int i"
proof -
  have "as[i := x] = take i as @ x # drop (Suc i) as" by (rule upd_conv_take_nth_drop [OF assms(1)])
  moreover have "takeWhile (\<lambda>a. alloc_ptr a \<noteq> ptr) (take i as @ x # drop (Suc i) as) = take i as"
    using assms(2,3) by (subst takeWhile_append2) (auto dest!: in_set_takeD simp: image_iff)
  moreover have "ptr \<in> alloc_ptr ` set (as[i := x])" using assms(1,3) by (metis image_eqI set_update_memI)
  ultimately show ?thesis using assms(1) by (simp add: find_allocation_eq)
qed

lemma takeWhile_shorter: "\<exists>x \<in> set xs. \<not> P x \<Longrightarrow> length (takeWhile P xs) < length xs"
  by (induction xs) auto

definition page_entries :: "addr \<Rightarrow> int \<Rightarrow> int \<Rightarrow> addr \<Rightarrow> u32 \<Rightarrow> u32" where
  "page_entries ptr sz flags w old =
     (if int (unat (w - ptr) div 4096) < sz div 4096 + 1
      then (ptr + of_nat (4096 * (unat (w - ptr) div 4096))) OR of_int flags else old)"

text \<open>A change of the entries of a range on the kernel state.\<close>

lemma map_space:
  assumes "kheap_ok st" "owned_space st page" "unat ptr mod 4096 = 0" "0 \<le> sz" "sz < 2147479552"
  obtains m where "map_page_range (mem st) page ptr ptr sz flags = (0, m)" "remaps (mem st) page m"
    "kheap_ok (st\<lparr>mem := m\<rparr>)" "kheap_live (st\<lparr>mem := m\<rparr>) = kheap_live st" "owned_space (st\<lparr>mem := m\<rparr>) page"
    "\<And>w. get_page m (read32 m page) w = page_entries ptr sz flags w (get_page (mem st) (read32 (mem st) page) w)"
proof -
  obtain res m where m: "map_page_range (mem st) page ptr ptr sz flags = (res, m)" by (rule prod.exhaust)
  have ok: "page_ok (mem st) page" using assms(2) by (simp add: owned_space_def)
  note sp = map_page_range_spec [OF ok assms(3,3,4,5) m]
  note h = remaps_heap [OF assms(1,2) sp(2)]
  show ?thesis
    using m sp(1,3) remapsD(2) [OF sp(2)]
    by (intro that [OF _ sp(2) h(1,2,4)]) (simp_all add: page_entries_def)
qed

lemma process_malloc_spec:
  assumes "kheap_ok st" "0 < kheap_avail st" "processes st process = Some pr" "tasks st (proc_task pr) = Some t"
    and "page = page_directory t" "owned_space st page" "0 < unat sz" "unat sz \<le> 4096" "0 \<in> alloc_ptr ` set (allocations pr)"
    and "i = length (takeWhile (\<lambda>a. alloc_ptr a \<noteq> 0) (allocations pr))"
  obtains ptr m where "process_malloc process sz st = Some (ptr, st\<lparr>mem := m, processes := (processes st)(process \<mapsto>
      pr\<lparr>allocations := (allocations pr)[i := \<lparr>alloc_ptr = ptr, alloc_size = sz\<rparr>]\<rparr>)\<rparr>)"
    "ptr \<noteq> 0" "unat ptr mod 4096 = 0" "kheap_ok (st\<lparr>mem := m\<rparr>)"
    "kheap_live (st\<lparr>mem := m\<rparr>) = insert (ptr, 4096) (kheap_live st)" "owned_space (st\<lparr>mem := m\<rparr>) page"
    "\<And>q k. (q, k) \<in> kheap_live st \<Longrightarrow> region ptr 4096 \<inter> region q k = {}"
    "\<And>a. a \<in> region ptr (unat sz) \<Longrightarrow> m a = 0"
    "\<And>w. get_page m (read32 m page) w = page_entries ptr (sint sz) 7 w (get_page (mem st) (read32 (mem st) page) w)"
proof -
  obtain ptr st1 where z: "kzalloc sz st = (ptr, st1)" by (rule prod.exhaust)
  note k = kh.zalloc_keeps [OF assms(1,7,8,2) z]
  obtain m1 where m1: "st1 = st\<lparr>mem := m1\<rparr>" using k(10) by blast
  have pok: "page_ok (mem st) page" and own: "chunk_owned (mem st) page \<subseteq> kheap_live st"
    using assms(6) by (simp_all add: owned_space_def)
  have kept: "m1 a = mem st a" if "(q, 4096) \<in> chunk_owned (mem st) page" "a \<in> region q 4096" for q a
    using k(9) [of q 4096 a] own that m1 by auto
  note c = chunk_kept [OF pok kept]
  have os1: "owned_space st1 page" using c(2,3) own k(2) m1 by (auto simp: owned_space_def)
  have sz: "0 \<le> sint sz" "sint sz < 2147479552"
    using assms(8) sint_eq_uint_small [of sz] by (simp_all only: of_nat_0_le_iff of_nat_less_numeral_iff)
  obtain m where m: "map_page_range (mem st1) page ptr ptr (sint sz) 7 = (0, m)" "remaps (mem st1) page m"
    "kheap_ok (st1\<lparr>mem := m\<rparr>)" "kheap_live (st1\<lparr>mem := m\<rparr>) = kheap_live st1" "owned_space (st1\<lparr>mem := m\<rparr>) page"
    "\<And>w. get_page m (read32 m page) w = page_entries ptr (sint sz) 7 w (get_page (mem st1) (read32 (mem st1) page) w)"
    by (rule map_space [OF k(1) os1 k(6) sz, where flags = 7]) (rule that)
  have ind: "process_get_allocation pr = int i"
    using assms(9,10) by (simp add: process_get_allocation_def find_allocation_eq)
  have r: "process_malloc process sz st = Some (ptr, st\<lparr>mem := m, processes := (processes st)(process \<mapsto>
      pr\<lparr>allocations := (allocations pr)[i := \<lparr>alloc_ptr = ptr, alloc_size = sz\<rparr>]\<rparr>)\<rparr>)"
    using assms(3-5) ind z k(5) m(1) m1 by (simp add: process_malloc_def upd_process_def)
  have "ptr \<notin> tables_of (mem st1) page"
  proof
    assume "ptr \<in> tables_of (mem st1) page"
    then have "(ptr, 4096) \<in> kheap_live st" using c(4) m1 owned_tables [OF assms(6)] by simp
    from k(7) [OF this] show False using region_base [of 4096 ptr] by simp
  qed
  then have "m a = 0" if "a \<in> region ptr (unat sz)" for a
    using remaps_heap(5) [OF k(1) os1 m(2), of ptr a] k(2,8) that region_mono [OF assms(8), of ptr] by auto
  then show ?thesis
    using r k(2,5-7) m(3-6) m1 c(1,5) by (intro that [of ptr m]) simp_all
qed

lemma page_entries_near:
  assumes "k < 4096" "0 \<le> sz" "unat ptr mod 4096 = 0"
  shows "page_entries ptr sz flags (ptr + of_nat k) old = ptr OR of_int flags"
  using assms by (simp add: page_entries_def pos_imp_zdiv_nonneg_iff)

lemma mmu_near:
  assumes "k < 4096" "0 \<le> sz" "unat ptr mod 4096 = 0"
    and "\<And>w. get_page m dir w = page_entries ptr sz flags w (old w)"
  shows "flags = 7 \<Longrightarrow> mmu m dir (ptr + of_nat k) = Some (ptr + of_nat k)"
    "flags = 0 \<Longrightarrow> mmu m dir (ptr + of_nat k) = None"
proof -
  have e: "get_page m dir (ptr + of_nat k) = ptr OR of_int flags"
    unfolding assms(4) by (rule page_entries_near [OF assms(1-3)])
  have off: "(ptr + of_nat k) mod 4096 = of_nat k" using page_offset_add [OF assms(3), of k] assms(1) by simp
  show "mmu m dir (ptr + of_nat k) = Some (ptr + of_nat k)" if "flags = 7"
  proof -
    have "bit ((ptr OR 7) AND 1) 0" by (simp add: bit_simps)
    then have "(ptr OR 7) AND 1 \<noteq> 0" by (metis bit_0_eq bot_apply bot_bool_def)
    moreover have "(ptr OR 7) AND 0xfffff000 = ptr" by (rule page_mask_low [OF assms(3)]) simp
    ultimately show ?thesis using e off that by (simp add: mmu_def)
  qed
  show "mmu m dir (ptr + of_nat k) = None" if "flags = 0"
  proof -
    have "unat ptr mod 2 = 0" by (subst page_multiple [OF assms(3)]) simp
    then have "ptr AND 1 = 0" by (simp add: and_one_eq word_unat_eq_iff unat_mod)
    then show ?thesis using e that by (simp add: mmu_def)
  qed
qed

lemma process_free_allocation_spec:
  assumes "kheap_ok st" "processes st process = Some pr" "tasks st (proc_task pr) = Some t"
    and "page = page_directory t" "owned_space st page" "i < length (allocations pr)"
    and "process_get_ptr_allocation pr ptr = int i" "allocations pr ! i = \<lparr>alloc_ptr = ptr, alloc_size = sz\<rparr>"
    and "(ptr, 4096) \<in> kheap_live st" "unat sz \<le> 4096"
  obtains m where "process_free_allocation process ptr st = Some (st\<lparr>mem := m, processes := (processes st)(process \<mapsto>
      pr\<lparr>allocations := (allocations pr)[i := \<lparr>alloc_ptr = 0, alloc_size = 0\<rparr>]\<rparr>)\<rparr>)"
    "kheap_ok (st\<lparr>mem := m\<rparr>)" "kheap_live (st\<lparr>mem := m\<rparr>) = kheap_live st - {(ptr, 4096)}"
    "\<And>k. k < 4096 \<Longrightarrow> mmu m (read32 m page) (ptr + of_nat k) = None"
proof -
  have al: "unat ptr mod 4096 = 0" using kh.live_region [OF assms(1,9)] by blast
  have sz: "0 \<le> sint sz" "sint sz < 2147479552"
    using assms(10) sint_eq_uint_small [of sz] by (simp_all only: of_nat_0_le_iff of_nat_less_numeral_iff)
  obtain m where m: "map_page_range (mem st) page ptr ptr (sint sz) 0 = (0, m)"
    "kheap_ok (st\<lparr>mem := m\<rparr>)" "kheap_live (st\<lparr>mem := m\<rparr>) = kheap_live st" "owned_space (st\<lparr>mem := m\<rparr>) page"
    "\<And>w. get_page m (read32 m page) w = page_entries ptr (sint sz) 0 w (get_page (mem st) (read32 (mem st) page) w)"
    by (rule map_space [OF assms(1,5) al sz, where flags = 0]) (rule that)
  let ?pr = "pr\<lparr>allocations := (allocations pr)[i := \<lparr>alloc_ptr = 0, alloc_size = 0\<rparr>]\<rparr>"
  let ?st = "st\<lparr>mem := m, processes := (processes st)(process \<mapsto> ?pr)\<rparr>"
  have "kheap_ok ?st" "(ptr, 4096) \<in> kheap_live ?st" using m(2,3) assms(9) by (simp_all add: kheap_defs)
  from kh.release_live [OF this] obtain m' where m': "kfree ptr ?st = ?st\<lparr>mem := m'\<rparr>"
    "kheap_ok (?st\<lparr>mem := m'\<rparr>)" "kheap_live (?st\<lparr>mem := m'\<rparr>) = kheap_live ?st - {(ptr, 4096)}"
    "\<forall>a. a \<notin> kheap_reserved ?st \<longrightarrow> m' a = mem ?st a" by blast
  have r: "process_free_allocation process ptr st = Some (st\<lparr>mem := m', processes := (processes st)(process \<mapsto> ?pr)\<rparr>)"
    using assms(2-4,7,8) m(1) m'(1) by (simp add: process_free_allocation_def upd_process_def)
  have pok: "page_ok m page" and own: "chunk_owned m page \<subseteq> kheap_live (st\<lparr>mem := m\<rparr>)"
    using m(4) by (simp_all add: owned_space_def)
  have "m' a = m a" if "(q, 4096) \<in> chunk_owned m page" "a \<in> region q 4096" for q a
    using kh.live_region [OF m(2), of q 4096] own m'(4) that by (auto simp: kheap_reserved_def)
  note c = chunk_kept [OF pok this]
  have "get_page m' (read32 m' page) w = page_entries ptr (sint sz) 0 w (get_page (mem st) (read32 (mem st) page) w)" for w
    using c(1,5) m(5) by simp
  from mmu_near(2) [OF _ sz(1) al this]
  have "mmu m' (read32 m' page) (ptr + of_nat k) = None" if "k < 4096" for k using that by simp
  then show ?thesis
    using r m'(2,3) m(3) by (intro that [of m']) (simp_all add: kheap_defs)
qed

text \<open>The slot that is taken is clear, and the new memory is in no other slot.\<close>

lemma free_slot:
  assumes "alloc_table_ok st pr" "0 \<in> alloc_ptr ` set (allocations pr)"
    and "i = length (takeWhile (\<lambda>a. alloc_ptr a \<noteq> 0) (allocations pr))"
  shows "i < length (allocations pr)" "allocations pr ! i = \<lparr>alloc_ptr = 0, alloc_size = 0\<rparr>"
proof -
  show i: "i < length (allocations pr)" unfolding assms(3) using assms(2) by (intro takeWhile_shorter) auto
  show "allocations pr ! i = \<lparr>alloc_ptr = 0, alloc_size = 0\<rparr>"
    using nth_length_takeWhile [OF i [unfolded assms(3)]] assms(1) nth_mem [OF i]
    by (cases "allocations pr ! i") (auto simp: alloc_table_ok_def assms(3))
qed

lemma fresh_allocation:
  assumes "kheap_ok st" "alloc_table_ok st pr" "ptr \<noteq> 0"
    and "\<And>q k. (q, k) \<in> kheap_live st \<Longrightarrow> region ptr 4096 \<inter> region q k = {}"
  shows "(ptr, k) \<notin> kheap_live st" "ptr \<notin> alloc_ptr ` set (allocations pr)"
proof -
  have fresh: "(ptr, k) \<notin> kheap_live st" for k
    using assms(4) [of ptr k] kh.live_region [OF assms(1), of ptr k] region_base [of k ptr] region_base [of 4096 ptr]
    by (metis disjoint_iff zero_less_numeral)
  then show "(ptr, k) \<notin> kheap_live st" .
  show "ptr \<notin> alloc_ptr ` set (allocations pr)"
    using assms(2,3) fresh by (auto simp: alloc_table_ok_def split: if_splits)
qed

section \<open>Properties\<close>

text \<open>
  C4: the heap of a process.  For a process with a well-formed address space and allocation
  table and a free slot, \<^verbatim>\<open>process_malloc\<close> of at most a page returns memory that is zero, was
  not allocated, and is mapped to itself and present in the address space of the process;
  \<^verbatim>\<open>process_free_allocation\<close> then restores the table of allocations and the set of allocated
  regions, and the memory is no longer present in the address space.
\<close>

theorem process_malloc_free:
  assumes "kheap_ok st" "0 < kheap_avail st" "processes st process = Some pr" "tasks st (proc_task pr) = Some t"
    and "owned_space st (page_directory t)" "alloc_table_ok st pr" "0 \<in> alloc_ptr ` set (allocations pr)"
    and "0 < unat sz" "unat sz \<le> 4096"
  shows "\<exists>ptr st1 st2. process_malloc process sz st = Some (ptr, st1) \<and> ptr \<noteq> 0 \<and> kheap_ok st1 \<and>
    (ptr, 4096) \<notin> kheap_live st \<and> kheap_live st1 = insert (ptr, 4096) (kheap_live st) \<and>
    (\<forall>k < unat sz. mem st1 (ptr + of_nat k) = 0 \<and>
       mmu (mem st1) (read32 (mem st1) (page_directory t)) (ptr + of_nat k) = Some (ptr + of_nat k)) \<and>
    process_free_allocation process ptr st1 = Some st2 \<and> kheap_ok st2 \<and>
    kheap_live st2 = kheap_live st \<and> processes st2 = processes st \<and>
    (\<forall>k < unat sz. mmu (mem st2) (read32 (mem st2) (page_directory t)) (ptr + of_nat k) = None)"
proof -
  let ?i = "length (takeWhile (\<lambda>a. alloc_ptr a \<noteq> 0) (allocations pr))"
  let ?page = "page_directory t"
  obtain ptr m where p: "process_malloc process sz st = Some (ptr, st\<lparr>mem := m, processes := (processes st)(process \<mapsto>
      pr\<lparr>allocations := (allocations pr)[?i := \<lparr>alloc_ptr = ptr, alloc_size = sz\<rparr>]\<rparr>)\<rparr>)"
    "ptr \<noteq> 0" "unat ptr mod 4096 = 0" "kheap_ok (st\<lparr>mem := m\<rparr>)"
    "kheap_live (st\<lparr>mem := m\<rparr>) = insert (ptr, 4096) (kheap_live st)" "owned_space (st\<lparr>mem := m\<rparr>) ?page"
    "\<And>q k. (q, k) \<in> kheap_live st \<Longrightarrow> region ptr 4096 \<inter> region q k = {}"
    "\<And>a. a \<in> region ptr (unat sz) \<Longrightarrow> m a = 0"
    "\<And>w. get_page m (read32 m ?page) w = page_entries ptr (sint sz) 7 w (get_page (mem st) (read32 (mem st) ?page) w)"
    by (rule process_malloc_spec [OF assms(1-4) refl assms(5,8,9,7) refl]) (rule that)
  have sz: "0 \<le> sint sz" using assms(9) sint_eq_uint_small [of sz] by (simp only: of_nat_0_le_iff)
  note free_slot [OF assms(6,7) refl]
  note i = this(1) and z = this(2)
  note fresh = fresh_allocation [OF assms(1,6) p(2) p(7)]
  let ?x = "\<lparr>alloc_ptr = ptr, alloc_size = sz\<rparr>"
  let ?pr = "pr\<lparr>allocations := (allocations pr)[?i := ?x]\<rparr>"
  let ?st = "st\<lparr>mem := m, processes := (processes st)(process \<mapsto> ?pr)\<rparr>"
  have h: "kheap_ok ?st" "owned_space ?st ?page" "(ptr, 4096) \<in> kheap_live ?st"
    "kheap_live ?st = insert (ptr, 4096) (kheap_live st)" "tasks ?st (proc_task ?pr) = Some t"
    using p(4-6) assms(4) by (simp_all add: kheap_defs owned_space_def)
  have g: "process_get_ptr_allocation ?pr ptr = int ?i"
    using find_allocation_update [OF i fresh(2), of ?x] by (simp add: process_get_ptr_allocation_def)
  have px: "processes ?st process = Some ?pr" "?i < length (allocations ?pr)" "allocations ?pr ! ?i = ?x"
    using i by simp_all
  obtain m' where f: "process_free_allocation process ptr ?st = Some (?st\<lparr>mem := m', processes := (processes ?st)(process \<mapsto>
      ?pr\<lparr>allocations := (allocations ?pr)[?i := \<lparr>alloc_ptr = 0, alloc_size = 0\<rparr>]\<rparr>)\<rparr>)"
    "kheap_ok (?st\<lparr>mem := m'\<rparr>)" "kheap_live (?st\<lparr>mem := m'\<rparr>) = kheap_live ?st - {(ptr, 4096)}"
    "\<And>k. k < 4096 \<Longrightarrow> mmu m' (read32 m' ?page) (ptr + of_nat k) = None"
    by (rule process_free_allocation_spec [OF h(1) px(1) h(5) refl h(2) px(2) g px(3) h(3) assms(9)]) (rule that)
  have orig: "(allocations pr)[?i := \<lparr>alloc_ptr = 0, alloc_size = 0\<rparr>] = allocations pr"
    using z by (metis list_update_id)
  let ?st2 = "?st\<lparr>mem := m', processes := processes st\<rparr>"
  have f1: "process_free_allocation process ptr ?st = Some ?st2"
    using f(1) assms(3) orig by (simp add: fun_upd_idem)
  have f2: "kheap_ok ?st2" "kheap_live ?st2 = kheap_live st"
    using f(2,3) h(4) fresh(1) by (simp_all add: kheap_defs)
  have "m (ptr + of_nat k) = 0 \<and> mmu m (read32 m ?page) (ptr + of_nat k) = Some (ptr + of_nat k)" if "k < unat sz" for k
    using p(8) region_add [of k "unat sz" ptr] mmu_near(1) [OF _ sz p(3,9), of k] that assms(9) by simp
  then show ?thesis
    using p(1,2) h(1,4) fresh(1) f1 f2 f(4) assms(9)
    by (intro exI [of _ ptr] exI [of _ ?st] exI [of _ ?st2]) simp
qed

text \<open>A state for the witness: one process with an address space of its own and no allocations.\<close>

definition process_state_ex :: process_state where
  "process_state_ex = task_state.extend task_state_ex
     (process_state.fields 0 (replicate ZHIOS_MAX_PROCESS 0) Map.empty 0x800)"

lemma process_state_ex_heap: "kheap_ok process_state_ex" "kheap_avail process_state_ex = 25600"
proof -
  have "kernel_heap process_state_ex = kernel_heap task_state_ex" "mem process_state_ex = mem task_state_ex"
    by (simp_all add: process_state_ex_def task_state.defs)
  then show "kheap_ok process_state_ex" "kheap_avail process_state_ex = 25600"
    using task_state_ex_heap by (simp_all add: kheap_ok_def kheap_avail_def)
qed

theorem process_malloc_free_witness:
  "\<exists>(st :: process_state) ptr st1 st2. process_malloc 0x700 100 st = Some (ptr, st1) \<and> ptr \<noteq> 0 \<and>
     mem st1 ptr = 0 \<and> process_free_allocation 0x700 ptr st1 = Some st2 \<and> kheap_live st2 = kheap_live st"
proof -
  obtain page st1 where c: "paging_new_chunk 7 process_state_ex = (page, st1)" by (rule prod.exhaust)
  have av: "1026 \<le> kheap_avail process_state_ex" using process_state_ex_heap(2) by simp
  note sp = paging_new_chunk_spec [OF process_state_ex_heap(1) av c]
  let ?t = "(task_ex 0 0)\<lparr>page_directory := page\<rparr>"
  let ?pr = "zero_process\<lparr>proc_task := 0x600\<rparr>"
  let ?st = "st1\<lparr>tasks := [0x600 \<mapsto> ?t], processes := [0x700 \<mapsto> ?pr]\<rparr>"
  have h: "kheap_ok ?st" "0 < kheap_avail ?st" "owned_space ?st (page_directory ?t)"
    using sp(1-4) process_state_ex_heap(2) by (auto simp: kheap_defs owned_space_def)
  have a: "alloc_table_ok ?st ?pr" "0 \<in> alloc_ptr ` set (allocations ?pr)"
    by (simp_all add: alloc_table_ok_def zero_process_def)
  have st: "processes ?st 0x700 = Some ?pr" "tasks ?st (proc_task ?pr) = Some ?t" by simp_all
  have sz: "0 < unat (100 :: u32)" "unat (100 :: u32) \<le> 4096" by simp_all
  note w = process_malloc_free [OF h(1,2) st h(3) a sz]
  obtain ptr s1 s2 where r: "process_malloc 0x700 100 ?st = Some (ptr, s1)" "ptr \<noteq> 0"
    "\<forall>k < unat (100 :: u32). mem s1 (ptr + of_nat k) = 0 \<and>
       mmu (mem s1) (read32 (mem s1) (page_directory ?t)) (ptr + of_nat k) = Some (ptr + of_nat k)"
    "process_free_allocation 0x700 ptr s1 = Some s2" "kheap_live s2 = kheap_live ?st"
    using w by (elim exE conjE) (rule that)
  have "mem s1 ptr = 0" using r(3) [rule_format, of 0] by simp
  with r(1,2,4,5) show ?thesis by blast
qed

end
