(* ===== verification/Zhios_Arguments.thy ===== *)
theory Zhios_Arguments
  imports Zhios_Process
begin

text \<open>
  The arguments of a new process: what \<^verbatim>\<open>process_map_args_to_stack\<close> of \<^verbatim>\<open>src/src/task/process.c\<close>
  leaves on its stack.  The stack is contiguous in physical memory; \<open>user_stack S m\<close> is the
  memory as the process sees it there, when the stack is at the physical address \<open>S\<close>.
\<close>

section \<open>Translation of stack addresses\<close>

abbreviation (input) stack_bottom :: "'a::numeral" where
  "stack_bottom \<equiv> 0x3FB000"

definition user_stack :: "addr \<Rightarrow> memory \<Rightarrow> memory" where
  "user_stack S m = (\<lambda>v. m (S + (v - stack_bottom)))"

text \<open>
  \<open>stack_mapped\<close>: the address space maps the pages of the stack to \<open>S\<close>, and its tables are not
  on the stack.
\<close>

definition stack_mapped :: "memory \<Rightarrow> addr \<Rightarrow> addr \<Rightarrow> bool" where
  "stack_mapped m page S \<longleftrightarrow>
     (\<forall>v \<in> region stack_bottom 16384. paging_get_physical_address m page v = S + (v - stack_bottom)) \<and>
     (\<forall>(q, k) \<in> chunk_owned m page. region q k \<inter> region S 16384 = {})"

lemma physical_address_frame:
  assumes "\<And>q k a. (q, k) \<in> chunk_owned m page \<Longrightarrow> a \<in> region q k \<Longrightarrow> m' a = m a"
  shows "paging_get_physical_address m' page v = paging_get_physical_address m page v"
    "chunk_owned m' page = chunk_owned m page"
proof -
  let ?dir = "read32 m page"
  have own: "(page, 4096) \<in> chunk_owned m page" "(?dir, 4096) \<in> chunk_owned m page"
    "i < 1024 \<Longrightarrow> (table_of m ?dir i, 4096) \<in> chunk_owned m page" for i
    by (auto simp: chunk_owned_def chunk_pages_def)
  have rd: "read32 m' (q + 4 * of_nat j) = read32 m (q + 4 * of_nat j)" if "(q, 4096) \<in> chunk_owned m page" "j < 1024" for q j
  proof (rule read32_cong)
    have "region (q + of_nat (4 * j)) 4 \<subseteq> region q 4096" using that(2) by (intro region_shift_subset) simp_all
    then show "m' b = m b" if "b \<in> region (q + 4 * of_nat j) 4" for b
      using that assms \<open>(q, 4096) \<in> chunk_owned m page\<close> by auto
  qed
  have d: "read32 m' page = ?dir" using rd [OF own(1), of 0] by simp
  have t: "table_of m' ?dir i = table_of m ?dir i" if "i < 1024" for i
    using rd [OF own(2) that] by (simp add: table_of_def)
  note ix = index_bounds [of v]
  have "read32 m' (pte m' ?dir v) = read32 m (pte m ?dir v)"
    unfolding pte_def t [OF ix(1)] by (rule rd [OF own(3) [OF ix(1)] ix(2)])
  then show "paging_get_physical_address m' page v = paging_get_physical_address m page v"
    by (simp add: physical_address_eq get_page_pte d)
  have "(\<lambda>k. (table_of m' ?dir k, 4096 :: nat)) ` {..<1024} = (\<lambda>k. (table_of m ?dir k, 4096)) ` {..<1024}"
    using t by (intro image_cong) auto
  then show "chunk_owned m' page = chunk_owned m page" by (simp add: chunk_owned_def chunk_pages_def d)
qed

lemma stack_mapped_frame:
  assumes "stack_mapped m page S" "\<And>a. a \<notin> region S 16384 \<Longrightarrow> m' a = m a"
  shows "stack_mapped m' page S"
proof -
  have "m' a = m a" if "(q, k) \<in> chunk_owned m page" "a \<in> region q k" for q k a
    using that assms unfolding stack_mapped_def by blast
  note f = physical_address_frame [of m page m', OF this]
  show ?thesis using assms(1) unfolding stack_mapped_def by (simp add: f)
qed

text \<open>Stack addresses as offsets, and words on the stack.\<close>

lemma stack_offset:
  fixes v :: addr
  assumes "stack_bottom \<le> unat v"
  shows "S + (v - stack_bottom) = S + of_nat (unat v - stack_bottom)"
proof -
  have "of_nat (unat v - stack_bottom) = v - (stack_bottom :: addr)" using assms by (simp add: of_nat_diff)
  then show ?thesis by simp
qed

lemma stack_translate:
  assumes "stack_mapped m page S" "stack_bottom \<le> unat v" "unat v < 0x3FF000"
  shows "paging_get_physical_address m page v = S + of_nat (unat v - stack_bottom)"
proof -
  have "v \<in> region stack_bottom 16384" using assms(2,3) by (simp add: region_interval)
  then show ?thesis using assms(1) stack_offset [OF assms(2)] by (simp add: stack_mapped_def)
qed

lemma read32_user_stack: "read32 (user_stack S m) v = read32 m (S + (v - stack_bottom))"
  by (simp add: read32_def user_stack_def algebra_simps)

lemma user_stack_add:
  "user_stack S m (v + of_nat i) = m (S + (v - stack_bottom) + of_nat i)"
  by (simp add: user_stack_def algebra_simps)

section \<open>Copying the strings\<close>

fun arg_starts :: "u32 \<Rightarrow> u8 list list \<Rightarrow> u32 list" where
  "arg_starts tp [] = []"
| "arg_starts tp (s # ss) = (let a = tp - of_nat (length s) - 1 in a # arg_starts a ss)"

definition args_size :: "u8 list list \<Rightarrow> nat" where
  "args_size ss = sum_list (map (\<lambda>s. Suc (length s)) ss)"

text \<open>The arguments are strings in kernel memory, outside the stack.\<close>

definition strings_at :: "memory \<Rightarrow> addr set \<Rightarrow> addr list \<Rightarrow> u8 list list \<Rightarrow> bool" where
  "strings_at m R as ss \<longleftrightarrow> list_all2 (\<lambda>a s. cstr m a s \<and> region a (Suc (length s)) \<inter> R = {}) as ss"

lemma strings_at_frame:
  assumes "strings_at m R as ss" "\<And>a. a \<notin> R \<Longrightarrow> m' a = m a"
  shows "strings_at m' R as ss"
  using assms(1) unfolding strings_at_def
  by (rule list_all2_mono) (use assms(2) in \<open>auto intro!: cstr_cong [of m]\<close>)

lemma copy_one_argument:
  assumes "stack_mapped m page S" "cstr m a s" "region a (Suc (length s)) \<inter> region S 16384 = {}"
    and "unat tp \<le> 0x3FF000" "stack_bottom + Suc (length s) \<le> unat tp"
    and "cur = tp - of_nat (length s) - 1" "k = unat cur - stack_bottom"
  shows "unat cur = unat tp - Suc (length s)" "paging_get_physical_address m page cur = S + of_nat k"
    "\<And>i. i \<le> length s \<Longrightarrow> memcpy m a (S + of_nat k) (int (length s) + 1) (S + of_nat k + of_nat i) = m (a + of_nat i)"
    "\<And>b. b \<notin> region (S + of_nat k) (Suc (length s)) \<Longrightarrow> memcpy m a (S + of_nat k) (int (length s) + 1) b = m b"
    "region (S + of_nat k) (Suc (length s)) \<subseteq> region S 16384"
proof -
  have "cur = tp - of_nat (Suc (length s))" using assms(6) by (simp add: algebra_simps)
  moreover have "of_nat (Suc (length s)) \<le> tp"
    unfolding word_le_nat_alt using assms(4,5) by (subst unat_of_nat_small) simp_all
  ultimately show c: "unat cur = unat tp - Suc (length s)"
    using assms(4,5) unat_diff_le [of "of_nat (Suc (length s))" tp] unat_of_nat_small [of "Suc (length s)"] by simp
  have cb: "stack_bottom \<le> unat cur" "unat cur < 0x3FF000" using c assms(4,5) by simp_all
  show "paging_get_physical_address m page cur = S + of_nat k" unfolding assms(7) by (rule stack_translate [OF assms(1) cb])
  show sub: "region (S + of_nat k) (Suc (length s)) \<subseteq> region S 16384"
    using c cb assms(4,5,7) by (intro region_shift_subset) simp_all
  have "region a (nat (int (length s) + 1)) \<inter> region (S + of_nat k) (nat (int (length s) + 1)) = {}"
    using sub assms(3) by (auto simp: nat_add_distrib)
  moreover have "int (length s) + 1 \<le> 4294967296" using assms(4,5) by simp
  ultimately have mc: "memcpy m a (S + of_nat k) (int (length s) + 1) b =
      (if b \<in> region (S + of_nat k) (Suc (length s)) then m (a + (b - (S + of_nat k))) else m b)" for b
    using memcpy_disjoint [of a "int (length s) + 1" "S + of_nat k" m b] by (simp add: nat_add_distrib)
  show "memcpy m a (S + of_nat k) (int (length s) + 1) b = m b" if "b \<notin> region (S + of_nat k) (Suc (length s))" for b
    using that mc by simp
  show "memcpy m a (S + of_nat k) (int (length s) + 1) (S + of_nat k + of_nat i) = m (a + of_nat i)" if "i \<le> length s" for i
  proof -
    have "S + of_nat k + of_nat i \<in> region (S + of_nat k) (Suc (length s))" using that assms(4,5) by (intro region_add) simp_all
    then show ?thesis using mc by simp
  qed
qed

lemma copy_args_loop_strings:
  assumes "stack_mapped m page S" "strings_at m (region S 16384) as ss" "unat tp \<le> 0x3FF000"
    and "stack_bottom + args_size ss \<le> unat tp"
  shows "\<exists>m'. copy_args_loop page as tp m = Some (tp - of_nat (args_size ss), m') \<and>
    (\<forall>a. a \<notin> region (S + of_nat (unat tp - args_size ss - stack_bottom)) (args_size ss) \<longrightarrow> m' a = m a) \<and>
    list_all2 (cstr (user_stack S m')) (arg_starts tp ss) ss"
  using assms
proof (induction ss arbitrary: as tp m)
  case Nil
  then show ?case by (simp add: strings_at_def args_size_def)
next
  case (Cons s ss)
  obtain a bs where as: "as = a # bs" using Cons.prems(2) by (auto simp: strings_at_def list_all2_Cons2)
  have a: "cstr m a s" "region a (Suc (length s)) \<inter> region S 16384 = {}" "strings_at m (region S 16384) bs ss"
    using Cons.prems(2) by (simp_all add: as strings_at_def)
  have sz: "args_size (s # ss) = Suc (length s) + args_size ss" by (simp add: args_size_def)
  have tp: "stack_bottom + Suc (length s) \<le> unat tp" using Cons.prems(4) sz by simp
  define cur where "cur = tp - of_nat (length s) - 1"
  define k where "k = unat cur - stack_bottom"
  define m1 where "m1 = memcpy m a (S + of_nat k) (int (length s) + 1)"
  note c = copy_one_argument [OF Cons.prems(1) a(1,2) Cons.prems(3) tp cur_def k_def, folded m1_def]
  have out: "m1 b = m b" if "b \<notin> region S 16384" for b using that c(4,5) by blast
  have cb: "unat cur \<le> 0x3FF000" "stack_bottom + args_size ss \<le> unat cur"
    using c(1) Cons.prems(3,4) sz by simp_all
  obtain m' where m': "copy_args_loop page bs cur m1 = Some (cur - of_nat (args_size ss), m')"
    "\<forall>a. a \<notin> region (S + of_nat (unat cur - args_size ss - stack_bottom)) (args_size ss) \<longrightarrow> m' a = m1 a"
    "list_all2 (cstr (user_stack S m')) (arg_starts cur ss) ss"
    using Cons.IH [OF stack_mapped_frame [OF Cons.prems(1) out] strings_at_frame [OF a(3) out] cb] by blast
  define l where "l = unat cur - args_size ss - stack_bottom"
  have kl: "k = l + args_size ss" using cb(2) by (simp add: k_def l_def)
  have lt: "unat tp - args_size (s # ss) - stack_bottom = l" using c(1) tp sz by (simp add: l_def)
  have lim: "k + Suc (length s) \<le> 16384" using c(1) tp Cons.prems(3) by (simp add: k_def)
  have sep: "region (S + of_nat l) (args_size ss) \<inter> region (S + of_nat k) (Suc (length s)) = {}"
    using kl lim by (intro region_shift_disjoint) simp_all
  have str: "cstr (user_stack S m') cur s"
  proof -
    have "user_stack S m' (cur + of_nat i) = m (a + of_nat i)" if "i \<le> length s" for i
    proof -
      have "S + of_nat k + of_nat i \<in> region (S + of_nat k) (Suc (length s))" using that lim by (intro region_add) simp_all
      then have "m' (S + of_nat k + of_nat i) = m1 (S + of_nat k + of_nat i)" using m'(2) sep unfolding l_def by blast
      moreover have "S + (cur - stack_bottom) = S + of_nat k" unfolding k_def using cb(2) by (intro stack_offset) simp
      ultimately show ?thesis using c(3) [OF that] by (simp only: user_stack_add)
    qed
    then show ?thesis using a(1) by (simp add: cstr_iff)
  qed
  have "m' b = m b" if "b \<notin> region (S + of_nat l) (args_size (s # ss))" for b
  proof -
    have "region (S + of_nat l) (args_size ss) \<subseteq> region (S + of_nat l) (args_size (s # ss))" unfolding sz by (intro region_mono) simp
    moreover have "region (S + of_nat l + of_nat (args_size ss)) (Suc (length s)) \<subseteq> region (S + of_nat l) (args_size (s # ss))"
      unfolding sz using lim kl by (intro region_shift_subset) simp_all
    then have "region (S + of_nat k) (Suc (length s)) \<subseteq> region (S + of_nat l) (args_size (s # ss))" by (simp add: kl add.assoc)
    ultimately have "b \<notin> region (S + of_nat l) (args_size ss)" "b \<notin> region (S + of_nat k) (Suc (length s))" using that by auto
    then show ?thesis using m'(2) [folded l_def, rule_format, of b] c(4) [of b] by simp
  qed
  moreover have "copy_args_loop page as tp m = copy_args_loop page bs cur m1"
    unfolding as copy_args_loop.simps strlen_cstr [OF a(1)] Option.bind.bind_lunit Let_def cur_def [symmetric] c(2) m1_def ..
  moreover have "cur - of_nat (args_size ss) = tp - of_nat (args_size (s # ss))"
    unfolding sz cur_def of_nat_add of_nat_Suc by (simp add: algebra_simps)
  moreover have "arg_starts tp (s # ss) = cur # arg_starts cur ss" unfolding cur_def by (simp add: Let_def)
  ultimately show ?case using m'(1,3) str unfolding lt by (intro exI [of _ m']) simp
qed

lemma store_args_loop_words:
  assumes "strings_at m R as ss" "region (p + of_nat (4 * i)) (4 * length ss) \<subseteq> R" "4 * (i + length ss) \<le> 4294967296"
  shows "\<exists>m'. store_args_loop as p i tp m = Some m' \<and>
    (\<forall>j < length ss. read32 m' (p + of_nat (4 * (i + j))) = arg_starts tp ss ! j) \<and>
    (\<forall>a. a \<notin> region (p + of_nat (4 * i)) (4 * length ss) \<longrightarrow> m' a = m a)"
  using assms
proof (induction ss arbitrary: as i tp m)
  case Nil
  then show ?case by (simp add: strings_at_def)
next
  case (Cons s ss)
  obtain a bs where as: "as = a # bs" using Cons.prems(1) by (auto simp: strings_at_def list_all2_Cons2)
  have a: "cstr m a s" "strings_at m R bs ss" using Cons.prems(1) by (simp_all add: as strings_at_def)
  define start where "start = tp - of_nat (length s) - 1"
  define m1 where "m1 = write32 m (p + of_nat (4 * i)) start"
  let ?q = "p + of_nat (4 * i)" and ?n = "4 * length (s # ss)"
  have first: "region ?q 4 \<subseteq> region ?q ?n" by (intro region_mono) simp
  have "region (p + of_nat (4 * Suc i)) (4 * length ss) = region (?q + of_nat 4) (4 * length ss)" by (simp add: algebra_simps)
  also have "\<dots> \<subseteq> region ?q ?n" using Cons.prems(3) by (intro region_shift_subset) simp_all
  finally have rest: "region (p + of_nat (4 * Suc i)) (4 * length ss) \<subseteq> region ?q ?n" .
  have out: "m1 b = m b" if "b \<notin> region ?q 4" for b unfolding m1_def using that by (rule write32_outside)
  have "strings_at m1 R bs ss" using strings_at_frame [OF a(2)] out first Cons.prems(2) by blast
  moreover have "region (p + of_nat (4 * Suc i)) (4 * length ss) \<subseteq> R" using rest Cons.prems(2) by blast
  moreover have "4 * (Suc i + length ss) \<le> 4294967296" using Cons.prems(3) by simp
  ultimately obtain m' where m': "store_args_loop bs p (Suc i) start m1 = Some m'"
    "\<forall>j < length ss. read32 m' (p + of_nat (4 * (Suc i + j))) = arg_starts start ss ! j"
    "\<forall>a. a \<notin> region (p + of_nat (4 * Suc i)) (4 * length ss) \<longrightarrow> m' a = m1 a"
    using Cons.IH [of m1 bs "Suc i" start] by blast
  have "region ?q 4 \<inter> region (p + of_nat (4 * Suc i)) (4 * length ss) = {}"
    using Cons.prems(3) by (intro region_shift_disjoint) simp_all
  then have "read32 m' ?q = read32 m1 ?q" using m'(3) by (intro read32_cong) blast
  then have r0: "read32 m' ?q = start" by (simp only: m1_def read32_write32_same)
  have "read32 m' (p + of_nat (4 * (i + j))) = arg_starts tp (s # ss) ! j" if "j < length (s # ss)" for j
  proof (cases j)
    case 0
    then show ?thesis using r0 by (simp add: Let_def start_def)
  next
    case (Suc j')
    then show ?thesis using m'(2) that by (simp add: Let_def start_def)
  qed
  moreover have "m' b = m b" if "b \<notin> region ?q ?n" for b
  proof -
    have "b \<notin> region ?q 4" "b \<notin> region (p + of_nat (4 * Suc i)) (4 * length ss)" using that first rest by auto
    then show ?thesis using m'(3) [rule_format, of b] out [of b] by simp
  qed
  moreover have "store_args_loop as p i tp m = store_args_loop bs p (Suc i) start m1"
    unfolding as store_args_loop.simps strlen_cstr [OF a(1)] Option.bind.bind_lunit Let_def start_def m1_def by simp
  ultimately show ?case using m'(1) by (intro exI [of _ m']) simp
qed

section \<open>Properties\<close>

text \<open>The words below the strings: the count, the address of the array, the array and its end.\<close>

lemma argument_block:
  assumes "strings_at m (region S 16384) as ss" "length ss = n" "q = S + of_nat k" "k + 12 + 4 * n \<le> 16384"
    and "m3 = write32 (write32 m q c) (q + 4) v"
  shows "\<exists>m4 m5. store_args_loop as (q + 8) 0 tp m3 = Some m4 \<and> m5 = write32 m4 (q + 8 + 4 * of_nat n) 0 \<and>
    read32 m5 q = c \<and> read32 m5 (q + 4) = v \<and>
    (\<forall>j < n. read32 m5 (q + of_nat (8 + 4 * j)) = arg_starts tp ss ! j) \<and>
    read32 m5 (q + of_nat (8 + 4 * n)) = 0 \<and> (\<forall>a. a \<notin> region q (12 + 4 * n) \<longrightarrow> m5 a = m a)"
proof -
  have blk: "region q (12 + 4 * n) \<subseteq> region S 16384" unfolding assms(3) using assms(4) by (intro region_shift_subset) simp_all
  have sub: "region (q + of_nat i) l \<subseteq> region q (12 + 4 * n)" if "i + l \<le> 12 + 4 * n" for i l
    using that assms(4) by (intro region_shift_subset) simp_all
  have sep: "region (q + of_nat i) l \<inter> region (q + of_nat i') l' = {}" if "i + l \<le> i'" "i' + l' \<le> 12 + 4 * n" for i l i' l'
    using that assms(4) by (intro region_shift_disjoint) simp_all
  have q: "q + of_nat 0 = q" "q + of_nat 4 = q + 4" "q + of_nat 8 = q + 8" "q + of_nat (8 + 4 * n) = q + 8 + 4 * of_nat n"
    by (simp_all add: add.assoc)
  have out3: "m3 a = m a" if "a \<notin> region q (12 + 4 * n)" for a
  proof -
    have "a \<notin> region q 4" "a \<notin> region (q + 4) 4" using that sub [of 0 4] sub [of 4 4] unfolding q by auto
    then show ?thesis unfolding assms(5) by (simp add: write32_outside)
  qed
  have "strings_at m3 (region S 16384) as ss" using strings_at_frame [OF assms(1)] out3 blk by blast
  moreover have "region (q + 8 + of_nat (4 * 0)) (4 * length ss) \<subseteq> region S 16384"
    using sub [of 8 "4 * n"] blk unfolding assms(2) q by auto
  moreover have "4 * (0 + length ss) \<le> 4294967296" using assms(2,4) by simp
  ultimately obtain m4 where m4: "store_args_loop as (q + 8) 0 tp m3 = Some m4"
    "\<forall>j < n. read32 m4 (q + 8 + of_nat (4 * (0 + j))) = arg_starts tp ss ! j"
    "\<forall>a. a \<notin> region (q + 8 + of_nat (4 * 0)) (4 * n) \<longrightarrow> m4 a = m3 a"
    using store_args_loop_words [of m3 "region S 16384" as ss "q + 8" 0 tp] unfolding assms(2) by blast
  define m5 where "m5 = write32 m4 (q + 8 + 4 * of_nat n) 0"
  have out5: "m5 a = m4 a" if "a \<notin> region (q + of_nat (8 + 4 * n)) 4" for a
    using that unfolding m5_def q(4) by (rule write32_outside)
  have out4: "m4 a = m3 a" if "a \<notin> region (q + of_nat 8) (4 * n)" for a using that m4(3) q by simp
  have low: "read32 m5 (q + of_nat i) = read32 m3 (q + of_nat i)" if "i + 4 \<le> 8" for i
  proof (rule read32_cong)
    fix a
    assume a: "a \<in> region (q + of_nat i) 4"
    have "a \<notin> region (q + of_nat (8 + 4 * n)) 4" "a \<notin> region (q + of_nat 8) (4 * n)"
      using a sep [of i 4 "8 + 4 * n" 4] sep [of i 4 8 "4 * n"] that by auto
    from out5 [OF this(1)] out4 [OF this(2)] show "m5 a = m3 a" by (rule trans)
  qed
  have "read32 m3 (q + of_nat 0) = c"
    unfolding assms(5) using sep [of 0 4 4 4] unfolding q by (simp add: read32_write32_disjoint Int_commute)
  moreover have "read32 m3 (q + of_nat 4) = v" unfolding assms(5) q by (rule read32_write32_same)
  moreover have "read32 m5 (q + of_nat (8 + 4 * j)) = arg_starts tp ss ! j" if "j < n" for j
  proof -
    have "read32 m5 (q + of_nat (8 + 4 * j)) = read32 m4 (q + of_nat (8 + 4 * j))"
      using sep [of "8 + 4 * j" 4 "8 + 4 * n" 4] that out5 by (intro read32_cong) auto
    then show ?thesis using m4(2) that by (simp add: add.assoc)
  qed
  moreover have "read32 m5 (q + of_nat (8 + 4 * n)) = 0" unfolding q m5_def by (rule read32_write32_same)
  moreover have "m5 a = m a" if "a \<notin> region q (12 + 4 * n)" for a
  proof -
    have "a \<notin> region (q + of_nat (8 + 4 * n)) 4" "a \<notin> region (q + of_nat 8) (4 * n)"
      using that sub [of "8 + 4 * n" 4] sub [of 8 "4 * n"] by auto
    from out5 [OF this(1)] out4 [OF this(2)] out3 [OF that] show ?thesis by (simp only:)
  qed
  ultimately show ?thesis
    using m4(1) m5_def low [of 0] low [of 4] by (intro exI [of _ m4] exI [of _ m5]) simp
qed

lemma arg_starts_length [simp]: "length (arg_starts tp ss) = length ss"
  by (induction ss arbitrary: tp) (simp_all add: Let_def)

lemma arg_starts_bounds:
  assumes "args_size ss \<le> unat tp" "j < length ss"
  shows "unat tp - args_size ss \<le> unat (arg_starts tp ss ! j) \<and>
    unat (arg_starts tp ss ! j) + Suc (length (ss ! j)) \<le> unat tp"
  using assms
proof (induction ss arbitrary: tp j)
  case (Cons s ss)
  have sz: "args_size (s # ss) = Suc (length s) + args_size ss" by (simp add: args_size_def)
  define a where "a = tp - of_nat (Suc (length s))"
  have len: "Suc (length s) \<le> unat tp" using Cons.prems(1) sz by simp
  have us: "unat (of_nat (Suc (length s)) :: u32) = Suc (length s)"
    using len unat_u32_less [of tp] by (intro unat_of_nat_small) simp
  then have "of_nat (Suc (length s)) \<le> tp" using len unfolding word_le_nat_alt by simp
  then have a: "unat a = unat tp - Suc (length s)" unfolding a_def using us by (simp only: unat_diff_le)
  have st: "arg_starts tp (s # ss) = a # arg_starts a ss" by (simp add: Let_def a_def algebra_simps)
  show ?case
  proof (cases j)
    case 0
    then show ?thesis using a len sz unfolding st by simp
  next
    case (Suc i)
    have "args_size ss \<le> unat a" "i < length ss" using a Cons.prems sz Suc by simp_all
    from Cons.IH [OF this] show ?thesis unfolding st Suc nth_Cons_Suc a sz by linarith
  qed
qed simp

lemma argument_array:
  assumes "args_size ss + (n * 4 + 12 + k) = 16384"
  shows "(0x3FF000 :: u32) - of_nat (args_size ss) - (of_nat n + 1) * 4 = stack_bottom + of_nat k + 8"
proof -
  from arg_cong [OF assms, of "of_nat :: nat \<Rightarrow> u32"]
  have "(of_nat (args_size ss) :: u32) + (of_nat n * 4 + 12 + of_nat k) = 16384"
    by (simp only: of_nat_add of_nat_mult of_nat_numeral)
  then have "(0x3FF000 :: u32) = stack_bottom + (of_nat (args_size ss) + (of_nat n * 4 + 12 + of_nat k))" by simp
  then show ?thesis by (simp add: algebra_simps)
qed

text \<open>The strings are above the words and survive their writing.\<close>

lemma argument_strings_kept:
  assumes "list_all2 (cstr (user_stack S m1)) (arg_starts 0x3FF000 ss) ss" "args_size ss + (n * 4 + 12 + k) = 16384"
    and "\<And>a. a \<notin> region (S + of_nat k) (12 + 4 * n) \<Longrightarrow> m5 a = m1 a" "j < length ss"
  shows "cstr (user_stack S m5) (arg_starts 0x3FF000 ss ! j) (ss ! j)"
proof (rule cstr_cong)
  let ?a = "arg_starts 0x3FF000 ss ! j"
  show "cstr (user_stack S m1) ?a (ss ! j)" using assms(1,4) by (simp add: list_all2_nthD)
  have ab: "stack_bottom + (k + (12 + 4 * n)) \<le> unat ?a" "unat ?a + Suc (length (ss ! j)) \<le> 0x3FF000"
  proof -
    have u: "unat (0x3FF000 :: u32) = 0x3FF000" by simp
    have le: "args_size ss \<le> unat (0x3FF000 :: u32)" using assms(2) unfolding u by simp
    from arg_starts_bounds [OF le assms(4)] assms(2)
    show "stack_bottom + (k + (12 + 4 * n)) \<le> unat ?a" "unat ?a + Suc (length (ss ! j)) \<le> 0x3FF000"
      unfolding u by linarith+
  qed
  fix v
  assume "v \<in> region ?a (Suc (length (ss ! j)))"
  then have v: "unat ?a \<le> unat v" "unat v < 0x3FF000" using ab(2) by (simp_all add: region_interval)
  have off: "S + (v - stack_bottom) = S + of_nat (unat v - stack_bottom)" using v ab(1) by (intro stack_offset) simp
  have "S + of_nat (unat v - stack_bottom) \<notin> region (S + of_nat k) (12 + 4 * n)"
  proof
    assume "S + of_nat (unat v - stack_bottom) \<in> region (S + of_nat k) (12 + 4 * n)"
    then have "unat (S + of_nat (unat v - stack_bottom) - S) < k + (12 + 4 * n)"
      using assms(2) by (subst (asm) region_shift) simp_all
    moreover have "unat (S + of_nat (unat v - stack_bottom) - S) = unat v - stack_bottom" using v by simp
    ultimately show False using v(1) ab(1) by simp
  qed
  then show "user_stack S m5 v = user_stack S m1 v" using assms(3) unfolding user_stack_def off by blast
qed

lemma user_stack_offset: "S + (((stack_bottom :: addr) + of_nat k + of_nat i) - stack_bottom) = S + of_nat k + of_nat i"
  by simp

lemma stack_word_translate:
  assumes "stack_mapped m page S" "unat esp = stack_bottom + k" "k + 8 < 16384" "i \<le> 8"
  shows "paging_get_physical_address m page (esp + of_nat i) = S + of_nat k + of_nat i"
proof -
  have "unat (esp + of_nat i) = stack_bottom + (k + i)" using assms unat_add_small [of esp i] by simp
  moreover have "k + i < 16384" using assms(3,4) by simp
  ultimately show ?thesis using stack_translate [OF assms(1), of "esp + of_nat i"] by (simp add: add.assoc)
qed

text \<open>The memory after the arguments are stored, by physical addresses.\<close>

lemma map_args_memory:
  assumes "processes st process = Some pr" "proc_params st (parameters pr) = Some p" "tasks st (proc_task pr) = Some t"
    and "stack_mapped (mem st) (page_directory t) S" "par_count p = of_nat n" "n \<le> 100"
    and "strings_at (mem st) (region S 16384) (take n (command_arguments p)) ss" "length ss = n"
    and "args_size ss + (n * 4 + 12 + k) = 16384" "esp = (stack_bottom :: u32) + of_nat k" "q = S + of_nat k"
  obtains m where "process_map_args_to_stack process st =
      upd_task (\<lambda>t. t\<lparr>registers := (registers t)\<lparr>reg_esp := esp, reg_ebp := esp\<rparr>\<rparr>) (proc_task pr)
        (st\<lparr>mem := m, proc_params := (proc_params st)(parameters pr \<mapsto> p\<lparr>par_start_address := esp\<rparr>)\<rparr>)"
    "read32 m q = of_nat n" "read32 m (q + 4) = esp + 8" "read32 m (q + of_nat (8 + 4 * n)) = 0"
    "\<And>j. j < n \<Longrightarrow> cstr (user_stack S m) (read32 m (q + of_nat (8 + 4 * j))) (ss ! j)"
    "\<And>a. a \<notin> region S 16384 \<Longrightarrow> m a = mem st a"
proof -
  let ?page = "page_directory t" and ?as = "take n (command_arguments p)" and ?top = "0x3FF000 :: u32"
  have cnt: "unat (par_count p) = n" using assms(5,6) by (simp add: unat_of_nat_small)
  have off: "unat ?top - args_size ss - stack_bottom = k + (12 + 4 * n)" using assms(9) by simp
  obtain m1 where m1: "copy_args_loop ?page ?as ?top (mem st) = Some (?top - of_nat (args_size ss), m1)"
    "\<forall>a. a \<notin> region (S + of_nat (k + (12 + 4 * n))) (args_size ss) \<longrightarrow> m1 a = mem st a"
    "list_all2 (cstr (user_stack S m1)) (arg_starts ?top ss) ss"
    using copy_args_loop_strings [OF assms(4,7), of ?top, unfolded off] assms(9) by auto
  have strs: "region (S + of_nat (k + (12 + 4 * n))) (args_size ss) \<subseteq> region S 16384"
    and block: "region q (12 + 4 * n) \<subseteq> region S 16384"
    unfolding assms(11) using assms(9) by (intro region_shift_subset; simp)+
  have out1: "m1 a = mem st a" if "a \<notin> region S 16384" for a using that m1(2) strs by blast
  have esp: "unat esp = stack_bottom + k" unfolding assms(10) using assms(9) unat_add_small [of stack_bottom k] by simp
  note ph = stack_word_translate [OF stack_mapped_frame [OF assms(4) out1] esp, folded assms(11)]
  have ph3: "paging_get_physical_address m1 ?page esp = q" "paging_get_physical_address m1 ?page (esp + 4) = q + 4"
    "paging_get_physical_address m1 ?page (esp + 8) = q + 8" using ph [of 0] ph [of 4] ph [of 8] assms(9) by simp_all
  have va: "?top - of_nat (args_size ss) - (par_count p + 1) * 4 = esp + 8"
    unfolding assms(5,10) by (rule argument_array [OF assms(9)])
  define m3 where "m3 = write32 (write32 m1 q (par_count p)) (q + 4) (esp + 8)"
  have "strings_at m1 (region S 16384) ?as ss" using assms(7) out1 by (rule strings_at_frame)
  from argument_block [OF this assms(8,11) _ m3_def, of ?top] obtain m4 m where
    m4: "store_args_loop ?as (q + 8) 0 ?top m3 = Some m4" and m_def: "m = write32 m4 (q + 8 + 4 * of_nat n) 0" and
    b: "read32 m q = par_count p" "read32 m (q + 4) = esp + 8"
      "\<forall>j < n. read32 m (q + of_nat (8 + 4 * j)) = arg_starts ?top ss ! j" "read32 m (q + of_nat (8 + 4 * n)) = 0"
      "\<forall>a. a \<notin> region q (12 + 4 * n) \<longrightarrow> m a = m1 a"
    using assms(9) by auto
  have sub: "esp + 8 - 4 = esp + 4" "esp + 4 - 4 = esp" by simp_all
  have "process_map_args_to_stack process st =
      upd_task (\<lambda>t. t\<lparr>registers := (registers t)\<lparr>reg_esp := esp, reg_ebp := esp\<rparr>\<rparr>) (proc_task pr)
        (st\<lparr>mem := m, proc_params := (proc_params st)(parameters pr \<mapsto> p\<lparr>par_start_address := esp\<rparr>)\<rparr>)"
    unfolding process_map_args_to_stack_def assms(1-3) Option.bind.bind_lunit Let_def cnt if_not_P [OF iffD2 [OF not_less assms(6)]]
      m1(1) prod.case va sub ph3 m3_def [symmetric] m4 m_def [folded assms(5)] ..
  moreover have "cstr (user_stack S m) (arg_starts ?top ss ! j) (ss ! j)" if "j < n" for j
    using that assms(8) b(5) assms(9) by (intro argument_strings_kept [OF m1(3) assms(9)]) (simp_all add: assms(11))
  moreover have "m a = mem st a" if "a \<notin> region S 16384" for a using b(5) out1 block that by auto
  ultimately show thesis using that b assms(5) by simp
qed

text \<open>
  C23: the arguments of a process.  For arguments that fit, the stack pointer of the new task
  points to the count, above it is the address of an array of the addresses of the arguments,
  in order and ended by null, and each address leads to its string, all seen through the
  address space of the process; this is what \<^verbatim>\<open>main\<close> finds above its return address.  Nothing
  outside the stack changes.
\<close>

theorem process_args_on_stack:
  assumes "processes st process = Some pr" "proc_params st (parameters pr) = Some p" "tasks st (proc_task pr) = Some t"
    and "stack_mapped (mem st) (page_directory t) S" "unat (par_count p) = n" "n \<le> 100"
    and "strings_at (mem st) (region S 16384) (take n (command_arguments p)) ss" "length ss = n"
    and "args_size ss + 4 * n + 12 \<le> 16384"
  shows "\<exists>st' t' esp u. process_map_args_to_stack process st = Some st' \<and> tasks st' (proc_task pr) = Some t' \<and>
    reg_esp (registers t') = esp \<and> u = user_stack S (mem st') \<and>
    read32 u esp = of_nat n \<and> read32 u (esp + 4) = esp + 8 \<and>
    (\<forall>j < n. cstr u (read32 u (esp + 8 + 4 * of_nat j)) (ss ! j)) \<and> read32 u (esp + 8 + 4 * of_nat n) = 0 \<and>
    (\<forall>a. a \<notin> region S 16384 \<longrightarrow> mem st' a = mem st a)"
proof -
  define k where "k = 16384 - args_size ss - 12 - 4 * n"
  define esp where "esp = (stack_bottom :: u32) + of_nat k"
  define q where "q = S + of_nat k"
  have fit: "args_size ss + (n * 4 + 12 + k) = 16384" using assms(9) by (simp add: k_def)
  have pc: "par_count p = of_nat n" by (simp flip: assms(5))
  obtain m where run: "process_map_args_to_stack process st =
      upd_task (\<lambda>t. t\<lparr>registers := (registers t)\<lparr>reg_esp := esp, reg_ebp := esp\<rparr>\<rparr>) (proc_task pr)
        (st\<lparr>mem := m, proc_params := (proc_params st)(parameters pr \<mapsto> p\<lparr>par_start_address := esp\<rparr>)\<rparr>)"
    and m: "read32 m q = of_nat n" "read32 m (q + 4) = esp + 8" "read32 m (q + of_nat (8 + 4 * n)) = 0"
      "\<And>j. j < n \<Longrightarrow> cstr (user_stack S m) (read32 m (q + of_nat (8 + 4 * j))) (ss ! j)"
    and out: "\<And>a. a \<notin> region S 16384 \<Longrightarrow> m a = mem st a"
    by (rule map_args_memory [OF assms(1-4) pc assms(6-8) fit esp_def q_def]) (rule that)
  have rd: "read32 (user_stack S m) (esp + of_nat i) = read32 m (q + of_nat i)" for i
    unfolding read32_user_stack esp_def q_def user_stack_offset ..
  define t' where "t' = t\<lparr>registers := (registers t)\<lparr>reg_esp := esp, reg_ebp := esp\<rparr>\<rparr>"
  define st' where "st' = st\<lparr>mem := m, proc_params := (proc_params st)(parameters pr \<mapsto> p\<lparr>par_start_address := esp\<rparr>),
    tasks := (tasks st)(proc_task pr \<mapsto> t')\<rparr>"
  have "process_map_args_to_stack process st = Some st'"
    unfolding run using assms(3) by (simp add: upd_task_def st'_def t'_def)
  moreover have "mem st' = m" "tasks st' (proc_task pr) = Some t'" "reg_esp (registers t') = esp" by (simp_all add: st'_def t'_def)
  moreover have "read32 (user_stack S m) esp = of_nat n" "read32 (user_stack S m) (esp + 4) = esp + 8"
    using rd [of 0] rd [of 4] m by simp_all
  moreover have "cstr (user_stack S m) (read32 (user_stack S m) (esp + 8 + 4 * of_nat j)) (ss ! j)" if "j < n" for j
    using rd [of "8 + 4 * j"] m(4) [OF that] by (simp add: add.assoc)
  moreover have "read32 (user_stack S m) (esp + 8 + 4 * of_nat n) = 0" using rd [of "8 + 4 * n"] m(3) by (simp add: add.assoc)
  ultimately show ?thesis
    using out by (intro exI [of _ st'] exI [of _ t'] exI [of _ esp] exI [of _ "user_stack S m"]) simp
qed

text \<open>A state for the witness: a process with an identity address space and the argument \<open>ls\<close>.\<close>

lemma kheap_live_above:
  assumes "kheap_ok st" "(q, k) \<in> kheap_live st"
  shows "unat (start_address (kernel_heap st)) \<le> unat q"
proof -
  obtain b n where bn: "run_at (kernel_heap st) (mem st) b n"
      "q = start_address (kernel_heap st) + of_nat (4096 * b)"
    using assms(2) by (auto simp: kheap_live_def runs_def)
  have shape: "heap_shape (kernel_heap st)" using assms(1) by (simp add: kheap_ok_def heap_ok_def)
  show ?thesis using run_region [OF shape bn(1)] bn(2) by auto
qed

theorem process_args_on_stack_witness:
  "\<exists>(st :: process_state) st' t' u. process_map_args_to_stack 0x700 st = Some st' \<and> tasks st' 0x600 = Some t' \<and>
     u = user_stack 0x3FB000 (mem st') \<and> read32 u (reg_esp (registers t')) = 1 \<and>
     cstr u (read32 u (reg_esp (registers t') + 8)) [0x6C, 0x73]"
proof -
  obtain page st1 where c: "paging_new_chunk 7 process_state_ex = (page, st1)" by (rule prod.exhaust)
  have av: "1026 \<le> kheap_avail process_state_ex" using process_state_ex_heap(2) by simp
  note sp = paging_new_chunk_spec [OF process_state_ex_heap(1) av c]
  define m where "m = store (mem st1) 0x500 [0x6C, 0x73, 0]"
  define t where "t = (task_ex 0 0)\<lparr>page_directory := page\<rparr>"
  define p where "p = \<lparr>par_count = 1, command_arguments = 0x500 # replicate 99 0, par_start_address = 0\<rparr>"
  define pr where "pr = zero_process\<lparr>proc_task := 0x600, parameters := 0x900\<rparr>"
  define st where "st = st1\<lparr>mem := m, tasks := [0x600 \<mapsto> t], processes := [0x700 \<mapsto> pr], proc_params := [0x900 \<mapsto> p]\<rparr>"
  have hp: "start_address (kernel_heap st1) = 0x01000000"
  proof -
    obtain m0 where "st1 = process_state_ex\<lparr>mem := m0\<rparr>" using paging_new_chunk_put [of 7 process_state_ex] c by auto
    then show ?thesis
      by (simp add: process_state_ex_def task_state_ex_def elf_state_ex_def task_state.defs elf_state.defs kheap_init_eq)
  qed
  have own: "0x01000000 \<le> unat q \<and> unat q + k \<le> 4294967296" if "(q, k) \<in> chunk_owned (mem st1) page" for q k
    using that sp(4) kheap_live_above [OF sp(1), of q k] kheap_live_region [OF sp(1), of q k] hp by auto
  have far: "region q k \<inter> region r l = {}" if "(q, k) \<in> chunk_owned (mem st1) page" "unat r + l \<le> 0x01000000" for q k r l
    using region_disjoint [of r l q k] own [OF that(1)] that(2) by (auto simp: Int_commute)
  have "m a = mem st1 a" if "(q, k) \<in> chunk_owned (mem st1) page" "a \<in> region q k" for q k a
  proof -
    have "a \<notin> region 0x500 (length [0x6C, 0x73, 0 :: u8])"
      using far [OF that(1), of "0x500" "length [0x6C, 0x73, 0 :: u8]"] that(2) by auto
    then show ?thesis unfolding m_def by (subst store_eq) simp_all
  qed
  note fr = physical_address_frame [of "mem st1" page m, OF this]
  have ident: "paging_get_physical_address (mem st1) page v = v" for v by (rule identity_physical_address [OF sp(7) flags_below_page])
  have mapped: "stack_mapped (mem st) (page_directory t) 0x3FB000"
    using far [of _ _ "0x3FB000" 16384] by (auto simp: stack_mapped_def st_def t_def fr ident)
  have s: "strings_at (mem st) (region 0x3FB000 16384) (take 1 (command_arguments p)) [[0x6C, 0x73]]"
    by (auto simp: strings_at_def st_def m_def p_def region_interval)
  have f: "processes st 0x700 = Some pr" "proc_params st (parameters pr) = Some p" "tasks st (proc_task pr) = Some t"
    "proc_task pr = 0x600" "unat (par_count p) = 1" "(1 :: nat) \<le> 100" "length [[0x6C, 0x73 :: u8]] = 1"
    "args_size [[0x6C, 0x73]] + 4 * 1 + 12 \<le> 16384"
    by (simp_all add: st_def pr_def p_def args_size_def)
  obtain st' t' esp u where "process_map_args_to_stack 0x700 st = Some st'" "tasks st' (proc_task pr) = Some t'"
    "reg_esp (registers t') = esp" "u = user_stack 0x3FB000 (mem st')" "read32 u esp = of_nat 1"
    "\<forall>j < 1. cstr u (read32 u (esp + 8 + 4 * of_nat j)) ([[0x6C, 0x73]] ! j)"
    using process_args_on_stack [OF f(1-3) mapped f(5,6) s f(7,8)] by (elim exE conjE) (rule that)
  then show ?thesis unfolding f(4) by (intro exI [of _ st] exI [of _ st'] exI [of _ t'] exI [of _ u]) simp
qed

end
