(* ===== verification/Zhios_Keyboard.thy ===== *)
theory Zhios_Keyboard
  imports Zhios_Process
begin

text \<open>
  The keyboard: the ring buffer of the current process (\<^verbatim>\<open>src/src/keyboard/keyboard.c\<close>), the
  PS/2 driver (\<^verbatim>\<open>classic.c\<close>), and the table of service routines of \<^verbatim>\<open>interrupts.c\<close> in which
  the driver registers itself.  A function pointer is a value of a datatype with one
  constructor per function of the program.  The buffer implements a queue for the first
  1024 keys (locale \<open>key_queue\<close>); afterwards old keys come back, because a key is not erased
  when it is delivered.
\<close>

section \<open>State\<close>

datatype keyboard_init_function = ClassicKeyboardInit

datatype isr_routine = ClassicKeyboardHandler | HandleExceptions

record Keyboard =
  kbd_name :: string
  kbd_init :: "keyboard_init_function option"
  capslock_on :: bool
  kbd_next :: addr

text \<open>\<open>classic\<close> is the address of the static structure of the driver.\<close>

record keyboard_state = process_state +
  keyboards :: "addr \<rightharpoonup> Keyboard"
  keyboard_head :: addr
  keyboard_tail :: addr
  classic :: addr
  service_routines :: "isr_routine option list"

abbreviation (input) ZHIOS_MAX_KEYBOARD_BUFFER_SIZE :: "'a::numeral" where
  "ZHIOS_MAX_KEYBOARD_BUFFER_SIZE \<equiv> 1024"

abbreviation (input) TOTAL_INTERRUPTS :: "'a::numeral" where
  "TOTAL_INTERRUPTS \<equiv> 512"

section \<open>Service routines\<close>

text \<open>The test lets 512 pass, which is outside the table.\<close>

definition register_service_routine ::
  "int \<Rightarrow> isr_routine \<Rightarrow> 'a keyboard_state_scheme \<Rightarrow> (int \<times> 'a keyboard_state_scheme) option" where
  "register_service_routine interrupt handler st =
     (if interrupt < 0 \<or> interrupt > TOTAL_INTERRUPTS then Some (- EINARG, st)
      else if nat interrupt < length (service_routines st)
      then Some (0, st\<lparr>service_routines := (service_routines st)[nat interrupt := Some handler]\<rparr>)
      else None)"

section \<open>keyboard.c\<close>

definition classic_keyboard_init ::
  "'a keyboard_state_scheme \<Rightarrow> (int \<times> 'a keyboard_state_scheme) option" where
  "classic_keyboard_init st = do {
     (res, st1) \<leftarrow> register_service_routine 0x21 ClassicKeyboardHandler st;
     Some (0, outb 0x64 0xAE st1) }"

fun run_init ::
  "keyboard_init_function \<Rightarrow> 'a keyboard_state_scheme \<Rightarrow> (int \<times> 'a keyboard_state_scheme) option" where
  "run_init ClassicKeyboardInit st = classic_keyboard_init st"

definition upd_keyboard ::
  "(Keyboard \<Rightarrow> Keyboard) \<Rightarrow> addr \<Rightarrow> 'a keyboard_state_scheme \<Rightarrow> 'a keyboard_state_scheme option" where
  "upd_keyboard f k st = map_option (\<lambda>x. st\<lparr>keyboards := (keyboards st)(k \<mapsto> f x)\<rparr>) (keyboards st k)"

definition keyboard_insert ::
  "addr \<Rightarrow> 'a keyboard_state_scheme \<Rightarrow> (int \<times> 'a keyboard_state_scheme) option" where
  "keyboard_insert keyboard st = do {
     k \<leftarrow> keyboards st keyboard;
     case kbd_init k of
       None \<Rightarrow> Some (- EINARG, st)
     | Some init \<Rightarrow> do {
         st1 \<leftarrow> (if keyboard_tail st \<noteq> 0
                then map_option (\<lambda>s. s\<lparr>keyboard_tail := keyboard\<rparr>)
                       (upd_keyboard (\<lambda>x. x\<lparr>kbd_next := keyboard\<rparr>) (keyboard_tail st) st)
                else Some (st\<lparr>keyboard_tail := keyboard, keyboard_head := keyboard\<rparr>));
         run_init init st1 } }"

definition get_classic_keyboard :: "'a keyboard_state_scheme \<Rightarrow> addr" where
  "get_classic_keyboard st = classic st"

definition keyboard_init :: "'a keyboard_state_scheme \<Rightarrow> 'a keyboard_state_scheme option" where
  "keyboard_init st = map_option snd (keyboard_insert (get_classic_keyboard st) st)"

text \<open>
  The indices are taken modulo an unsigned 1024, which divides \<open>2 ^ 32\<close>.
\<close>

definition keyboard_get_tail_index :: "KeyboardBuffer \<Rightarrow> nat" where
  "keyboard_get_tail_index buffer = nat (kb_tail buffer mod ZHIOS_MAX_KEYBOARD_BUFFER_SIZE)"

definition keyboard_get_head_index :: "KeyboardBuffer \<Rightarrow> nat" where
  "keyboard_get_head_index buffer = nat (kb_head buffer mod ZHIOS_MAX_KEYBOARD_BUFFER_SIZE)"

text \<open>An increment beyond the largest \<^verbatim>\<open>int\<close> has no value.\<close>

definition increment :: "int \<Rightarrow> int option" where
  "increment i = (if i < 2147483647 then Some (i + 1) else None)"

definition keyboard_push :: "u8 \<Rightarrow> 'a keyboard_state_scheme \<Rightarrow> 'a keyboard_state_scheme option" where
  "keyboard_push c st =
     (let process = get_current_process st in
      if process = 0 then Some st
      else if c = 0 then Some st
      else do {
        pr \<leftarrow> processes st process;
        let kb = keyboard_buffer pr;
        let index = keyboard_get_tail_index kb;
        tail \<leftarrow> increment (kb_tail kb);
        upd_process (\<lambda>x. x\<lparr>keyboard_buffer :=
            kb\<lparr>kb_buffer := (kb_buffer kb)[index := c], kb_tail := tail\<rparr>\<rparr>) process st })"

definition keyboard_pop :: "'a keyboard_state_scheme \<Rightarrow> (u8 \<times> 'a keyboard_state_scheme) option" where
  "keyboard_pop st =
     (if get_current_task st = 0 then Some (0, st)
      else do {
        t \<leftarrow> tasks st (get_current_task st);
        pr \<leftarrow> processes st (task_process t);
        let kb = keyboard_buffer pr;
        let res = kb_buffer kb ! keyboard_get_head_index kb;
        if res = 0 then Some (0, st)
        else do {
          head \<leftarrow> increment (kb_head kb);
          st1 \<leftarrow> upd_process (\<lambda>x. x\<lparr>keyboard_buffer := kb\<lparr>kb_head := head\<rparr>\<rparr>) (task_process t) st;
          Some (res, st1) } })"

definition keyboard_backspace :: "KeyboardBuffer \<Rightarrow> KeyboardBuffer" where
  "keyboard_backspace buffer =
     (let b = buffer\<lparr>kb_tail := kb_tail buffer - 1\<rparr>
      in b\<lparr>kb_buffer := (kb_buffer b)[keyboard_get_tail_index b := 0]\<rparr>)"

section \<open>classic.c\<close>

definition keyboard_scan_set_1 :: "u8 list" where
  "keyboard_scan_set_1 =
     [0x00, 0x1B, 0x31, 0x32, 0x33, 0x34, 0x35,
      0x36, 0x37, 0x38, 0x39, 0x30, 0x2D, 0x3D,
      0x08, 0x09, 0x51, 0x57, 0x45, 0x52, 0x54,
      0x59, 0x55, 0x49, 0x4F, 0x50, 0x5B, 0x5D,
      0x0D, 0x00, 0x41, 0x53, 0x44, 0x46, 0x47,
      0x48, 0x4A, 0x4B, 0x4C, 0x3B, 0x27, 0x60,
      0x00, 0x5C, 0x5A, 0x58, 0x43, 0x56, 0x42,
      0x4E, 0x4D, 0x2C, 0x2E, 0x2F, 0x00, 0x2A,
      0x00, 0x20, 0x00, 0x00, 0x00, 0x00,
      0x00, 0x00, 0x00, 0x00, 0x00, 0x00,
      0x00, 0x37, 0x38, 0x39, 0x2D, 0x34, 0x35,
      0x36, 0x2B, 0x31, 0x32, 0x33, 0x30, 0x2E]"

text \<open>The test lets the code behind the last entry pass.\<close>

definition classic_get_key_from_scancode :: "u8 \<Rightarrow> 'a keyboard_state_scheme \<Rightarrow> u8 option" where
  "classic_get_key_from_scancode scan_code st =
     (if unat scan_code > length keyboard_scan_set_1 then Some 0
      else if unat scan_code = length keyboard_scan_set_1 then None
      else do {
        k \<leftarrow> keyboards st (classic st);
        let c = keyboard_scan_set_1 ! unat scan_code;
        Some (if \<not> capslock_on k \<and> sint c \<ge> 65 \<and> sint c \<le> 90 then c + 32 else c) })"

definition classic_keyboard_interrupt_handler ::
  "'a keyboard_state_scheme \<Rightarrow> 'a keyboard_state_scheme option" where
  "classic_keyboard_interrupt_handler st =
     (let (scancode, st1) = insb 0x60 (kernel_page st);
          (ignored, st2) = insb 0x60 st1
      in if scancode AND 0x80 \<noteq> 0 then Some st2
         else do {
           st3 \<leftarrow> (if scancode = 0x3A
                  then upd_keyboard (\<lambda>k. k\<lparr>capslock_on := \<not> capslock_on k\<rparr>) (classic st2) st2
                  else Some st2);
           c \<leftarrow> classic_get_key_from_scancode scancode st3;
           st4 \<leftarrow> (if c \<noteq> 0 then keyboard_push c st3 else Some st3);
           current_task_page st4 })"

section \<open>The contract of a queue of keys\<close>

text \<open>
  \<open>content\<close> is what has been put and not yet taken, \<open>used\<close> how many have been put in all,
  which the implementation limits.  Taking from an empty queue gives the key 0.
\<close>

fun feed :: "('c \<Rightarrow> 's \<Rightarrow> 's option) \<Rightarrow> 'c list \<Rightarrow> 's \<Rightarrow> 's option" where
  "feed put [] s = Some s"
| "feed put (c # cs) s = Option.bind (put c s) (feed put cs)"

fun drain :: "('s \<Rightarrow> ('c \<times> 's) option) \<Rightarrow> nat \<Rightarrow> 's \<Rightarrow> ('c list \<times> 's) option" where
  "drain take_key 0 s = Some ([], s)"
| "drain take_key (Suc n) s =
     Option.bind (take_key s) (\<lambda>(c, s'). map_option (\<lambda>(cs, s''). (c # cs, s'')) (drain take_key n s'))"

locale key_queue =
  fixes put :: "u8 \<Rightarrow> 's \<Rightarrow> 's option"
    and take_key :: "'s \<Rightarrow> (u8 \<times> 's) option"
    and content :: "'s \<Rightarrow> u8 list"
    and used :: "'s \<Rightarrow> nat"
    and capacity :: nat
    and ok :: "'s \<Rightarrow> bool"
  assumes put_appends: "ok s \<Longrightarrow> c \<noteq> 0 \<Longrightarrow> used s < capacity \<Longrightarrow>
      \<exists>s'. put c s = Some s' \<and> ok s' \<and> content s' = content s @ [c] \<and> used s' = Suc (used s)"
    and take_first: "ok s \<Longrightarrow> content s = c # cs \<Longrightarrow>
      \<exists>s'. take_key s = Some (c, s') \<and> ok s' \<and> content s' = cs \<and> used s' = used s"
    and take_empty: "ok s \<Longrightarrow> content s = [] \<Longrightarrow> used s < capacity \<Longrightarrow> take_key s = Some (0, s)"
begin

lemma feed_appends:
  assumes "ok s" "0 \<notin> set cs" "used s + length cs \<le> capacity"
  shows "\<exists>s'. feed put cs s = Some s' \<and> ok s' \<and> content s' = content s @ cs \<and> used s' = used s + length cs"
  using assms
proof (induction cs arbitrary: s)
  case (Cons c cs)
  then obtain s1 where s1: "put c s = Some s1" "ok s1" "content s1 = content s @ [c]" "used s1 = Suc (used s)"
    using put_appends [of s c] by auto
  have "\<exists>s'. feed put cs s1 = Some s' \<and> ok s' \<and> content s' = content s1 @ cs \<and> used s' = used s1 + length cs"
    using Cons s1 by (intro Cons.IH) simp_all
  with s1 show ?case by auto
qed simp

lemma drain_takes:
  assumes "ok s" "content s = cs @ ds"
  shows "\<exists>s'. drain take_key (length cs) s = Some (cs, s') \<and> ok s' \<and> content s' = ds \<and> used s' = used s"
  using assms
proof (induction cs arbitrary: s)
  case (Cons c cs)
  then obtain s1 where "take_key s = Some (c, s1)" "ok s1" "content s1 = cs @ ds" "used s1 = used s"
    using take_first [of s c "cs @ ds"] by auto
  with Cons.IH [of s1] show ?case by auto
qed simp

lemma feed_drain:
  assumes "ok s" "content s = []" "0 \<notin> set cs" "used s + length cs \<le> capacity"
  shows "\<exists>s' s''. feed put cs s = Some s' \<and> drain take_key (length cs) s' = Some (cs, s'') \<and>
    ok s'' \<and> content s'' = [] \<and> used s'' = used s + length cs"
proof -
  obtain s' where s': "feed put cs s = Some s'" "ok s'" "content s' = cs @ []" "used s' = used s + length cs"
    using feed_appends [OF assms(1,3,4)] assms(2) by auto
  from drain_takes [OF s'(2,3)] s' show ?thesis by auto
qed

end

section \<open>The ring buffer in its first round\<close>

definition kb_ok :: "KeyboardBuffer \<Rightarrow> bool" where
  "kb_ok kb \<longleftrightarrow> length (kb_buffer kb) = 1024 \<and> 0 \<le> kb_head kb \<and> kb_head kb \<le> kb_tail kb \<and> kb_tail kb \<le> 1024 \<and>
     (\<forall>i < 1024. kb_buffer kb ! i = 0 \<longleftrightarrow> nat (kb_tail kb) \<le> i)"

definition kb_keys :: "KeyboardBuffer \<Rightarrow> u8 list" where
  "kb_keys kb = take (nat (kb_tail kb - kb_head kb)) (drop (nat (kb_head kb)) (kb_buffer kb))"

lemma kb_okD:
  assumes "kb_ok kb"
  shows "length (kb_buffer kb) = 1024" "0 \<le> kb_head kb" "kb_head kb \<le> kb_tail kb" "kb_tail kb \<le> 1024"
    "i < 1024 \<Longrightarrow> kb_buffer kb ! i = 0 \<longleftrightarrow> nat (kb_tail kb) \<le> i"
  using assms by (simp_all add: kb_ok_def)

lemma kb_push:
  assumes "kb_ok kb" "c \<noteq> 0" "kb_tail kb < 1024"
    and "kb' = kb\<lparr>kb_buffer := (kb_buffer kb)[keyboard_get_tail_index kb := c], kb_tail := kb_tail kb + 1\<rparr>"
  shows "kb_ok kb'" "kb_keys kb' = kb_keys kb @ [c]"
proof -
  note b = kb_okD(1-4) [OF assms(1)]
  have i: "keyboard_get_tail_index kb = nat (kb_tail kb)"
    using b assms(3) by (simp add: keyboard_get_tail_index_def)
  have "nat (kb_tail kb + 1) = Suc (nat (kb_tail kb))" using b by linarith
  then show "kb_ok kb'"
    using assms i by (auto simp: kb_ok_def nth_list_update less_Suc_eq_le le_Suc_eq)
  let ?t = "nat (kb_tail kb)" and ?h = "nat (kb_head kb)"
  have n: "?h \<le> ?t" "?t < length (kb_buffer kb)" "nat (kb_tail kb + 1 - kb_head kb) = Suc (?t - ?h)"
    "nat (kb_tail kb - kb_head kb) = ?t - ?h"
    using b assms(3) by linarith+
  have "take (Suc (?t - ?h)) (drop ?h ((kb_buffer kb)[?t := c])) = take (?t - ?h) (drop ?h (kb_buffer kb)) @ [c]"
    using n(1,2) by (simp add: take_Suc_conv_app_nth drop_update_swap)
  then show "kb_keys kb' = kb_keys kb @ [c]" using assms(4) i n(3,4) by (simp add: kb_keys_def)
qed

lemma kb_pop:
  assumes "kb_ok kb" "kb_keys kb = c # cs"
  shows "keyboard_get_head_index kb = nat (kb_head kb)" "kb_buffer kb ! nat (kb_head kb) = c" "c \<noteq> 0"
    "kb_head kb < 1024" "kb_ok (kb\<lparr>kb_head := kb_head kb + 1\<rparr>)" "kb_keys (kb\<lparr>kb_head := kb_head kb + 1\<rparr>) = cs"
proof -
  let ?h = "nat (kb_head kb)"
  note b = kb_okD(1-4) [OF assms(1)]
  have "kb_head kb < kb_tail kb" using assms(2) by (cases "kb_head kb < kb_tail kb") (simp_all add: kb_keys_def)
  then have n: "kb_head kb < kb_tail kb" "kb_head kb < 1024" "?h < length (kb_buffer kb)" "?h < nat (kb_tail kb)" "?h < 1024"
    "nat (kb_tail kb - kb_head kb) = Suc (nat (kb_tail kb - (kb_head kb + 1)))" "nat (kb_head kb + 1) = Suc ?h"
    using b by linarith+
  then show "keyboard_get_head_index kb = ?h" "kb_head kb < 1024"
    using assms(1) by (simp_all add: keyboard_get_head_index_def kb_ok_def)
  have "kb_keys kb = kb_buffer kb ! ?h # take (nat (kb_tail kb - (kb_head kb + 1))) (drop (Suc ?h) (kb_buffer kb))"
    unfolding kb_keys_def n(6) using n(3) by (simp add: Cons_nth_drop_Suc [symmetric])
  then show c: "kb_buffer kb ! ?h = c" and "kb_keys (kb\<lparr>kb_head := kb_head kb + 1\<rparr>) = cs"
    using assms(2) n(7) by (simp_all add: kb_keys_def)
  have "\<not> nat (kb_tail kb) \<le> ?h" using n(4) by (simp only: not_le)
  then show "c \<noteq> 0" using assms(1) n(5) c unfolding kb_ok_def by metis
  show "kb_ok (kb\<lparr>kb_head := kb_head kb + 1\<rparr>)" using assms(1) n(1) by (simp add: kb_ok_def)
qed

lemma kb_pop_empty:
  assumes "kb_ok kb" "kb_keys kb = []"
  shows "kb_head kb = kb_tail kb" "kb_tail kb < 1024 \<Longrightarrow> kb_buffer kb ! keyboard_get_head_index kb = 0"
    "kb_tail kb = 1024 \<Longrightarrow> kb_buffer kb ! keyboard_get_head_index kb \<noteq> 0"
proof -
  have n: "length (kb_buffer kb) = 1024" "0 \<le> kb_head kb" "kb_head kb \<le> kb_tail kb" "kb_tail kb \<le> 1024"
    "\<And>i. i < 1024 \<Longrightarrow> kb_buffer kb ! i = 0 \<longleftrightarrow> nat (kb_tail kb) \<le> i"
    using assms(1) by (simp_all add: kb_ok_def)
  show e: "kb_head kb = kb_tail kb" using assms(2) n(1-4) by (auto simp: kb_keys_def)
  show "kb_buffer kb ! keyboard_get_head_index kb = 0" if "kb_tail kb < 1024"
    using that e n(2) n(5) [of "nat (kb_tail kb)"] by (simp add: keyboard_get_head_index_def)
  show "kb_buffer kb ! keyboard_get_head_index kb \<noteq> 0" if "kb_tail kb = 1024"
    using that e n(5) [of 0] by (simp add: keyboard_get_head_index_def)
qed

text \<open>
  The state of the whole keyboard path: the current task belongs to the current process, and
  the buffer of that process is in its first round.
\<close>

definition keyboard_ok :: "'a keyboard_state_scheme \<Rightarrow> bool" where
  "keyboard_ok st \<longleftrightarrow> current_process st \<noteq> 0 \<and> current_task st \<noteq> 0 \<and>
     map_option task_process (tasks st (current_task st)) = Some (current_process st) \<and>
     (case processes st (current_process st) of None \<Rightarrow> False | Some pr \<Rightarrow> kb_ok (keyboard_buffer pr))"

definition current_buffer :: "'a keyboard_state_scheme \<Rightarrow> KeyboardBuffer" where
  "current_buffer st = keyboard_buffer (the (processes st (current_process st)))"

definition pending_keys :: "'a keyboard_state_scheme \<Rightarrow> u8 list" where
  "pending_keys st = kb_keys (current_buffer st)"

definition keys_seen :: "'a keyboard_state_scheme \<Rightarrow> nat" where
  "keys_seen st = nat (kb_tail (current_buffer st))"

definition set_buffer :: "KeyboardBuffer \<Rightarrow> 'a keyboard_state_scheme \<Rightarrow> 'a keyboard_state_scheme" where
  "set_buffer kb st = st\<lparr>processes := (processes st)(current_process st \<mapsto>
     (the (processes st (current_process st)))\<lparr>keyboard_buffer := kb\<rparr>)\<rparr>"

lemma set_buffer_simps:
  "current_buffer (set_buffer kb st) = kb"
  "keyboard_ok st \<Longrightarrow> kb_ok kb \<Longrightarrow> keyboard_ok (set_buffer kb st)"
  by (auto simp: set_buffer_def current_buffer_def keyboard_ok_def)

lemma keyboard_push_eq:
  assumes "keyboard_ok st" "c \<noteq> 0" "keys_seen st < 1024"
  shows "keyboard_push c st = Some (set_buffer ((current_buffer st)\<lparr>
    kb_buffer := (kb_buffer (current_buffer st))[keyboard_get_tail_index (current_buffer st) := c],
    kb_tail := kb_tail (current_buffer st) + 1\<rparr>) st)"
  using assms
  by (auto simp: keyboard_push_def keyboard_ok_def get_current_process_def current_buffer_def set_buffer_def
      upd_process_def increment_def keys_seen_def Let_def kb_ok_def split: option.splits)

lemma keyboard_pop_eq:
  assumes "keyboard_ok st"
  shows "keyboard_pop st =
    (let kb = current_buffer st; c = kb_buffer kb ! keyboard_get_head_index kb
     in if c = 0 then Some (0, st) else Some (c, set_buffer (kb\<lparr>kb_head := kb_head kb + 1\<rparr>) st))"
  using assms
  by (auto simp: keyboard_pop_def keyboard_ok_def get_current_task_def current_buffer_def set_buffer_def
      upd_process_def increment_def Let_def kb_ok_def split: option.splits)

lemma current_buffer_ok: "keyboard_ok st \<Longrightarrow> kb_ok (current_buffer st)"
  by (auto simp: keyboard_ok_def current_buffer_def split: option.splits)

lemma set_buffer_current: "keyboard_ok st \<Longrightarrow> set_buffer (current_buffer st) st = st"
  by (auto simp: set_buffer_def current_buffer_def keyboard_ok_def fun_upd_idem split: option.splits)

lemma kb_keys_nonzero:
  assumes "kb_ok kb"
  shows "0 \<notin> set (kb_keys kb)"
proof
  assume "0 \<in> set (kb_keys kb)"
  then obtain i where i: "i < length (kb_keys kb)" "kb_keys kb ! i = 0" by (metis in_set_conv_nth)
  note b = kb_okD(1-4) [OF assms]
  have lt: "nat (kb_head kb) + i < nat (kb_tail kb)" using i(1) b by (simp add: kb_keys_def)
  moreover have "kb_buffer kb ! (nat (kb_head kb) + i) = 0" using i b by (simp add: kb_keys_def)
  ultimately show False using kb_okD(5) [OF assms, of "nat (kb_head kb) + i"] b(4) by simp
qed

lemma keyboard_pending_nonzero: "keyboard_ok st \<Longrightarrow> 0 \<notin> set (pending_keys st)"
  using kb_keys_nonzero [OF current_buffer_ok] by (simp add: pending_keys_def)

interpretation kq: key_queue keyboard_push keyboard_pop pending_keys keys_seen 1024 keyboard_ok
proof (unfold_locales, goal_cases)
  case (1 st c)
  let ?kb = "current_buffer st"
  let ?kb' = "?kb\<lparr>kb_buffer := (kb_buffer ?kb)[keyboard_get_tail_index ?kb := c], kb_tail := kb_tail ?kb + 1\<rparr>"
  have ok: "kb_ok ?kb" by (rule current_buffer_ok [OF 1(1)])
  have t: "kb_tail ?kb < 1024" "0 \<le> kb_tail ?kb" using 1(3) kb_okD(2,3) [OF ok] by (simp_all add: keys_seen_def)
  note p = kb_push [OF ok 1(2) t(1) refl]
  have "nat (kb_tail ?kb + 1) = Suc (nat (kb_tail ?kb))" using t(2) by linarith
  then show ?case
    using keyboard_push_eq [OF 1] set_buffer_simps [where kb = ?kb' and st = st] p 1(1)
    by (intro exI [of _ "set_buffer ?kb' st"]) (simp add: pending_keys_def keys_seen_def)
next
  case (2 st c cs)
  let ?kb = "current_buffer st"
  have "kb_keys ?kb = c # cs" using 2(2) by (simp add: pending_keys_def)
  note p = kb_pop [OF current_buffer_ok [OF 2(1)] this]
  then show ?case
    using keyboard_pop_eq [OF 2(1)] set_buffer_simps [where kb = "?kb\<lparr>kb_head := kb_head ?kb + 1\<rparr>" and st = st] 2(1)
    by (intro exI [of _ "set_buffer (?kb\<lparr>kb_head := kb_head ?kb + 1\<rparr>) st"])
      (simp add: pending_keys_def keys_seen_def Let_def)
next
  case (3 st)
  have "kb_keys (current_buffer st) = []" using 3(2) by (simp add: pending_keys_def)
  moreover have "kb_tail (current_buffer st) < 1024"
    using 3(3) kb_okD(2,3) [OF current_buffer_ok [OF 3(1)]] by (simp add: keys_seen_def)
  ultimately show ?case
    using kb_pop_empty(2) [OF current_buffer_ok [OF 3(1)]] keyboard_pop_eq [OF 3(1)] by (simp add: Let_def)
qed

section \<open>Properties\<close>

text \<open>
  C13: keys arrive in order.  From a state with an empty buffer in its first round, keys
  pushed by \<^verbatim>\<open>keyboard_push\<close> (in all at most 1024) are all delivered by \<^verbatim>\<open>keyboard_pop\<close> in
  the order in which they were pressed; then the buffer is empty again and, when fewer than
  1024 keys were pressed so far, \<^verbatim>\<open>keyboard_pop\<close> returns 0 and changes nothing.
\<close>

theorem keyboard_delivers_in_order:
  assumes "keyboard_ok st" "pending_keys st = []" "0 \<notin> set cs" "keys_seen st + length cs \<le> 1024"
  shows "\<exists>st1 st2. feed keyboard_push cs st = Some st1 \<and> pending_keys st1 = cs \<and>
    drain keyboard_pop (length cs) st1 = Some (cs, st2) \<and> keyboard_ok st2 \<and> pending_keys st2 = [] \<and>
    (keys_seen st + length cs < 1024 \<longrightarrow> keyboard_pop st2 = Some (0, st2))"
proof -
  obtain st1 where s1: "feed keyboard_push cs st = Some st1" "keyboard_ok st1" "pending_keys st1 = cs"
    "keys_seen st1 = keys_seen st + length cs"
    using kq.feed_appends [OF assms(1,3,4)] assms(2) by auto
  obtain st2 where "drain keyboard_pop (length cs) st1 = Some (cs, st2)" "keyboard_ok st2"
    "pending_keys st2 = []" "keys_seen st2 = keys_seen st1"
    using kq.drain_takes [OF s1(2), of cs "[]"] s1(3) by auto
  then show ?thesis using s1 kq.take_empty [of st2] by auto
qed

text \<open>
  Old keys come back.  When 1024 keys have been pressed and all of them delivered,
  \<^verbatim>\<open>keyboard_pop\<close> returns a key although none is pending, because it does not erase what it
  delivers.
\<close>

lemma keyboard_repeats_after_1024:
  assumes "keyboard_ok st" "pending_keys st = []" "keys_seen st = 0" "0 \<notin> set cs" "length cs = 1024"
  shows "\<exists>st1 st2 c st3. feed keyboard_push cs st = Some st1 \<and> drain keyboard_pop 1024 st1 = Some (cs, st2) \<and>
    pending_keys st2 = [] \<and> keyboard_pop st2 = Some (c, st3) \<and> c \<noteq> 0"
proof -
  obtain st1 st2 where s: "feed keyboard_push cs st = Some st1" "drain keyboard_pop 1024 st1 = Some (cs, st2)"
    "keyboard_ok st2" "pending_keys st2 = []" "keys_seen st2 = 1024"
    using kq.feed_drain [OF assms(1,2,4)] assms(3,5) by auto
  have "kb_tail (current_buffer st2) = 1024" using s(5) by (simp add: keys_seen_def)
  then have "kb_buffer (current_buffer st2) ! keyboard_get_head_index (current_buffer st2) \<noteq> 0"
    using kb_pop_empty(3) [OF current_buffer_ok [OF s(3)]] s(4) by (simp add: pending_keys_def)
  then show ?thesis using keyboard_pop_eq [OF s(3)] s(1,2,4) by (auto simp: Let_def)
qed

text \<open>A state for the witnesses: one process with an empty buffer.\<close>

definition keyboard_state_ex :: keyboard_state where
  "keyboard_state_ex = process_state.extend
     (process_state_ex\<lparr>tasks := [0x600 \<mapsto> (task_ex 0 0)\<lparr>task_process := 0x700\<rparr>], current_task := 0x600,
        processes := [0x700 \<mapsto> zero_process], current_process := 0x700\<rparr>)
     (keyboard_state.fields Map.empty 0 0 0x900 (replicate TOTAL_INTERRUPTS None))"

lemma keyboard_state_ex_ok:
  "keyboard_ok keyboard_state_ex" "pending_keys keyboard_state_ex = []" "keys_seen keyboard_state_ex = 0"
  by (simp_all add: keyboard_ok_def keyboard_state_ex_def process_state.defs zero_process_def kb_ok_def
      pending_keys_def kb_keys_def current_buffer_def keys_seen_def)

theorem keyboard_delivers_in_order_witness:
  "\<exists>st1 st2. feed keyboard_push [0x6C, 0x73] keyboard_state_ex = Some st1 \<and>
     drain keyboard_pop 2 st1 = Some ([0x6C, 0x73], st2)"
proof -
  let ?cs = "[0x6C, 0x73] :: u8 list"
  have "0 \<notin> set ?cs" "keys_seen keyboard_state_ex + length ?cs \<le> 1024" by (simp_all add: keyboard_state_ex_ok(3))
  from keyboard_delivers_in_order [OF keyboard_state_ex_ok(1,2) this]
  obtain st1 st2 where "feed keyboard_push ?cs keyboard_state_ex = Some st1"
    "drain keyboard_pop (length ?cs) st1 = Some (?cs, st2)" by (elim exE conjE) (rule that)
  moreover have "length ?cs = 2" by simp
  ultimately show ?thesis by metis
qed

end
