(* ===== verification/Zhios_Screen.thy ===== *)
theory Zhios_Screen
  imports Zhios_Keyboard
begin

text \<open>
  Output on the frame buffer: \<^verbatim>\<open>src/src/vesa/vesa.c\<close>, \<^verbatim>\<open>font/psf.c\<close> and \<^verbatim>\<open>terminal/terminal.c\<close>.
  The mode information that the boot code leaves at \<open>0x5000\<close>, the font and the frame buffer
  are bytes in memory.  The components below the terminal record their messages in
  \<open>console\<close>; everything above prints through \<open>terminal_writechar\<close>.  The font is linked into
  the kernel: its bounds are fields of the state.
\<close>

section \<open>State\<close>

record pixel_t =
  px_red :: u8
  px_green :: u8
  px_blue :: u8

record screen_state = keyboard_state +
  terminal_row :: u16
  terminal_col :: u16
  font :: addr
  unicode :: addr
  font_start :: addr
  font_end :: addr
  video_mem :: addr

definition terminal_bg :: pixel_t where
  "terminal_bg = \<lparr>px_red = 0x07, px_green = 0x0F, px_blue = 0x2B\<rparr>"

definition terminal_fg :: pixel_t where
  "terminal_fg = \<lparr>px_red = 0xFF, px_green = 0xFD, px_blue = 0xD0\<rparr>"

abbreviation (input) TERMINAL_MARGIN :: "'a::numeral" where
  "TERMINAL_MARGIN \<equiv> 5"

section \<open>vesa.c\<close>

text \<open>\<^verbatim>\<open>current_mode\<close> is initialised to \<open>0x5000\<close> and never assigned.\<close>

abbreviation (input) current_mode :: addr where
  "current_mode \<equiv> 0x5000"

definition mode_pitch :: "memory \<Rightarrow> u16" where
  "mode_pitch m = read16 m (current_mode + 16)"

definition mode_width :: "memory \<Rightarrow> u16" where
  "mode_width m = read16 m (current_mode + 18)"

definition mode_height :: "memory \<Rightarrow> u16" where
  "mode_height m = read16 m (current_mode + 20)"

definition mode_bpp :: "memory \<Rightarrow> u8" where
  "mode_bpp m = m (current_mode + 25)"

definition mode_framebuffer :: "memory \<Rightarrow> addr" where
  "mode_framebuffer m = read32 m (current_mode + 40)"

definition write_to_screen :: "int \<Rightarrow> int \<Rightarrow> pixel_t \<Rightarrow> memory \<Rightarrow> memory" where
  "write_to_screen x y p m =
     (let fb = mode_framebuffer m;
          offset = of_int (y * uint (mode_pitch m) + x * (uint (mode_bpp m) div 8))
      in m(fb + offset := px_blue p, fb + (offset + 1) := px_green p, fb + (offset + 2) := px_red p))"

text \<open>
  The bounds of all loops here are read from memory in every round, so a frame buffer that
  overlaps the mode or the font would change them; their width bounds the number of rounds.
  The inner loop of \<^verbatim>\<open>vesa_fill_bg\<close> runs over the bytes of a row (the pitch) and not over its
  pixels.
\<close>

function fill_row :: "nat \<Rightarrow> nat \<Rightarrow> pixel_t \<Rightarrow> memory \<Rightarrow> memory" where
  "fill_row y x bg m =
     (if x < unat (mode_pitch m) then fill_row y (Suc x) bg (write_to_screen (int x) (int y) bg m) else m)"
  by pat_completeness auto

termination fill_row
proof (relation "measure (\<lambda>(y, x, bg, m). 65536 - x)", goal_cases)
  case (2 y x bg m)
  then show ?case using less_trans [OF 2 unat_u16_less] by simp
qed simp

function fill_rows :: "nat \<Rightarrow> pixel_t \<Rightarrow> memory \<Rightarrow> memory" where
  "fill_rows y bg m =
     (if y < unat (mode_height m) then fill_rows (Suc y) bg (fill_row y 0 bg m) else m)"
  by pat_completeness auto

termination fill_rows
proof (relation "measure (\<lambda>(y, bg, m). 65536 - y)", goal_cases)
  case (2 y bg m)
  then show ?case using less_trans [OF 2 unat_u16_less] by simp
qed simp

declare fill_row.simps [simp del] fill_rows.simps [simp del]

definition vesa_fill_bg :: "pixel_t \<Rightarrow> memory \<Rightarrow> memory" where
  "vesa_fill_bg bg m = fill_rows 0 bg m"

section \<open>psf.c\<close>

definition font_magic :: "memory \<Rightarrow> addr \<Rightarrow> u32" where
  "font_magic m f = read32 m f"

definition font_header_size :: "memory \<Rightarrow> addr \<Rightarrow> u32" where
  "font_header_size m f = read32 m (f + 8)"

definition font_flags :: "memory \<Rightarrow> addr \<Rightarrow> u32" where
  "font_flags m f = read32 m (f + 12)"

definition font_num_glyph :: "memory \<Rightarrow> addr \<Rightarrow> u32" where
  "font_num_glyph m f = read32 m (f + 16)"

definition font_bytes_per_glyph :: "memory \<Rightarrow> addr \<Rightarrow> u32" where
  "font_bytes_per_glyph m f = read32 m (f + 20)"

definition font_height :: "memory \<Rightarrow> addr \<Rightarrow> u32" where
  "font_height m f = read32 m (f + 24)"

definition font_width :: "memory \<Rightarrow> addr \<Rightarrow> u32" where
  "font_width m f = read32 m (f + 28)"

definition write16 :: "memory \<Rightarrow> addr \<Rightarrow> u16 \<Rightarrow> memory" where
  "write16 m a v = m(a := ucast v, a + 1 := ucast (drop_bit 8 v))"

text \<open>
  One entry of the table of characters.  The byte is a signed \<^verbatim>\<open>char\<close>, so the value of a
  byte from \<open>0x80\<close> on has the high byte \<open>0xFF\<close>, and the end mark \<open>0xFF\<close> is never recognised.
  The result is the code and by how much the offset advances; \<open>Inl\<close> is the end mark.
\<close>

definition unicode_entry :: "memory \<Rightarrow> addr \<Rightarrow> unit + u16 \<times> u32" where
  "unicode_entry m p =
     (let uc = scast (m p) :: u16;
          b0 = scast (m p) :: u32; b1 = scast (m (p + 1)) :: u32;
          b2 = scast (m (p + 2)) :: u32; b3 = scast (m (p + 3)) :: u32
      in if uc = 0xFF then Inl ()
         else if uc AND 128 \<noteq> 0
         then (if uc AND 32 = 0
               then Inr (ucast (push_bit 6 (b0 AND 0x1F) + (b1 AND 0x3F)), 1)
               else if uc AND 16 = 0
               then Inr (ucast (push_bit 6 (push_bit 6 (b0 AND 0xF) + (b1 AND 0x3F)) + (b2 AND 0x3F)), 2)
               else if uc AND 8 = 0
               then Inr (ucast (push_bit 6 (push_bit 6 (push_bit 6 (b0 AND 0x7) + (b1 AND 0x3F)) + (b2 AND 0x3F))
                      + (b3 AND 0x3F)), 3)
               else Inr (uc, 0))
         else Inr (uc, 0))"

partial_function (option) unicode_loop :: "addr \<Rightarrow> addr \<Rightarrow> addr \<Rightarrow> u16 \<Rightarrow> memory \<Rightarrow> memory option" where
  "unicode_loop table_offset table_end uni glyph m =
     (if table_offset < table_end
      then case unicode_entry m table_offset of
             Inl _ \<Rightarrow> unicode_loop (table_offset + 1) table_end uni (glyph + 1) m
           | Inr (uc, skip) \<Rightarrow> unicode_loop (table_offset + skip + 1) table_end uni glyph
               (write16 m (uni + 2 * ucast uc) glyph)
      else Some m)"

text \<open>
  The start of the table is computed with arithmetic on a pointer to the 32-byte header, so
  every summand counts 32 times.
\<close>

definition psf_init :: "'a screen_state_scheme \<Rightarrow> 'a screen_state_scheme option" where
  "psf_init st =
     (let f = font_start st; st1 = st\<lparr>font := f\<rparr>; m = mem st in
      if font_magic m f \<noteq> 0x864ab572 then Some st1
      else if font_flags m f = 0 then Some (st1\<lparr>unicode := 0\<rparr>)
      else (let table_offset = f + 32 * (font_header_size m f + font_num_glyph m f * font_bytes_per_glyph m f);
                (uni, st2) = kzalloc (65535 * 2) st1
            in do {
              m' \<leftarrow> unicode_loop table_offset (font_end st2) uni 0 (mem st2);
              Some (st2\<lparr>unicode := uni, mem := m'\<rparr>) }))"

text \<open>
  The coordinates go through \<^verbatim>\<open>float\<close> with scale 1, which is exact for the 16-bit positions
  and font sizes below \<open>2 ^ 24\<close>.
\<close>

function draw_row :: "addr \<Rightarrow> addr \<Rightarrow> int \<Rightarrow> int \<Rightarrow> nat \<Rightarrow> pixel_t \<Rightarrow> memory \<Rightarrow> memory" where
  "draw_row f line x y col fg m =
     (if col < unat (font_width m f)
      then draw_row f line x y (Suc col) fg
             (if m (line + of_nat (col div 8)) AND drop_bit (col mod 8) 128 \<noteq> 0
              then write_to_screen (x + int col) y fg m else m)
      else m)"
  by pat_completeness auto

termination draw_row
proof (relation "measure (\<lambda>(f, line, x, y, col, fg, m). 4294967296 - col)", goal_cases)
  case (2 f line x y col fg m)
  then show ?case using less_trans [OF 2 unat_u32_less] by simp
qed simp

function draw_glyph :: "addr \<Rightarrow> addr \<Rightarrow> nat \<Rightarrow> int \<Rightarrow> int \<Rightarrow> nat \<Rightarrow> pixel_t \<Rightarrow> memory \<Rightarrow> memory" where
  "draw_glyph f glyph bytes_per_line x y row fg m =
     (if row < unat (font_height m f)
      then draw_glyph f glyph bytes_per_line x y (Suc row) fg
             (draw_row f (glyph + of_nat (row * bytes_per_line)) x (y + int row) 0 fg m)
      else m)"
  by pat_completeness auto

termination draw_glyph
proof (relation "measure (\<lambda>(f, glyph, bytes_per_line, x, y, row, fg, m). 4294967296 - row)", goal_cases)
  case (2 f glyph bytes_per_line x y row fg m)
  then show ?case using less_trans [OF 2 unat_u32_less] by simp
qed simp

definition psf_putc :: "u8 \<Rightarrow> u16 \<Rightarrow> u16 \<Rightarrow> pixel_t \<Rightarrow> 'a screen_state_scheme \<Rightarrow> 'a screen_state_scheme" where
  "psf_putc c x y fg st =
     (let m = mem st; f = font st;
          bytes_per_line = ucast ((font_width m f + 7) div 8) :: u8;
          glyph_index = scast c :: u16;
          glyph = f + font_header_size m f + ucast glyph_index * font_height m f * ucast bytes_per_line
      in st\<lparr>mem := draw_glyph f glyph (unat bytes_per_line) (uint x) (uint y) 0 fg m\<rparr>)"

function clear_row :: "addr \<Rightarrow> int \<Rightarrow> int \<Rightarrow> nat \<Rightarrow> pixel_t \<Rightarrow> memory \<Rightarrow> memory" where
  "clear_row f x y col color m =
     (if col < unat (font_width m f)
      then clear_row f x y (Suc col) color (write_to_screen (x + int col) y color m) else m)"
  by pat_completeness auto

termination clear_row
proof (relation "measure (\<lambda>(f, x, y, col, color, m). 4294967296 - col)", goal_cases)
  case (2 f x y col color m)
  then show ?case using less_trans [OF 2 unat_u32_less] by simp
qed simp

function clear_rows :: "addr \<Rightarrow> int \<Rightarrow> int \<Rightarrow> nat \<Rightarrow> pixel_t \<Rightarrow> memory \<Rightarrow> memory" where
  "clear_rows f x y row color m =
     (if row < unat (font_height m f)
      then clear_rows f x y (Suc row) color (clear_row f x (y + int row) 0 color m) else m)"
  by pat_completeness auto

termination clear_rows
proof (relation "measure (\<lambda>(f, x, y, row, color, m). 4294967296 - row)", goal_cases)
  case (2 f x y row color m)
  then show ?case using less_trans [OF 2 unat_u32_less] by simp
qed simp

declare draw_row.simps [simp del] draw_glyph.simps [simp del] clear_row.simps [simp del] clear_rows.simps [simp del]

definition psf_clear_char ::
  "u16 \<Rightarrow> u16 \<Rightarrow> pixel_t \<Rightarrow> 'a screen_state_scheme \<Rightarrow> 'a screen_state_scheme" where
  "psf_clear_char x y color st =
     st\<lparr>mem := clear_rows (font st) (uint x) (uint y) 0 color (mem st)\<rparr>"

definition psf_get_height :: "'a screen_state_scheme \<Rightarrow> u32" where
  "psf_get_height st = font_height (mem st) (font st)"

definition psf_get_width :: "'a screen_state_scheme \<Rightarrow> u32" where
  "psf_get_width st = font_width (mem st) (font st)"

section \<open>terminal.c\<close>

definition make_terminal_char :: "u8 \<Rightarrow> u8 \<Rightarrow> u16" where
  "make_terminal_char c color = push_bit 8 (scast color) OR scast c"

definition terminal_putchar :: "int \<Rightarrow> int \<Rightarrow> u8 \<Rightarrow> u8 \<Rightarrow> 'a screen_state_scheme \<Rightarrow> 'a screen_state_scheme" where
  "terminal_putchar x y c color st =
     st\<lparr>mem := write16 (mem st) (video_mem st + 2 * of_int (80 * y + x)) (make_terminal_char c color)\<rparr>"

definition move_to_next_row :: "'a screen_state_scheme \<Rightarrow> 'a screen_state_scheme" where
  "move_to_next_row st = st\<lparr>terminal_col := TERMINAL_MARGIN,
     terminal_row := terminal_row st + ucast (psf_get_height st + 1)\<rparr>"

definition move_to_prev_row :: "'a screen_state_scheme \<Rightarrow> 'a screen_state_scheme" where
  "move_to_prev_row st = st\<lparr>terminal_row := terminal_row st - ucast (psf_get_height st - 1)\<rparr>"

definition move_to_next_col :: "'a screen_state_scheme \<Rightarrow> 'a screen_state_scheme" where
  "move_to_next_col st = st\<lparr>terminal_col := terminal_col st + ucast (psf_get_width st + 1)\<rparr>"

definition move_to_prev_col :: "'a screen_state_scheme \<Rightarrow> 'a screen_state_scheme" where
  "move_to_prev_col st = st\<lparr>terminal_col := terminal_col st - ucast (psf_get_width st) - 1\<rparr>"

definition terminal_backspace :: "'a screen_state_scheme \<Rightarrow> 'a screen_state_scheme" where
  "terminal_backspace st =
     (if terminal_row st = TERMINAL_MARGIN \<and> terminal_col st = TERMINAL_MARGIN then st
      else (let st1 = (if terminal_col st = TERMINAL_MARGIN
                       then (move_to_prev_row st)\<lparr>terminal_col := mode_width (mem st)\<rparr> else st);
                st2 = move_to_prev_col st1
            in psf_clear_char (terminal_col st2) (terminal_row st2) terminal_bg st2))"

definition terminal_writechar :: "u8 \<Rightarrow> 'a screen_state_scheme \<Rightarrow> 'a screen_state_scheme" where
  "terminal_writechar c st =
     (if c = 10 then move_to_next_row st
      else if c = 8 then terminal_backspace st
      else (let st1 = move_to_next_col (psf_putc c (terminal_col st) (terminal_row st) terminal_fg st)
            in if terminal_col st1 \<ge> mode_width (mem st1) then move_to_next_row st1 else st1))"

text \<open>
  The length is computed again in every round: a string that overlaps the frame buffer may
  change while it is printed.  \<open>print_text\<close> is \<^verbatim>\<open>print\<close> on a string literal, which lies in the
  image of the kernel.
\<close>

partial_function (option) print_loop ::
  "addr \<Rightarrow> nat \<Rightarrow> 'a screen_state_scheme \<Rightarrow> 'a screen_state_scheme option" where
  "print_loop str i st = do {
     len \<leftarrow> strlen (mem st) str;
     if i < len then print_loop str (Suc i) (terminal_writechar (mem st (str + of_nat i)) st)
     else Some st }"

definition print :: "addr \<Rightarrow> 'a screen_state_scheme \<Rightarrow> 'a screen_state_scheme option" where
  "print str st = print_loop str 0 st"

definition print_text :: "u8 list \<Rightarrow> 'a screen_state_scheme \<Rightarrow> 'a screen_state_scheme" where
  "print_text s st = fold terminal_writechar s st"

definition init_terminal :: "'a screen_state_scheme \<Rightarrow> 'a screen_state_scheme option" where
  "init_terminal st = psf_init (st\<lparr>mem := vesa_fill_bg terminal_bg (mem st)\<rparr>)"

section \<open>Pixels\<close>

text \<open>
  The screen as a function of coordinates.  \<open>mode_ok\<close> says that the mode describes pixels of at
  least three bytes whose rows fit their pitch, and that the frame buffer leaves the mode
  alone; \<open>repainted\<close> relates memories that differ only in the frame buffer, and there by
  given pixels.
\<close>

definition pixel_offset :: "memory \<Rightarrow> nat \<Rightarrow> nat \<Rightarrow> nat" where
  "pixel_offset m x y = y * unat (mode_pitch m) + x * (unat (mode_bpp m) div 8)"

definition pixel_at :: "memory \<Rightarrow> nat \<Rightarrow> nat \<Rightarrow> pixel_t" where
  "pixel_at m x y =
     (let a = mode_framebuffer m + of_nat (pixel_offset m x y)
      in \<lparr>px_red = m (a + 2), px_green = m (a + 1), px_blue = m a\<rparr>)"

definition frame_buffer :: "memory \<Rightarrow> addr set" where
  "frame_buffer m = region (mode_framebuffer m) (unat (mode_pitch m) * unat (mode_height m))"

definition mode_ok :: "memory \<Rightarrow> bool" where
  "mode_ok m \<longleftrightarrow> 24 \<le> unat (mode_bpp m) \<and>
     unat (mode_width m) * (unat (mode_bpp m) div 8) \<le> unat (mode_pitch m) \<and>
     region current_mode 44 \<inter> frame_buffer m = {}"

definition visible :: "memory \<Rightarrow> nat \<Rightarrow> nat \<Rightarrow> bool" where
  "visible m x y \<longleftrightarrow> x < unat (mode_width m) \<and> y < unat (mode_height m)"

definition repainted :: "memory \<Rightarrow> (nat \<Rightarrow> nat \<Rightarrow> pixel_t option) \<Rightarrow> memory \<Rightarrow> bool" where
  "repainted m F m' \<longleftrightarrow> (\<forall>a. a \<notin> frame_buffer m \<longrightarrow> m' a = m a) \<and>
     (\<forall>x y. visible m x y \<longrightarrow> pixel_at m' x y = (case F x y of None \<Rightarrow> pixel_at m x y | Some p \<Rightarrow> p))"

lemma repainted_mode:
  assumes "mode_ok m" "repainted m F m'"
  shows "mode_pitch m' = mode_pitch m" "mode_width m' = mode_width m" "mode_height m' = mode_height m"
    "mode_bpp m' = mode_bpp m" "mode_framebuffer m' = mode_framebuffer m"
proof -
  have "m' (current_mode + of_nat k) = m (current_mode + of_nat k)" if "k < 44" for k
  proof -
    have "current_mode + of_nat k \<in> region current_mode 44" using that by (intro region_add) simp_all
    then show ?thesis using assms unfolding repainted_def mode_ok_def by blast
  qed
  from this [of 16] this [of 17] this [of 18] this [of 19] this [of 20] this [of 21] this [of 25]
    this [of 40] this [of 41] this [of 42] this [of 43]
  show "mode_pitch m' = mode_pitch m" "mode_width m' = mode_width m" "mode_height m' = mode_height m"
    "mode_bpp m' = mode_bpp m" "mode_framebuffer m' = mode_framebuffer m"
    by (simp_all add: mode_pitch_def mode_width_def mode_height_def mode_bpp_def mode_framebuffer_def read16_def read32_def)
qed

lemma repainted_ok:
  assumes "mode_ok m" "repainted m F m'"
  shows "mode_ok m'" "frame_buffer m' = frame_buffer m" "visible m' = visible m"
  using assms repainted_mode [OF assms] by (auto simp: mode_ok_def frame_buffer_def visible_def fun_eq_iff)

lemma repainted_trans:
  assumes "mode_ok m" "repainted m F m1" "repainted m1 G m2"
    and "\<And>x y. H x y = (case G x y of None \<Rightarrow> F x y | Some p \<Rightarrow> Some p)"
  shows "repainted m H m2"
  using assms(2,3) repainted_ok [OF assms(1,2)] unfolding repainted_def assms(4)
  by (auto split: option.splits)

lemma repainted_refl: "(\<And>x y. F x y = None) \<Longrightarrow> repainted m F m"
  by (simp add: repainted_def)

text \<open>Two different pixels do not share a byte.\<close>

lemma mode_ok_bytes:
  assumes "mode_ok m"
  shows "3 \<le> unat (mode_bpp m) div 8"
proof -
  have "24 \<le> unat (mode_bpp m)" using assms by (simp add: mode_ok_def)
  then show ?thesis using div_le_mono [of 24 "unat (mode_bpp m)" 8] by simp
qed

lemma pixel_offset_bound:
  assumes "mode_ok m" "visible m x y" "k < 3"
  shows "pixel_offset m x y + k < unat (mode_pitch m) * unat (mode_height m)"
proof -
  let ?b = "unat (mode_bpp m) div 8" let ?p = "unat (mode_pitch m)"
  have b: "3 \<le> ?b" by (rule mode_ok_bytes [OF assms(1)])
  have "Suc x * ?b \<le> unat (mode_width m) * ?b" using assms(2) by (intro mult_le_mono1) (simp add: visible_def)
  also have "\<dots> \<le> ?p" using assms(1) by (simp add: mode_ok_def)
  finally have x: "x * ?b + k < ?p" using b assms(3) by simp
  have "Suc y * ?p \<le> unat (mode_height m) * ?p" using assms(2) by (intro mult_le_mono1) (simp add: visible_def)
  then show ?thesis using x by (simp add: pixel_offset_def ac_simps)
qed

lemma screen_size: "unat (mode_pitch m) * unat (mode_height m) \<le> 4294967296"
  using mult_le_mono [OF less_imp_le [OF unat_u16_less [of "mode_pitch m"]] less_imp_le [OF unat_u16_less [of "mode_height m"]]]
  by simp

lemma pixel_offset_disjoint:
  assumes "mode_ok m" "visible m x y" "visible m x' y'" "(x', y') \<noteq> (x, y)" "k < 3" "k' < 3"
  shows "pixel_offset m x y + k \<noteq> pixel_offset m x' y' + k'"
proof
  let ?b = "unat (mode_bpp m) div 8" let ?p = "unat (mode_pitch m)"
  assume eq: "pixel_offset m x y + k = pixel_offset m x' y' + k'"
  have b: "3 \<le> ?b" by (rule mode_ok_bytes [OF assms(1)])
  have row: "z * ?b + j < ?p" if "z < unat (mode_width m)" "j < 3" for z j
  proof -
    have "Suc z * ?b \<le> unat (mode_width m) * ?b" using that(1) by (intro mult_le_mono1) simp
    then show ?thesis using assms(1) b that(2) by (simp add: mode_ok_def)
  qed
  have r: "x * ?b + k < ?p" "x' * ?b + k' < ?p" using assms row by (simp_all add: visible_def)
  have e: "y * ?p + (x * ?b + k) = y' * ?p + (x' * ?b + k')" using eq by (simp add: pixel_offset_def)
  have "y = y'" using arg_cong [OF e, of "\<lambda>n. n div ?p"] r by simp
  moreover from this e have "x * ?b + k = x' * ?b + k'" by simp
  then have "(x * ?b + k) div ?b = (x' * ?b + k') div ?b" by (rule arg_cong)
  then have "x = x'" using assms(5,6) b by simp
  ultimately show False using assms(4) by simp
qed

lemma write_to_screen_repaints:
  assumes "mode_ok m" "visible m x y"
  shows "repainted m (\<lambda>x' y'. if x' = x \<and> y' = y then Some p else None) (write_to_screen (int x) (int y) p m)"
proof -
  let ?fb = "mode_framebuffer m" let ?o = "pixel_offset m x y"
  have "int y * uint (mode_pitch m) + int x * (uint (mode_bpp m) div 8) = int ?o"
    by (simp add: pixel_offset_def zdiv_int)
  then have off: "of_int (int y * uint (mode_pitch m) + int x * (uint (mode_bpp m) div 8)) = (of_nat ?o :: addr)"
    by (simp only: of_int_of_nat_eq)
  have w: "write_to_screen (int x) (int y) p m =
      m(?fb + of_nat ?o := px_blue p, ?fb + of_nat (?o + 1) := px_green p, ?fb + of_nat (?o + 2) := px_red p)"
    by (simp only: write_to_screen_def Let_def off) (simp add: ac_simps)
  define m' where "m' = m(?fb + of_nat ?o := px_blue p, ?fb + of_nat (?o + 1) := px_green p, ?fb + of_nat (?o + 2) := px_red p)"
  have inj: "?fb + of_nat i = ?fb + of_nat j \<longleftrightarrow> i = j" if "i < 4294967296" "j < 4294967296" for i j :: nat
    using that by (metis add_left_cancel unat_of_nat_small)
  note lim = less_le_trans [OF pixel_offset_bound [OF assms(1)] screen_size [of m]]
  have out: "m' a = m a" if "a \<notin> frame_buffer m" for a
  proof -
    have "?fb + of_nat (?o + k) \<in> frame_buffer m" if "k < 3" for k
      unfolding frame_buffer_def by (rule region_add [OF pixel_offset_bound [OF assms that] screen_size])
    from this [of 0] this [of 1] this [of 2] that show ?thesis by (auto simp: m'_def)
  qed
  then have "repainted m (\<lambda>x y. Some (pixel_at m' x y)) m'" by (simp add: repainted_def)
  note md = repainted_mode [OF assms(1) this]
  have pix: "pixel_at m' x' y' = (if x' = x \<and> y' = y then p else pixel_at m x' y')" if v: "visible m x' y'" for x' y'
  proof -
    let ?o' = "pixel_offset m x' y'"
    have rd: "pixel_at n x' y' = \<lparr>px_red = n (?fb + of_nat (?o' + 2)), px_green = n (?fb + of_nat (?o' + 1)),
        px_blue = n (?fb + of_nat ?o')\<rparr>" if "n = m \<or> n = m'" for n
      using that md by (auto simp: pixel_at_def pixel_offset_def Let_def ac_simps)
    have l: "?o' + 2 < 4294967296" "?o + 2 < 4294967296" using lim [OF v, of 2] lim [OF assms(2), of 2] by simp_all
    show ?thesis
    proof (cases "x' = x \<and> y' = y")
      case True
      then show ?thesis using l rd [of m'] by (simp add: m'_def inj del: of_nat_add)
    next
      case False
      then have "?o + k \<noteq> ?o' + k'" if "k < 3" "k' < 3" for k k'
        using pixel_offset_disjoint [OF assms v _ that] by blast
      from this [of 0 0] this [of 0 1] this [of 0 2] this [of 1 0] this [of 1 1] this [of 1 2]
        this [of 2 0] this [of 2 1] this [of 2 2]
      have ne: "?o' \<noteq> ?o" "?o' + 1 \<noteq> ?o" "?o' + 2 \<noteq> ?o" "?o' \<noteq> ?o + 1" "?o' + 1 \<noteq> ?o + 1" "?o' + 2 \<noteq> ?o + 1"
        "?o' \<noteq> ?o + 2" "?o' + 1 \<noteq> ?o + 2" "?o' + 2 \<noteq> ?o + 2" by simp_all
      have "m' (?fb + of_nat j) = m (?fb + of_nat j)" if "j \<in> {?o', ?o' + 1, ?o' + 2}" for j
        using that ne l inj [of j ?o] inj [of j "?o + 1"] inj [of j "?o + 2"] by (auto simp: m'_def simp del: of_nat_add)
      from this [of ?o'] this [of "?o' + 1"] this [of "?o' + 2"] have "pixel_at m' x' y' = pixel_at m x' y'"
        unfolding rd [OF disjI2 [OF refl]] rd [OF disjI1 [OF refl]] by simp
      then show ?thesis using False by auto
    qed
  qed
  show ?thesis using out pix unfolding repainted_def w m'_def [symmetric] by auto
qed

text \<open>A font outside the frame buffer does not change while it is drawn.\<close>

definition lit :: "memory \<Rightarrow> addr \<Rightarrow> nat \<Rightarrow> bool" where
  "lit m line col \<longleftrightarrow> bit (m (line + of_nat (col div 8))) (7 - col mod 8)"

lemma lit_test: "m (line + of_nat (col div 8)) AND drop_bit (col mod 8) 128 \<noteq> 0 \<longleftrightarrow> lit m line col"
proof -
  have "drop_bit k (128 :: u8) = 2 ^ (7 - k)" if "k < 8" for k
  proof -
    from that have "k = 0 \<or> k = 1 \<or> k = 2 \<or> k = 3 \<or> k = 4 \<or> k = 5 \<or> k = 6 \<or> k = 7" by presburger
    then show ?thesis by (elim disjE) (simp_all add: drop_bit_eq_div)
  qed
  then show ?thesis by (simp add: lit_def and_exp_eq_0_iff_not_bit)
qed

lemma repainted_font:
  assumes "region f 32 \<inter> frame_buffer m = {}" "repainted m F m'"
  shows "font_width m' f = font_width m f" "font_height m' f = font_height m f"
    "font_header_size m' f = font_header_size m f"
proof -
  have "m' (f + of_nat k) = m (f + of_nat k)" if "k < 32" for k
  proof -
    have "f + of_nat k \<in> region f 32" using that by (intro region_add) simp_all
    then show ?thesis using assms unfolding repainted_def by blast
  qed
  from this [of 8] this [of 9] this [of 10] this [of 11] this [of 24] this [of 25] this [of 26] this [of 27]
    this [of 28] this [of 29] this [of 30] this [of 31]
  show "font_width m' f = font_width m f" "font_height m' f = font_height m f"
    "font_header_size m' f = font_header_size m f"
    by (simp_all add: font_width_def font_height_def font_header_size_def read32_def ac_simps)
qed

lemma repainted_lit:
  assumes "repainted m F m'" "line + of_nat (k div 8) \<notin> frame_buffer m"
  shows "lit m' line k = lit m line k"
  using assms by (simp add: repainted_def lit_def)

lemma draw_row_repaints:
  assumes "mode_ok m" "region f 32 \<inter> frame_buffer m = {}" "w = unat (font_width m f)"
    and "\<And>k. k < w \<Longrightarrow> line + of_nat (k div 8) \<notin> frame_buffer m"
    and "x + w \<le> unat (mode_width m)" "y < unat (mode_height m)"
  shows "repainted m (\<lambda>x' y'. if y' = y \<and> x + col \<le> x' \<and> x' < x + w \<and> lit m line (x' - x) then Some fg else None)
    (draw_row f line (int x) (int y) col fg m)"
  using assms
proof (induction "w - col" arbitrary: col m)
  case 0
  then have "draw_row f line (int x) (int y) col fg m = m" by (subst draw_row.simps) simp
  then show ?case using "0.hyps" by (auto intro: repainted_refl)
next
  case (Suc d)
  let ?m = "if lit m line col then write_to_screen (int (x + col)) (int y) fg m else m"
  have col: "col < w" using Suc.hyps(2) by simp
  have step: "draw_row f line (int x) (int y) col fg m = draw_row f line (int x) (int y) (Suc col) fg ?m"
    using col Suc.prems(3) by (subst draw_row.simps) (simp add: lit_test)
  have v: "visible m (x + col) y" using col Suc.prems(5,6) by (simp add: visible_def)
  have p1: "repainted m (\<lambda>x' y'. if x' = x + col \<and> y' = y \<and> lit m line col then Some fg else None) ?m"
    using write_to_screen_repaints [OF Suc.prems(1) v, of fg] repainted_refl [of "\<lambda>_ _. None" m] by (cases "lit m line col") simp_all
  note ok = repainted_ok [OF Suc.prems(1) p1] and md = repainted_mode [OF Suc.prems(1) p1]
    and ft = repainted_font [OF Suc.prems(2) p1]
  have same: "lit ?m line k = lit m line k" if "k < w" for k by (rule repainted_lit [OF p1 Suc.prems(4) [OF that]])
  have "repainted ?m (\<lambda>x' y'. if y' = y \<and> x + Suc col \<le> x' \<and> x' < x + w \<and> lit ?m line (x' - x) then Some fg else None)
      (draw_row f line (int x) (int y) (Suc col) fg ?m)"
  proof (rule Suc.hyps(1))
    show "d = w - Suc col" using Suc.hyps(2) by simp
  qed (use Suc.prems ok md ft in simp_all)
  then show ?case
    unfolding step by (rule repainted_trans [OF Suc.prems(1) p1]) (use col same in \<open>auto simp: le_less\<close>)
qed

lemma draw_glyph_repaints:
  assumes "mode_ok m" "region f 32 \<inter> frame_buffer m = {}" "w = unat (font_width m f)" "h = unat (font_height m f)"
    and "\<And>r k. r < h \<Longrightarrow> k < w \<Longrightarrow> glyph + of_nat (r * bpl) + of_nat (k div 8) \<notin> frame_buffer m"
    and "x + w \<le> unat (mode_width m)" "y + h \<le> unat (mode_height m)"
  shows "repainted m (\<lambda>x' y'. if y + row \<le> y' \<and> y' < y + h \<and> x \<le> x' \<and> x' < x + w \<and>
      lit m (glyph + of_nat ((y' - y) * bpl)) (x' - x) then Some fg else None)
    (draw_glyph f glyph bpl (int x) (int y) row fg m)"
  using assms
proof (induction "h - row" arbitrary: row m)
  case 0
  then have "draw_glyph f glyph bpl (int x) (int y) row fg m = m" by (subst draw_glyph.simps) simp
  then show ?case using "0.hyps" by (auto intro: repainted_refl)
next
  case (Suc d)
  let ?line = "glyph + of_nat (row * bpl)"
  let ?m = "draw_row f ?line (int x) (int (y + row)) 0 fg m"
  have row: "row < h" using Suc.hyps(2) by simp
  have step: "draw_glyph f glyph bpl (int x) (int y) row fg m = draw_glyph f glyph bpl (int x) (int y) (Suc row) fg ?m"
    using row Suc.prems(4) by (subst draw_glyph.simps) simp
  have p1: "repainted m (\<lambda>x' y'. if y' = y + row \<and> x + 0 \<le> x' \<and> x' < x + w \<and> lit m ?line (x' - x) then Some fg else None) ?m"
    by (rule draw_row_repaints) (use row Suc.prems in simp_all)
  note ok = repainted_ok [OF Suc.prems(1) p1] and md = repainted_mode [OF Suc.prems(1) p1]
    and ft = repainted_font [OF Suc.prems(2) p1]
  have same: "lit ?m (glyph + of_nat (r * bpl)) k = lit m (glyph + of_nat (r * bpl)) k" if "r < h" "k < w" for r k
    by (rule repainted_lit [OF p1 Suc.prems(5) [OF that]])
  have "repainted ?m (\<lambda>x' y'. if y + Suc row \<le> y' \<and> y' < y + h \<and> x \<le> x' \<and> x' < x + w \<and>
      lit ?m (glyph + of_nat ((y' - y) * bpl)) (x' - x) then Some fg else None)
      (draw_glyph f glyph bpl (int x) (int y) (Suc row) fg ?m)"
  proof (rule Suc.hyps(1))
    show "d = h - Suc row" using Suc.hyps(2) by simp
  qed (use Suc.prems ok md ft in simp_all)
  then show ?case
    unfolding step
  proof (rule repainted_trans [OF Suc.prems(1) p1], goal_cases)
    case (1 x' y')
    show ?case
    proof (cases "x \<le> x' \<and> x' < x + w \<and> y \<le> y' \<and> y' < y + h")
      case True
      then have "y' - y < h" "x' - x < w" by (simp_all add: less_diff_conv2)
      from same [OF this] True row show ?thesis by (cases "y' = y + row") (auto simp: le_less simp del: of_nat_mult of_nat_diff)
    qed (use row in auto)
  qed
qed

lemma clear_row_repaints:
  assumes "mode_ok m" "region f 32 \<inter> frame_buffer m = {}" "w = unat (font_width m f)"
    and "x + w \<le> unat (mode_width m)" "y < unat (mode_height m)"
  shows "repainted m (\<lambda>x' y'. if y' = y \<and> x + col \<le> x' \<and> x' < x + w then Some c else None)
    (clear_row f (int x) (int y) col c m)"
  using assms
proof (induction "w - col" arbitrary: col m)
  case 0
  then have "clear_row f (int x) (int y) col c m = m" by (subst clear_row.simps) simp
  then show ?case using "0.hyps" by (auto intro: repainted_refl)
next
  case (Suc d)
  let ?m = "write_to_screen (int (x + col)) (int y) c m"
  have col: "col < w" using Suc.hyps(2) by simp
  have step: "clear_row f (int x) (int y) col c m = clear_row f (int x) (int y) (Suc col) c ?m"
    using col Suc.prems(3) by (subst clear_row.simps) simp
  have p1: "repainted m (\<lambda>x' y'. if x' = x + col \<and> y' = y then Some c else None) ?m"
    by (rule write_to_screen_repaints [OF Suc.prems(1)]) (use col Suc.prems(4,5) in \<open>simp add: visible_def\<close>)
  note ok = repainted_ok [OF Suc.prems(1) p1] and md = repainted_mode [OF Suc.prems(1) p1]
    and ft = repainted_font [OF Suc.prems(2) p1]
  have "repainted ?m (\<lambda>x' y'. if y' = y \<and> x + Suc col \<le> x' \<and> x' < x + w then Some c else None)
      (clear_row f (int x) (int y) (Suc col) c ?m)"
  proof (rule Suc.hyps(1))
    show "d = w - Suc col" using Suc.hyps(2) by simp
  qed (use Suc.prems ok md ft in simp_all)
  then show ?case
    unfolding step by (rule repainted_trans [OF Suc.prems(1) p1]) (use col in \<open>auto simp: le_less\<close>)
qed

lemma clear_rows_repaints:
  assumes "mode_ok m" "region f 32 \<inter> frame_buffer m = {}" "w = unat (font_width m f)" "h = unat (font_height m f)"
    and "x + w \<le> unat (mode_width m)" "y + h \<le> unat (mode_height m)"
  shows "repainted m (\<lambda>x' y'. if y + row \<le> y' \<and> y' < y + h \<and> x \<le> x' \<and> x' < x + w then Some c else None)
    (clear_rows f (int x) (int y) row c m)"
  using assms
proof (induction "h - row" arbitrary: row m)
  case 0
  then have "clear_rows f (int x) (int y) row c m = m" by (subst clear_rows.simps) simp
  then show ?case using "0.hyps" by (auto intro: repainted_refl)
next
  case (Suc d)
  let ?m = "clear_row f (int x) (int (y + row)) 0 c m"
  have row: "row < h" using Suc.hyps(2) by simp
  have step: "clear_rows f (int x) (int y) row c m = clear_rows f (int x) (int y) (Suc row) c ?m"
    using row Suc.prems(4) by (subst clear_rows.simps) simp
  have p1: "repainted m (\<lambda>x' y'. if y' = y + row \<and> x + 0 \<le> x' \<and> x' < x + w then Some c else None) ?m"
    by (rule clear_row_repaints) (use row Suc.prems in simp_all)
  note ok = repainted_ok [OF Suc.prems(1) p1] and md = repainted_mode [OF Suc.prems(1) p1]
    and ft = repainted_font [OF Suc.prems(2) p1]
  have "repainted ?m (\<lambda>x' y'. if y + Suc row \<le> y' \<and> y' < y + h \<and> x \<le> x' \<and> x' < x + w then Some c else None)
      (clear_rows f (int x) (int y) (Suc row) c ?m)"
  proof (rule Suc.hyps(1))
    show "d = h - Suc row" using Suc.hyps(2) by simp
  qed (use Suc.prems ok md ft in simp_all)
  then show ?case
    unfolding step by (rule repainted_trans [OF Suc.prems(1) p1]) (use row in \<open>auto simp: le_less\<close>)
qed

section \<open>Properties\<close>

text \<open>
  \<open>glyph_at\<close> is the address of the picture of a character.  \<open>screen_ok\<close> says that the mode is
  usable and that the font lies outside the frame buffer; \<open>cell_fits\<close> that a character at the
  position is visible as a whole.
\<close>

definition line_bytes :: "'a screen_state_scheme \<Rightarrow> u8" where
  "line_bytes st = ucast ((psf_get_width st + 7) div 8)"

definition glyph_at :: "u8 \<Rightarrow> 'a screen_state_scheme \<Rightarrow> addr" where
  "glyph_at c st = font st + font_header_size (mem st) (font st) +
     ucast (scast c :: u16) * psf_get_height st * ucast (line_bytes st)"

definition screen_ok :: "'a screen_state_scheme \<Rightarrow> bool" where
  "screen_ok st \<longleftrightarrow> mode_ok (mem st) \<and> region (font st) 32 \<inter> frame_buffer (mem st) = {}"

definition glyph_ok :: "u8 \<Rightarrow> 'a screen_state_scheme \<Rightarrow> bool" where
  "glyph_ok c st \<longleftrightarrow> (\<forall>r < unat (psf_get_height st). \<forall>k < unat (psf_get_width st).
     glyph_at c st + of_nat (r * unat (line_bytes st)) + of_nat (k div 8) \<notin> frame_buffer (mem st))"

definition cell_fits :: "nat \<Rightarrow> nat \<Rightarrow> 'a screen_state_scheme \<Rightarrow> bool" where
  "cell_fits x y st \<longleftrightarrow> x + unat (psf_get_width st) \<le> unat (mode_width (mem st)) \<and>
     y + unat (psf_get_height st) \<le> unat (mode_height (mem st))"

definition in_cell :: "nat \<Rightarrow> nat \<Rightarrow> 'a screen_state_scheme \<Rightarrow> nat \<Rightarrow> nat \<Rightarrow> bool" where
  "in_cell x y st x' y' \<longleftrightarrow> x \<le> x' \<and> x' < x + unat (psf_get_width st) \<and> y \<le> y' \<and> y' < y + unat (psf_get_height st)"

lemma psf_putc_repaints:
  assumes "screen_ok st" "glyph_ok c st" "cell_fits (unat x) (unat y) st"
  shows "\<exists>m'. psf_putc c x y fg st = st\<lparr>mem := m'\<rparr> \<and>
    repainted (mem st) (\<lambda>x' y'. if in_cell (unat x) (unat y) st x' y' \<and>
        lit (mem st) (glyph_at c st + of_nat ((y' - unat y) * unat (line_bytes st))) (x' - unat x)
      then Some fg else None) m'"
proof (intro exI conjI)
  show "psf_putc c x y fg st = st\<lparr>mem := draw_glyph (font st) (glyph_at c st) (unat (line_bytes st))
      (int (unat x)) (int (unat y)) 0 fg (mem st)\<rparr>"
    by (simp add: psf_putc_def glyph_at_def line_bytes_def psf_get_width_def psf_get_height_def Let_def)
  have "repainted (mem st) (\<lambda>x' y'. if unat y + 0 \<le> y' \<and> y' < unat y + unat (psf_get_height st) \<and>
      unat x \<le> x' \<and> x' < unat x + unat (psf_get_width st) \<and>
      lit (mem st) (glyph_at c st + of_nat ((y' - unat y) * unat (line_bytes st))) (x' - unat x) then Some fg else None)
    (draw_glyph (font st) (glyph_at c st) (unat (line_bytes st)) (int (unat x)) (int (unat y)) 0 fg (mem st))"
    using assms by (intro draw_glyph_repaints)
      (simp_all add: screen_ok_def glyph_ok_def cell_fits_def psf_get_width_def psf_get_height_def)
  then show "repainted (mem st) (\<lambda>x' y'. if in_cell (unat x) (unat y) st x' y' \<and>
        lit (mem st) (glyph_at c st + of_nat ((y' - unat y) * unat (line_bytes st))) (x' - unat x)
      then Some fg else None)
    (draw_glyph (font st) (glyph_at c st) (unat (line_bytes st)) (int (unat x)) (int (unat y)) 0 fg (mem st))"
    by (simp add: in_cell_def conj_ac)
qed

lemma psf_clear_char_repaints:
  assumes "screen_ok st" "cell_fits (unat x) (unat y) st"
  shows "\<exists>m'. psf_clear_char x y c st = st\<lparr>mem := m'\<rparr> \<and>
    repainted (mem st) (\<lambda>x' y'. if in_cell (unat x) (unat y) st x' y' then Some c else None) m'"
proof (intro exI conjI)
  show "psf_clear_char x y c st =
      st\<lparr>mem := clear_rows (font st) (int (unat x)) (int (unat y)) 0 c (mem st)\<rparr>"
    by (simp add: psf_clear_char_def)
  have "repainted (mem st) (\<lambda>x' y'. if unat y + 0 \<le> y' \<and> y' < unat y + unat (psf_get_height st) \<and>
      unat x \<le> x' \<and> x' < unat x + unat (psf_get_width st) then Some c else None)
    (clear_rows (font st) (int (unat x)) (int (unat y)) 0 c (mem st))"
    using assms by (intro clear_rows_repaints)
      (simp_all add: screen_ok_def cell_fits_def psf_get_width_def psf_get_height_def)
  then show "repainted (mem st) (\<lambda>x' y'. if in_cell (unat x) (unat y) st x' y' then Some c else None)
    (clear_rows (font st) (int (unat x)) (int (unat y)) 0 c (mem st))"
    by (simp add: in_cell_def conj_ac)
qed

lemma screen_repainted:
  assumes "screen_ok st" "repainted (mem st) F m'" "mem st' = m'" "font st' = font st"
  shows "screen_ok st'" "psf_get_width st' = psf_get_width st" "psf_get_height st' = psf_get_height st"
    "mode_width (mem st') = mode_width (mem st)" "mode_height (mem st') = mode_height (mem st)"
    "cell_fits x y st' = cell_fits x y st" "in_cell x y st' = in_cell x y st"
proof -
  have ok: "mode_ok (mem st)" "region (font st) 32 \<inter> frame_buffer (mem st) = {}" using assms(1) by (simp_all add: screen_ok_def)
  note r = repainted_ok [OF ok(1) assms(2)] repainted_font [OF ok(2) assms(2)] repainted_mode [OF ok(1) assms(2)]
  show "screen_ok st'" "psf_get_width st' = psf_get_width st" "psf_get_height st' = psf_get_height st"
    "mode_width (mem st') = mode_width (mem st)" "mode_height (mem st') = mode_height (mem st)"
    "cell_fits x y st' = cell_fits x y st" "in_cell x y st' = in_cell x y st"
    using assms(3,4) ok r
    by (simp_all add: screen_ok_def psf_get_width_def psf_get_height_def cell_fits_def in_cell_def [abs_def])
qed

text \<open>The cursor moves by the width of the font and one pixel, in 16 bits.\<close>

lemma ucast_add_u16: "(ucast (a + b :: u32) :: u16) = ucast a + ucast b"
proof (transfer, goal_cases)
  case (1 a b)
  have "take_bit 16 (take_bit 32 a + take_bit 32 b) = take_bit 16 (take_bit 16 (take_bit 32 a) + take_bit 16 (take_bit 32 b))"
    by (simp only: take_bit_add)
  also have "\<dots> = take_bit 16 (a + b)" by (simp add: take_bit_add)
  finally show ?case by simp
qed

lemma cursor_advance:
  fixes col :: u16
  assumes "unat col + unat (w :: u32) + 1 < 65536"
  shows "unat (col + ucast (w + 1)) = unat col + unat w + 1"
proof -
  have w: "unat (w + 1) = unat w + 1" using assms unat_add_small [of w 1] by simp
  then have "unat (ucast (w + 1) :: u16) = unat w + 1" using assms by (simp add: unsigned_ucast_eq take_bit_nat_eq_self)
  then show ?thesis using assms by (simp add: unat_word_ariths)
qed

lemma cursor_back:
  fixes col :: u16
  shows "col + ucast ((w :: u32) + 1) - ucast w - 1 = col"
  by (simp add: ucast_add_u16)

lemma terminal_writechar_glyph:
  assumes "screen_ok st" "glyph_ok c st" "c \<notin> {10, 8}" "cell_fits (unat (terminal_col st)) (unat (terminal_row st)) st"
    and "unat (mode_width (mem st)) < 65535"
  obtains m' where "repainted (mem st) (\<lambda>x y. if in_cell (unat (terminal_col st)) (unat (terminal_row st)) st x y \<and>
        lit (mem st) (glyph_at c st + of_nat ((y - unat (terminal_row st)) * unat (line_bytes st))) (x - unat (terminal_col st))
      then Some terminal_fg else None) m'"
    "terminal_writechar c st =
      (let st1 = move_to_next_col (st\<lparr>mem := m'\<rparr>)
       in if unat (terminal_col st) + unat (psf_get_width st) + 1 \<ge> unat (mode_width (mem st)) then move_to_next_row st1 else st1)"
    "unat (terminal_col (move_to_next_col (st\<lparr>mem := m'\<rparr>))) = unat (terminal_col st) + unat (psf_get_width st) + 1"
proof -
  obtain m' where m': "psf_putc c (terminal_col st) (terminal_row st) terminal_fg st = st\<lparr>mem := m'\<rparr>"
    and r: "repainted (mem st) (\<lambda>x y. if in_cell (unat (terminal_col st)) (unat (terminal_row st)) st x y \<and>
        lit (mem st) (glyph_at c st + of_nat ((y - unat (terminal_row st)) * unat (line_bytes st))) (x - unat (terminal_col st))
      then Some terminal_fg else None) m'"
    using psf_putc_repaints [OF assms(1,2,4)] by blast
  note s = screen_repainted [OF assms(1) r, of "st\<lparr>mem := m'\<rparr>", simplified]
  have col: "unat (terminal_col (move_to_next_col (st\<lparr>mem := m'\<rparr>))) = unat (terminal_col st) + unat (psf_get_width st) + 1"
    using assms(4,5) s(2) cursor_advance [of "terminal_col st" "psf_get_width st"] by (simp add: move_to_next_col_def cell_fits_def)
  have "mode_width (mem (move_to_next_col (st\<lparr>mem := m'\<rparr>))) = mode_width (mem st)" using s(4) by (simp add: move_to_next_col_def)
  then have "terminal_writechar c st =
      (let st1 = move_to_next_col (st\<lparr>mem := m'\<rparr>)
       in if unat (terminal_col st) + unat (psf_get_width st) + 1 \<ge> unat (mode_width (mem st)) then move_to_next_row st1 else st1)"
    using assms(3) col unfolding terminal_writechar_def m' by (simp add: Let_def word_le_nat_alt)
  from that [OF r this col] show thesis .
qed

text \<open>
  C25: what a printed character looks like.  The terminal paints exactly the pixels of the cell
  at the cursor that are set in the picture of the font, changes no other byte of memory, and
  moves the cursor one cell on, or to the start of the next row when that is outside the
  screen.
\<close>

theorem terminal_writechar_draws:
  assumes "screen_ok st" "glyph_ok c st" "c \<notin> {10, 8}" "unat (mode_width (mem st)) < 65535"
    and "x = unat (terminal_col st)" "y = unat (terminal_row st)" "cell_fits x y st"
    and "room \<longleftrightarrow> x + unat (psf_get_width st) + 1 < unat (mode_width (mem st))"
  shows "repainted (mem st) (\<lambda>x' y'. if in_cell x y st x' y' \<and>
        lit (mem st) (glyph_at c st + of_nat ((y' - y) * unat (line_bytes st))) (x' - x)
      then Some terminal_fg else None) (mem (terminal_writechar c st)) \<and>
    unat (terminal_col (terminal_writechar c st)) = (if room then x + unat (psf_get_width st) + 1 else TERMINAL_MARGIN) \<and>
    terminal_row (terminal_writechar c st) =
      (if room then terminal_row st else terminal_row st + ucast (psf_get_height st + 1))"
proof -
  obtain m' where m': "repainted (mem st) (\<lambda>x y. if in_cell (unat (terminal_col st)) (unat (terminal_row st)) st x y \<and>
        lit (mem st) (glyph_at c st + of_nat ((y - unat (terminal_row st)) * unat (line_bytes st))) (x - unat (terminal_col st))
      then Some terminal_fg else None) m'"
    "terminal_writechar c st =
      (let st1 = move_to_next_col (st\<lparr>mem := m'\<rparr>)
       in if unat (terminal_col st) + unat (psf_get_width st) + 1 \<ge> unat (mode_width (mem st)) then move_to_next_row st1 else st1)"
    "unat (terminal_col (move_to_next_col (st\<lparr>mem := m'\<rparr>))) = unat (terminal_col st) + unat (psf_get_width st) + 1"
    by (rule terminal_writechar_glyph [OF assms(1-3) assms(7) [unfolded assms(5,6)] assms(4)]) (rule that)
  note s = screen_repainted [OF assms(1) m'(1), of "st\<lparr>mem := m'\<rparr>", simplified]
  have mem: "mem (terminal_writechar c st) = m'"
    unfolding m'(2) by (simp add: Let_def move_to_next_col_def move_to_next_row_def)
  have yes: "unat (terminal_col (terminal_writechar c st)) = x + unat (psf_get_width st) + 1 \<and>
      terminal_row (terminal_writechar c st) = terminal_row st" if room
    unfolding m'(2) using that assms(8) m'(3) assms(5) by (simp add: Let_def) (simp add: move_to_next_col_def)
  have no: "terminal_col (terminal_writechar c st) = TERMINAL_MARGIN \<and>
      terminal_row (terminal_writechar c st) = terminal_row st + ucast (psf_get_height st + 1)" if "\<not> room"
    unfolding m'(2) using that assms(5,8) s(3)
    by (simp add: Let_def move_to_next_col_def move_to_next_row_def psf_get_height_def)
  show ?thesis using m'(1) mem yes no by (cases room) (simp_all only: assms(5,6) if_True if_False, simp_all)
qed

text \<open>
  C28: backspace takes back what was typed.  After a character and a backspace in the middle of
  a row the cursor is where it was, the cell has the background colour, and every other pixel
  and every byte outside the frame buffer is as before the character.
\<close>

theorem terminal_backspace_erases:
  assumes "screen_ok st" "glyph_ok c st" "c \<notin> {10, 8}" "unat (mode_width (mem st)) < 65535"
    and "x = unat (terminal_col st)" "y = unat (terminal_row st)" "cell_fits x y st"
    and "TERMINAL_MARGIN \<le> x" "x + unat (psf_get_width st) + 1 < unat (mode_width (mem st))"
  shows "terminal_col (terminal_writechar 8 (terminal_writechar c st)) = terminal_col st \<and>
    terminal_row (terminal_writechar 8 (terminal_writechar c st)) = terminal_row st \<and>
    repainted (mem st) (\<lambda>x' y'. if in_cell x y st x' y' then Some terminal_bg else None)
      (mem (terminal_writechar 8 (terminal_writechar c st)))"
proof -
  obtain m' where m': "repainted (mem st) (\<lambda>x y. if in_cell (unat (terminal_col st)) (unat (terminal_row st)) st x y \<and>
        lit (mem st) (glyph_at c st + of_nat ((y - unat (terminal_row st)) * unat (line_bytes st))) (x - unat (terminal_col st))
      then Some terminal_fg else None) m'"
    "terminal_writechar c st =
      (let st1 = move_to_next_col (st\<lparr>mem := m'\<rparr>)
       in if unat (terminal_col st) + unat (psf_get_width st) + 1 \<ge> unat (mode_width (mem st)) then move_to_next_row st1 else st1)"
    "unat (terminal_col (move_to_next_col (st\<lparr>mem := m'\<rparr>))) = unat (terminal_col st) + unat (psf_get_width st) + 1"
    by (rule terminal_writechar_glyph [OF assms(1-3) assms(7) [unfolded assms(5,6)] assms(4)]) (rule that)
  define s1 where "s1 = move_to_next_col (st\<lparr>mem := m'\<rparr>)"
  have w: "terminal_writechar c st = s1" using assms(5,9) unfolding m'(2) s1_def by (simp add: Let_def)
  have s1: "mem s1 = m'" "font s1 = font st" "terminal_row s1 = terminal_row st" by (simp_all add: s1_def move_to_next_col_def)
  note s = screen_repainted [OF assms(1) m'(1) s1(1,2)]
  have ne: "terminal_col s1 \<noteq> TERMINAL_MARGIN" using m'(3) assms(5,8) by (auto simp: s1_def)
  have prev: "terminal_col (move_to_prev_col s1) = terminal_col st"
    using s(2) unfolding move_to_prev_col_def
    by (simp add: s1_def move_to_next_col_def cursor_back psf_get_width_def)
  have b: "terminal_writechar 8 s1 = psf_clear_char (terminal_col st) (terminal_row st) terminal_bg (move_to_prev_col s1)"
    using ne prev s1(3) by (simp add: terminal_writechar_def terminal_backspace_def Let_def) (simp add: move_to_prev_col_def)
  let ?s2 = "move_to_prev_col s1"
  have s2: "mem ?s2 = m'" "font ?s2 = font st" "terminal_row ?s2 = terminal_row st" using s1 by (simp_all add: move_to_prev_col_def)
  note t = screen_repainted [OF assms(1) m'(1) s2(1,2)]
  obtain m2 where m2: "terminal_writechar 8 s1 = ?s2\<lparr>mem := m2\<rparr>"
    "repainted m' (\<lambda>x' y'. if in_cell x y st x' y' then Some terminal_bg else None) m2"
    using psf_clear_char_repaints [OF t(1), of "terminal_col st" "terminal_row st" terminal_bg] assms(5-7) t(6,7) s2(1)
    unfolding b by auto
  have "repainted (mem st) (\<lambda>x' y'. if in_cell x y st x' y' then Some terminal_bg else None) m2"
    by (rule repainted_trans [OF _ m'(1) m2(2)]) (use assms(1,5,6) in \<open>auto simp: screen_ok_def\<close>)
  then show ?thesis using m2(1) prev s2(3) by (simp add: w)
qed

text \<open>
  At the start of a row a backspace goes up by less than a line feed went down: the row that
  is left by a line feed and entered again is two pixels lower.
\<close>

lemma backspace_row_drift:
  assumes "terminal_row st + ucast (psf_get_height st + 1) \<noteq> TERMINAL_MARGIN"
  shows "terminal_row (terminal_writechar 8 (terminal_writechar 10 st)) = terminal_row st + 2 \<and>
    terminal_col (terminal_writechar 8 (terminal_writechar 10 st)) = mode_width (mem st) - ucast (psf_get_width st) - 1"
proof -
  have "(ucast (psf_get_height st - 1) :: u16) + 1 = ucast (psf_get_height st)"
    using ucast_add_u16 [of "psf_get_height st - 1" 1] by simp
  then have h: "ucast (psf_get_height st - 1) = (ucast (psf_get_height st) - 1 :: u16)" by (simp add: eq_diff_eq)
  show ?thesis
    using assms by (simp add: terminal_writechar_def terminal_backspace_def Let_def move_to_next_row_def
      move_to_prev_row_def move_to_prev_col_def psf_clear_char_def psf_get_width_def h [unfolded psf_get_height_def]
      psf_get_height_def ucast_add_u16)
qed

section \<open>The reach of the terminal\<close>

text \<open>
  The code does not check that the cursor is on the screen.  The canvas is every byte that
  drawing at any cursor position can write to; when it leaves the mode and the header of the
  font alone, the terminal changes nothing else, whatever it is asked to print.
\<close>

definition screen_setup :: "addr \<Rightarrow> addr set" where
  "screen_setup f = region current_mode 44 \<union> region f 32"

definition canvas :: "memory \<Rightarrow> addr \<Rightarrow> addr set" where
  "canvas m f = {mode_framebuffer m + (of_int (y * uint (mode_pitch m) + x * (uint (mode_bpp m) div 8)) + of_nat j) | x y j.
     0 \<le> x \<and> x < 65536 + uint (font_width m f) \<and> 0 \<le> y \<and> y < 65536 + uint (font_height m f) \<and> j < 3}"

lemma screen_setup_same:
  assumes "\<And>a. a \<in> screen_setup f \<Longrightarrow> m' a = m a"
  shows "mode_pitch m' = mode_pitch m" "mode_width m' = mode_width m" "mode_bpp m' = mode_bpp m"
    "mode_framebuffer m' = mode_framebuffer m" "font_width m' f = font_width m f" "font_height m' f = font_height m f"
    "canvas m' f = canvas m f"
proof -
  have a: "m' (current_mode + of_nat k) = m (current_mode + of_nat k)" if "k < 44" for k
    using that by (intro assms) (simp add: screen_setup_def region_add)
  have b: "m' (f + of_nat k) = m (f + of_nat k)" if "k < 32" for k
    using that by (intro assms) (simp add: screen_setup_def region_add)
  show *: "mode_pitch m' = mode_pitch m" "mode_width m' = mode_width m" "mode_bpp m' = mode_bpp m"
    "mode_framebuffer m' = mode_framebuffer m"
    using a [of 16] a [of 17] a [of 18] a [of 19] a [of 25] a [of 40] a [of 41] a [of 42] a [of 43]
    by (simp_all add: mode_pitch_def mode_width_def mode_bpp_def mode_framebuffer_def read16_def read32_def)
  show **: "font_width m' f = font_width m f" "font_height m' f = font_height m f"
    using b [of 24] b [of 25] b [of 26] b [of 27] b [of 28] b [of 29] b [of 30] b [of 31]
    by (simp_all add: font_width_def font_height_def read32_def ac_simps)
  show "canvas m' f = canvas m f" unfolding canvas_def * ** ..
qed

text \<open>\<open>paints f m m'\<close>: from \<open>m\<close> to \<open>m'\<close> only bytes that the terminal can reach have changed.\<close>

definition paints :: "addr \<Rightarrow> memory \<Rightarrow> memory \<Rightarrow> bool" where
  "paints f m m' \<longleftrightarrow> (\<forall>a. a \<notin> canvas m f \<longrightarrow> m' a = m a)"

lemma paints_setup:
  assumes "screen_setup f \<inter> canvas m f = {}" "paints f m m'"
  shows "screen_setup f \<inter> canvas m' f = {}" "mode_width m' = mode_width m" "font_width m' f = font_width m f"
    "font_height m' f = font_height m f" "canvas m' f = canvas m f"
proof -
  have "m' a = m a" if "a \<in> screen_setup f" for a using that assms by (auto simp: paints_def)
  note s = screen_setup_same [OF this]
  show "screen_setup f \<inter> canvas m' f = {}" "mode_width m' = mode_width m" "font_width m' f = font_width m f"
    "font_height m' f = font_height m f" "canvas m' f = canvas m f" using s assms(1) by simp_all
qed

lemma paints_trans:
  assumes "screen_setup f \<inter> canvas m f = {}" "paints f m m'" "paints f m' m''"
  shows "paints f m m''"
  using assms(2,3) unfolding paints_def paints_setup(5) [OF assms(1,2)] by simp

lemma paints_refl [simp]: "paints f m m" by (simp add: paints_def)

lemma write_to_screen_paints:
  assumes "0 \<le> x" "x < 65536 + uint (font_width m f)" "0 \<le> y" "y < 65536 + uint (font_height m f)"
  shows "paints f m (write_to_screen x y p m)"
proof -
  let ?o = "of_int (y * uint (mode_pitch m) + x * (uint (mode_bpp m) div 8)) :: addr"
  have "mode_framebuffer m + (?o + of_nat j) \<in> canvas m f" if "j < 3" for j
    unfolding canvas_def using assms that by blast
  from this [of 0] this [of 1] this [of 2] show ?thesis
    by (auto simp: paints_def write_to_screen_def Let_def)
qed

lemma draw_row_paints:
  assumes "screen_setup f \<inter> canvas m f = {}" "0 \<le> x" "x < 65536" "0 \<le> y" "y < 65536 + uint (font_height m f)"
  shows "paints f m (draw_row f line x y col fg m)"
  using assms
proof (induction f line x y col fg m rule: draw_row.induct)
  case (1 f line x y col fg m)
  show ?case
  proof (cases "col < unat (font_width m f)")
    case True
    let ?m = "if m (line + of_nat (col div 8)) AND drop_bit (col mod 8) 128 \<noteq> 0 then write_to_screen (x + int col) y fg m else m"
    have "int col < uint (font_width m f)" using True by (simp only: uint_nat of_nat_less_iff)
    then have "paints f m (write_to_screen (x + int col) y fg m)" using 1(3-6) by (intro write_to_screen_paints) simp_all
    then have p: "paints f m ?m" by simp
    note s = paints_setup [OF 1(2) p]
    have "paints f ?m (draw_row f line x y (Suc col) fg ?m)"
      using 1(1) [OF True s(1) 1(3-5)] 1(6) s(4) by simp
    with p show ?thesis using True by (subst draw_row.simps) (simp add: paints_trans [OF 1(2)])
  next
    case False
    then show ?thesis by (subst draw_row.simps) simp
  qed
qed

lemma draw_glyph_paints:
  assumes "screen_setup f \<inter> canvas m f = {}" "0 \<le> x" "x < 65536" "0 \<le> y" "y < 65536"
  shows "paints f m (draw_glyph f glyph bpl x y row fg m)"
  using assms
proof (induction f glyph bpl x y row fg m rule: draw_glyph.induct)
  case (1 f glyph bpl x y row fg m)
  show ?case
  proof (cases "row < unat (font_height m f)")
    case True
    let ?m = "draw_row f (glyph + of_nat (row * bpl)) x (y + int row) 0 fg m"
    have "int row < uint (font_height m f)" using True by (simp only: uint_nat of_nat_less_iff)
    then have p: "paints f m ?m" using 1(2-6) by (intro draw_row_paints) simp_all
    from paints_trans [OF 1(2) p 1(1) [OF True paints_setup(1) [OF 1(2) p] 1(3-6)]] show ?thesis
      using True by (subst draw_glyph.simps) simp
  qed (subst draw_glyph.simps, simp)
qed

lemma clear_row_paints:
  assumes "screen_setup f \<inter> canvas m f = {}" "0 \<le> x" "x < 65536" "0 \<le> y" "y < 65536 + uint (font_height m f)"
  shows "paints f m (clear_row f x y col color m)"
  using assms
proof (induction f x y col color m rule: clear_row.induct)
  case (1 f x y col color m)
  show ?case
  proof (cases "col < unat (font_width m f)")
    case True
    let ?m = "write_to_screen (x + int col) y color m"
    have "int col < uint (font_width m f)" using True by (simp only: uint_nat of_nat_less_iff)
    then have p: "paints f m ?m" using 1(3-6) by (intro write_to_screen_paints) simp_all
    note s = paints_setup [OF 1(2) p]
    have "paints f ?m (clear_row f x y (Suc col) color ?m)" using 1(1) [OF True s(1) 1(3-5)] 1(6) s(4) by simp
    from paints_trans [OF 1(2) p this] show ?thesis using True by (subst clear_row.simps) simp
  qed (subst clear_row.simps, simp)
qed

lemma clear_rows_paints:
  assumes "screen_setup f \<inter> canvas m f = {}" "0 \<le> x" "x < 65536" "0 \<le> y" "y < 65536"
  shows "paints f m (clear_rows f x y row color m)"
  using assms
proof (induction f x y row color m rule: clear_rows.induct)
  case (1 f x y row color m)
  show ?case
  proof (cases "row < unat (font_height m f)")
    case True
    let ?m = "clear_row f x (y + int row) 0 color m"
    have "int row < uint (font_height m f)" using True by (simp only: uint_nat of_nat_less_iff)
    then have p: "paints f m ?m" using 1(2-6) by (intro clear_row_paints) simp_all
    from paints_trans [OF 1(2) p 1(1) [OF True paints_setup(1) [OF 1(2) p] 1(3-6)]] show ?thesis
      using True by (subst clear_rows.simps) simp
  qed (subst clear_rows.simps, simp)
qed

text \<open>Whatever the character and the cursor, only the memory, the row and the column change.\<close>

lemmas terminal_defs = terminal_writechar_def terminal_backspace_def move_to_next_row_def move_to_prev_row_def
  move_to_next_col_def move_to_prev_col_def psf_putc_def psf_clear_char_def Let_def

lemma terminal_writechar_fields:
  "terminal_writechar c st = st\<lparr>mem := mem (terminal_writechar c st), terminal_row := terminal_row (terminal_writechar c st),
     terminal_col := terminal_col (terminal_writechar c st)\<rparr>"
  by (simp add: terminal_defs)

lemma terminal_writechar_paints:
  assumes "screen_setup (font st) \<inter> canvas (mem st) (font st) = {}"
  shows "paints (font st) (mem st) (mem (terminal_writechar c st))"
proof -
  have u: "0 \<le> uint x" "uint x < 65536" for x :: u16 using uint_range_size [of x] by (simp_all add: word_size)
  show ?thesis using assms u by (simp add: terminal_defs draw_glyph_paints clear_rows_paints)
qed


text \<open>
  A state for the witnesses: a screen of 64 times 32 pixels of four bytes and a font with
  pictures of 8 times 16 pixels.  The page directory at \<open>0xA000\<close>, whose address is kept at
  \<open>0x9000\<close>, maps the page at \<open>0x10000\<close>, which starts with the letter \<open>A\<close>.
\<close>

definition screen_mem :: memory where
  "screen_mem = (\<lambda>_. 0)(0x5011 := 1, 0x5012 := 64, 0x5014 := 32, 0x5019 := 32, 0x502B := 0xE0,
     0x6008 := 32, 0x6018 := 16, 0x601C := 8, 0x6430 := 0x18,
     0x9001 := 0xA0, 0xA000 := 7, 0xA001 := 0xB0, 0xB040 := 7, 0xB042 := 1, 0x10000 := 0x41)"

definition screen_state_ex :: screen_state where
  "screen_state_ex = keyboard_state.extend keyboard_state_ex (screen_state.fields 5 5 0x6000 0 0x6000 0x8000 0)"

lemma screen_ex_values:
  "mode_pitch screen_mem = 256" "mode_width screen_mem = 64" "mode_height screen_mem = 32" "mode_bpp screen_mem = 32"
  "mode_framebuffer screen_mem = 0xE0000000" "font_height screen_mem 0x6000 = 16" "font_width screen_mem 0x6000 = 8"
  "font_header_size screen_mem 0x6000 = 32"
  by (simp_all add: screen_mem_def mode_pitch_def mode_width_def mode_height_def mode_bpp_def mode_framebuffer_def
    font_height_def font_width_def font_header_size_def read16_def read32_def)

lemma screen_ex_ok:
  assumes "st = screen_state_ex\<lparr>mem := screen_mem\<rparr>"
  shows "screen_ok st" "glyph_ok 0x41 st" "unat (mode_width (mem st)) = 64" "unat (psf_get_width st) = 8"
    "unat (psf_get_height st) = 16" "unat (terminal_col st) = 5" "unat (terminal_row st) = 5" "cell_fits 5 5 st"
    "glyph_at 0x41 st = 0x6430" "unat (line_bytes st) = 1"
proof -
  have f: "font st = 0x6000" "terminal_col st = 5" "terminal_row st = 5" "mem st = screen_mem"
    by (simp_all add: assms screen_state_ex_def keyboard_state.defs screen_state.defs)
  have fb: "frame_buffer screen_mem = region 0xE0000000 8192" by (simp add: frame_buffer_def screen_ex_values)
  have dis: "a \<notin> region 0xE0000000 8192" if "a \<in> region 0x5000 0x2000" for a
    using that region_disjoint [of "0x5000" "0x2000" "0xE0000000" 8192] by auto
  show ln: "unat (line_bytes st) = 1" "unat (mode_width (mem st)) = 64" "unat (psf_get_width st) = 8"
    "unat (psf_get_height st) = 16" "unat (terminal_col st) = 5" "unat (terminal_row st) = 5" "cell_fits 5 5 st"
    using f by (simp_all add: line_bytes_def psf_get_width_def psf_get_height_def cell_fits_def screen_ex_values)
  show gl: "glyph_at 0x41 st = 0x6430"
    using f by (simp add: glyph_at_def line_bytes_def psf_get_width_def psf_get_height_def screen_ex_values)
  have "region 0x5000 44 \<subseteq> region (0x5000 :: addr) 0x2000" by (rule region_mono) simp
  moreover have "region 0x6000 32 \<subseteq> region (0x5000 :: addr) 0x2000" by (auto simp: region_interval)
  ultimately show "screen_ok st"
    using f dis by (auto simp: screen_ok_def mode_ok_def fb screen_ex_values)
  have "0x6430 + of_nat (r * 1) + of_nat (k div 8) \<in> region (0x5000 :: addr) 0x2000" if "r < 16" "k < 8" for r k :: nat
    using that region_add [of "0x1430 + r" "0x2000" "0x5000"] by (simp add: ac_simps)
  then show "glyph_ok 0x41 st" unfolding glyph_ok_def ln gl f fb using dis by simp
qed

theorem terminal_writechar_draws_witness:
  "\<exists>st :: screen_state. pixel_at (mem (terminal_writechar 0x41 st)) 8 5 = terminal_fg \<and>
     unat (terminal_col (terminal_writechar 0x41 st)) = 14"
proof -
  define st where "st = screen_state_ex\<lparr>mem := screen_mem\<rparr>"
  note ok = screen_ex_ok [OF st_def]
  have m: "mem st = screen_mem" by (simp add: st_def)
  have v: "visible (mem st) 8 5" by (simp add: visible_def m screen_ex_values)
  have l: "lit (mem st) 0x6430 3" by (simp add: lit_def m screen_mem_def bit_iff_odd)
  have c: "in_cell 5 5 st 8 5" using ok(4,5) by (simp add: in_cell_def)
  have h: "(0x41 :: u8) \<notin> {10, 8}" "unat (mode_width (mem st)) < 65535" "5 = unat (terminal_col st)"
    "5 = unat (terminal_row st)" using ok(3,6,7) by simp_all
  from terminal_writechar_draws [OF ok(1,2) h ok(8) refl]
  have "repainted (mem st) (\<lambda>x' y'. if in_cell 5 5 st x' y' \<and>
        lit (mem st) (glyph_at 0x41 st + of_nat ((y' - 5) * unat (line_bytes st))) (x' - 5)
      then Some terminal_fg else None) (mem (terminal_writechar 0x41 st))"
    "unat (terminal_col (terminal_writechar 0x41 st)) = 14"
    using ok(3,4) by (auto split: if_splits)
  then show ?thesis using v l c ok(9) unfolding repainted_def by (intro exI [of _ st]) simp
qed

theorem terminal_backspace_erases_witness:
  "\<exists>st :: screen_state. terminal_col (terminal_writechar 8 (terminal_writechar 0x41 st)) = terminal_col st \<and>
     pixel_at (mem (terminal_writechar 8 (terminal_writechar 0x41 st))) 8 5 = terminal_bg"
proof -
  define st where "st = screen_state_ex\<lparr>mem := screen_mem\<rparr>"
  note ok = screen_ex_ok [OF st_def]
  have v: "visible (mem st) 8 5" by (simp add: visible_def st_def screen_ex_values)
  have c: "in_cell 5 5 st 8 5" using ok(4,5) by (simp add: in_cell_def)
  have h: "(0x41 :: u8) \<notin> {10, 8}" "unat (mode_width (mem st)) < 65535" "5 = unat (terminal_col st)"
    "5 = unat (terminal_row st)" using ok(3,6,7) by simp_all
  have "(5 :: nat) \<le> 5" "5 + unat (psf_get_width st) + 1 < unat (mode_width (mem st))" using ok(3,4) by simp_all
  from terminal_backspace_erases [OF ok(1,2) h ok(8) this] v c
  show ?thesis unfolding repainted_def by (intro exI [of _ st]) simp
qed

end
