(* ===== verification/Zhios_Interrupts.thy ===== *)
theory Zhios_Interrupts
  imports Zhios_Screen
begin

text \<open>
  Interrupts and system calls: \<^verbatim>\<open>src/src/interrupts/interrupts.c\<close> and the commands of
  \<^verbatim>\<open>src/src/isr80h\<close>.  The table of commands holds values of a datatype with one constructor
  per handler; \<open>run_command\<close> calls the handler.  A handler returns a value or enters user
  mode (\<open>control\<close>); in the second case the rest of the C functions that called it is not
  executed.  The local arrays of the handlers are at addresses given by fields of the state.
\<close>

section \<open>State\<close>

datatype isr80h_command =
  Sum | TerminalOutput | Putchar | GetKey | MallocCommand | FreeCommand | LoadProcess | ExitProcess

record interrupt_entry =
  offset_1 :: u16
  selector :: u16
  entry_zero :: u8
  type_attr :: u8
  offset_2 :: u16

text \<open>
  \<open>idtr\<close> is the descriptor-table register, limit and base; \<open>interrupt_entries_addr\<close> the
  address of the table.  The addresses of the assembly stubs (\<open>isr_pointer_table\<close>, \<open>int0h\<close>,
  \<open>isr80h\<close>) and of the string literals are fields too.
\<close>

record kernel_state = screen_state +
  isr80h_commands :: "isr80h_command option list"
  interrupt_entries :: "interrupt_entry list"
  interrupt_entries_addr :: addr
  idtr :: "u16 \<times> u32"
  isr_pointer_table :: "addr list"
  int0h :: addr
  isr80h :: addr
  out_buffer :: addr
  load_buffer :: addr
  load_path :: addr
  load_copy :: addr
  load_arguments :: addr
  lit_bin :: addr
  lit_elf :: addr

abbreviation (input) ZHIOS_MAX_ISR80H_COMMANDS :: "'a::numeral" where
  "ZHIOS_MAX_ISR80H_COMMANDS \<equiv> 1024"

abbreviation (input) KERNEL_CODE_SELECTOR :: "'a::numeral" where
  "KERNEL_CODE_SELECTOR \<equiv> 0x08"

section \<open>The commands\<close>

definition sum_command :: "'a kernel_state_scheme \<Rightarrow> (u32 \<times> 'a kernel_state_scheme) option" where
  "sum_command st = do {
     (param2, st1) \<leftarrow> task_get_stack_item (get_current_task st) 1 st;
     (param1, st2) \<leftarrow> task_get_stack_item (get_current_task st1) 0 st1;
     Some (param1 + param2, st2) }"

definition terminal_output :: "'a kernel_state_scheme \<Rightarrow> (u32 \<times> 'a kernel_state_scheme) option" where
  "terminal_output st = do {
     (user_space_str, st1) \<leftarrow> task_get_stack_item (get_current_task st) 0 st;
     (res, st2) \<leftarrow> copy_string_from_task (get_current_task st1) user_space_str (out_buffer st1) 1024 st1;
     st3 \<leftarrow> print (out_buffer st2) st2;
     Some (0, st3) }"

definition putchar_command :: "'a kernel_state_scheme \<Rightarrow> (u32 \<times> 'a kernel_state_scheme) option" where
  "putchar_command st = do {
     (c, st1) \<leftarrow> task_get_stack_item (get_current_task st) 0 st;
     Some (0, terminal_writechar (ucast c) st1) }"

text \<open>The key is a \<^verbatim>\<open>char\<close> and is extended with its sign.\<close>

definition get_key_from_keyboard :: "'a kernel_state_scheme \<Rightarrow> (u32 \<times> 'a kernel_state_scheme) option" where
  "get_key_from_keyboard st = do {
     (c, st1) \<leftarrow> keyboard_pop st;
     Some (scast c, st1) }"

definition isr80h_malloc_command :: "'a kernel_state_scheme \<Rightarrow> (u32 \<times> 'a kernel_state_scheme) option" where
  "isr80h_malloc_command st = do {
     (sz, st1) \<leftarrow> task_get_stack_item (get_current_task st) 0 st;
     t \<leftarrow> tasks st1 (get_current_task st1);
     process_malloc (task_process t) sz st1 }"

definition isr80h_free_command :: "'a kernel_state_scheme \<Rightarrow> (u32 \<times> 'a kernel_state_scheme) option" where
  "isr80h_free_command st = do {
     (ptr, st1) \<leftarrow> task_get_stack_item (get_current_task st) 0 st;
     t \<leftarrow> tasks st1 (get_current_task st1);
     st2 \<leftarrow> process_free_allocation (task_process t) ptr st1;
     Some (0, st2) }"

definition isr80h_load_process_command ::
  "'a kernel_state_scheme \<Rightarrow> (u32 control \<times> 'a kernel_state_scheme) option" where
  "isr80h_load_process_command st = do {
     (filename, st1) \<leftarrow> task_get_stack_item (get_current_task st) 0 st;
     (res1, st2) \<leftarrow> copy_string_from_task (get_current_task st1) filename (load_buffer st1) 100 st1;
     m3 \<leftarrow> strcpy (mem st2) (load_buffer st2) (load_copy st2);
     (n, m4) \<leftarrow> str_token m3 (load_copy st2) (load_arguments st2) 0x20;
     m5 \<leftarrow> strcat m4 (lit_bin st2) (read32 m4 (load_arguments st2)) (load_path st2);
     m6 \<leftarrow> strcat m5 (load_path st2) (lit_elf st2) (load_path st2);
     (res, process, st7) \<leftarrow> process_load_with_args (load_path st2) 0 (load_buffer st2) (st2\<lparr>mem := m6\<rparr>);
     if res < 0 then Some (Returns 0, st7)
     else do {
       pr \<leftarrow> processes st7 process;
       st8 \<leftarrow> switch_task (proc_task pr) st7;
       t \<leftarrow> tasks st8 (proc_task pr);
       Some (restore_task (registers t) st8) } }"

definition isr80h_exit_process_command ::
  "'a kernel_state_scheme \<Rightarrow> (u32 control \<times> 'a kernel_state_scheme) option" where
  "isr80h_exit_process_command st = do {
     t \<leftarrow> tasks st (get_current_task st);
     st1 \<leftarrow> process_free (task_process t) st;
     task_next st1 }"

definition returning :: "('r \<times> 's) option \<Rightarrow> ('r control \<times> 's) option" where
  "returning = map_option (\<lambda>(r, st). (Returns r, st))"

fun run_command ::
  "isr80h_command \<Rightarrow> 'a kernel_state_scheme \<Rightarrow> (u32 control \<times> 'a kernel_state_scheme) option" where
  "run_command Sum st = returning (sum_command st)"
| "run_command TerminalOutput st = returning (terminal_output st)"
| "run_command Putchar st = returning (putchar_command st)"
| "run_command GetKey st = returning (get_key_from_keyboard st)"
| "run_command MallocCommand st = returning (isr80h_malloc_command st)"
| "run_command FreeCommand st = returning (isr80h_free_command st)"
| "run_command LoadProcess st = isr80h_load_process_command st"
| "run_command ExitProcess st = isr80h_exit_process_command st"

section \<open>Dispatch\<close>

text \<open>A code out of range and a code that is taken lead to an endless loop.\<close>

definition isr80h_register_command ::
  "int \<Rightarrow> isr80h_command \<Rightarrow> 'a kernel_state_scheme \<Rightarrow> 'a kernel_state_scheme option" where
  "isr80h_register_command command handler st =
     (if command < 0 \<or> command \<ge> ZHIOS_MAX_ISR80H_COMMANDS then None
      else if isr80h_commands st ! nat command \<noteq> None then None
      else Some (st\<lparr>isr80h_commands := (isr80h_commands st)[nat command := Some handler]\<rparr>))"

definition isr80h_handle_command ::
  "int \<Rightarrow> 'a kernel_state_scheme \<Rightarrow> (u32 control \<times> 'a kernel_state_scheme) option" where
  "isr80h_handle_command command st =
     (if command < 0 \<or> command \<ge> ZHIOS_MAX_ISR80H_COMMANDS then Some (Returns 0, st)
      else case isr80h_commands st ! nat command of
             None \<Rightarrow> Some (Returns 0, st)
           | Some handler \<Rightarrow> run_command handler st)"

definition divide_by_zero :: "'a kernel_state_scheme \<Rightarrow> 'a kernel_state_scheme" where
  "divide_by_zero st = print_text (bytes_of ''Divide by zero error!'' @ [10]) st"

definition no_interrupt_handler :: "'a kernel_state_scheme \<Rightarrow> 'a kernel_state_scheme" where
  "no_interrupt_handler st = outb 0x20 0x20 st"

definition handle_exceptions ::
  "'a kernel_state_scheme \<Rightarrow> (addr control \<times> 'a kernel_state_scheme) option" where
  "handle_exceptions st = do {
     t \<leftarrow> tasks st (get_current_task st);
     st1 \<leftarrow> process_free (task_process t) st;
     task_next st1 }"

fun run_routine ::
  "isr_routine \<Rightarrow> 'a kernel_state_scheme \<Rightarrow> (addr control \<times> 'a kernel_state_scheme) option" where
  "run_routine ClassicKeyboardHandler st =
     returning (map_option (\<lambda>st1. (0, st1)) (classic_keyboard_interrupt_handler st))"
| "run_routine HandleExceptions st = handle_exceptions st"

definition isr_handler ::
  "nat \<Rightarrow> InterruptFrame \<Rightarrow> 'a kernel_state_scheme \<Rightarrow> (unit control \<times> 'a kernel_state_scheme) option" where
  "isr_handler interrupt frame st = do {
     let st1 = kernel_page st;
     (c, st2) \<leftarrow> (if interrupt < length (service_routines st1)
                 then case service_routines st1 ! interrupt of
                        None \<Rightarrow> Some (Returns 0, st1)
                      | Some routine \<Rightarrow> do {
                          s \<leftarrow> task_save_current_state frame st1;
                          run_routine routine s }
                 else None);
     case c of
       Enters r \<Rightarrow> Some (Enters r, st2)
     | Returns v \<Rightarrow> do {
         st3 \<leftarrow> current_task_page st2;
         Some (Returns (), outb 0x20 0x20 st3) } }"

definition isr80h_handler ::
  "int \<Rightarrow> InterruptFrame \<Rightarrow> 'a kernel_state_scheme \<Rightarrow> (u32 control \<times> 'a kernel_state_scheme) option" where
  "isr80h_handler command frame st = do {
     st1 \<leftarrow> task_save_current_state frame (kernel_page st);
     (c, st2) \<leftarrow> isr80h_handle_command command st1;
     case c of
       Enters r \<Rightarrow> Some (Enters r, st2)
     | Returns res \<Rightarrow> do {
         st3 \<leftarrow> current_task_page st2;
         Some (Returns res, st3) } }"

definition register_system_commands :: "'a kernel_state_scheme \<Rightarrow> 'a kernel_state_scheme option" where
  "register_system_commands st = do {
     s1 \<leftarrow> isr80h_register_command 0 Sum st;
     s2 \<leftarrow> isr80h_register_command 1 TerminalOutput s1;
     s3 \<leftarrow> isr80h_register_command 2 Putchar s2;
     s4 \<leftarrow> isr80h_register_command 3 GetKey s3;
     s5 \<leftarrow> isr80h_register_command 4 MallocCommand s4;
     s6 \<leftarrow> isr80h_register_command 5 FreeCommand s5;
     s7 \<leftarrow> isr80h_register_command 6 LoadProcess s6;
     isr80h_register_command 7 ExitProcess s7 }"

section \<open>The interrupt table\<close>

definition set_interrupt ::
  "nat \<Rightarrow> addr \<Rightarrow> 'a kernel_state_scheme \<Rightarrow> 'a kernel_state_scheme" where
  "set_interrupt interrupt_num address st =
     st\<lparr>interrupt_entries := (interrupt_entries st)[interrupt_num :=
        \<lparr>offset_1 = ucast (address AND 0xffff), selector = KERNEL_CODE_SELECTOR, entry_zero = 0,
         type_attr = 0xEE, offset_2 = ucast (drop_bit 16 address AND 0xffff)\<rparr>]\<rparr>"

fun set_all_interrupts :: "nat \<Rightarrow> nat \<Rightarrow> 'a kernel_state_scheme \<Rightarrow> 'a kernel_state_scheme" where
  "set_all_interrupts i 0 st = st"
| "set_all_interrupts i (Suc left) st =
     set_all_interrupts (Suc i) left (set_interrupt i (isr_pointer_table st ! i) st)"

fun register_exceptions :: "nat \<Rightarrow> nat \<Rightarrow> 'a kernel_state_scheme \<Rightarrow> 'a kernel_state_scheme option" where
  "register_exceptions i 0 st = Some st"
| "register_exceptions i (Suc left) st = do {
     (res, st1) \<leftarrow> register_service_routine (int i) HandleExceptions st;
     register_exceptions (Suc i) left st1 }"

definition load_interrupts :: "u16 \<Rightarrow> u32 \<Rightarrow> 'a kernel_state_scheme \<Rightarrow> 'a kernel_state_scheme" where
  "load_interrupts limit base st = st\<lparr>idtr := (limit, base)\<rparr>"

definition init_interrupts :: "'a kernel_state_scheme \<Rightarrow> 'a kernel_state_scheme option" where
  "init_interrupts st = do {
     let zero = \<lparr>offset_1 = 0, selector = 0, entry_zero = 0, type_attr = 0, offset_2 = 0\<rparr>;
     let st1 = st\<lparr>interrupt_entries := replicate 512 zero\<rparr>;
     let st2 = set_all_interrupts 0 TOTAL_INTERRUPTS st1;
     let st3 = set_interrupt 0x80 (isr80h st2) (set_interrupt 0 (int0h st2) st2);
     st4 \<leftarrow> register_exceptions 0 0x20 st3;
     Some (load_interrupts (512 * 8 - 1) (interrupt_entries_addr st4) st4) }"

section \<open>The tables after initialisation\<close>

text \<open>The handler address that a gate encodes.\<close>

definition gate_address :: "interrupt_entry \<Rightarrow> addr" where
  "gate_address e = ucast (offset_1 e) OR push_bit 16 (ucast (offset_2 e))"

definition gate_ok :: "interrupt_entry \<Rightarrow> addr \<Rightarrow> bool" where
  "gate_ok e a \<longleftrightarrow> gate_address e = a \<and> selector e = KERNEL_CODE_SELECTOR \<and> type_attr e = 0xEE \<and> entry_zero e = 0"

lemma halves: "ucast (ucast (a AND 0xffff) :: u16) OR push_bit 16 (ucast (ucast (drop_bit 16 a AND 0xffff) :: u16)) = (a :: u32)"
proof (rule bit_word_eqI)
  fix n
  assume n: "n < LENGTH(32)"
  have m: "(0xffff :: u32) = mask 16" by (simp add: mask_eq_exp_minus_1)
  show "bit (ucast (ucast (a AND 0xffff) :: u16) OR push_bit 16 (ucast (ucast (drop_bit 16 a AND 0xffff) :: u16)) :: u32) n
      \<longleftrightarrow> bit a n"
    unfolding m using n by (cases "n < 16") (auto simp: bit_simps)
qed

lemma set_interrupt_gate:
  assumes "i < length (interrupt_entries st)"
  shows "gate_ok (interrupt_entries (set_interrupt i a st) ! i) a"
    "k \<noteq> i \<Longrightarrow> interrupt_entries (set_interrupt i a st) ! k = interrupt_entries st ! k"
    "length (interrupt_entries (set_interrupt i a st)) = length (interrupt_entries st)"
  using assms by (simp_all add: set_interrupt_def gate_ok_def gate_address_def halves)

lemma set_interrupt_frame: "\<exists>e. set_interrupt i a st = st\<lparr>interrupt_entries := e\<rparr>"
  by (auto simp: set_interrupt_def)

lemma set_all_interrupts_spec:
  assumes "i + n \<le> length (interrupt_entries st)"
  shows "\<exists>e. set_all_interrupts i n st = st\<lparr>interrupt_entries := e\<rparr> \<and> length e = length (interrupt_entries st) \<and>
    (\<forall>k. i \<le> k \<and> k < i + n \<longrightarrow> gate_ok (e ! k) (isr_pointer_table st ! k)) \<and>
    (\<forall>k. \<not> (i \<le> k \<and> k < i + n) \<longrightarrow> e ! k = interrupt_entries st ! k)"
  using assms
proof (induction n arbitrary: i st)
  case 0
  then show ?case by (intro exI [of _ "interrupt_entries st"]) auto
next
  case (Suc n)
  let ?st = "set_interrupt i (isr_pointer_table st ! i) st"
  have i: "i < length (interrupt_entries st)" using Suc.prems by simp
  obtain e1 where e1: "?st = st\<lparr>interrupt_entries := e1\<rparr>" using set_interrupt_frame by blast
  note g = set_interrupt_gate [OF i, where a = "isr_pointer_table st ! i", unfolded e1, simplified]
  have "Suc i + n \<le> length (interrupt_entries ?st)" using Suc.prems g(3) e1 by simp
  from Suc.IH [OF this] obtain e where e: "set_all_interrupts (Suc i) n ?st = st\<lparr>interrupt_entries := e\<rparr>"
    "length e = length e1" "\<forall>k. Suc i \<le> k \<and> k < Suc i + n \<longrightarrow> gate_ok (e ! k) (isr_pointer_table st ! k)"
    "\<forall>k. \<not> (Suc i \<le> k \<and> k < Suc i + n) \<longrightarrow> e ! k = e1 ! k"
    unfolding e1 by auto
  have "gate_ok (e ! k) (isr_pointer_table st ! k)" if "i \<le> k" "k < i + Suc n" for k
    using that e(3,4) g(1) by (cases "k = i") auto
  moreover have "e ! k = interrupt_entries st ! k" if "\<not> (i \<le> k \<and> k < i + Suc n)" for k
    using that e(4) g(2) [of k] by (cases "k = i") auto
  ultimately show ?case using e(1,2) g(3) by (intro exI [of _ e]) simp
qed

lemma register_exceptions_spec:
  assumes "i + n \<le> length (service_routines st)" "length (service_routines st) = 512"
  shows "\<exists>r. register_exceptions i n st = Some (st\<lparr>service_routines := r\<rparr>) \<and> length r = 512 \<and>
    (\<forall>k. r ! k = (if i \<le> k \<and> k < i + n then Some HandleExceptions else service_routines st ! k))"
  using assms
proof (induction n arbitrary: i st)
  case 0
  then show ?case by (intro exI [of _ "service_routines st"]) auto
next
  case (Suc n)
  let ?st = "st\<lparr>service_routines := (service_routines st)[i := Some HandleExceptions]\<rparr>"
  have reg: "register_service_routine (int i) HandleExceptions st = Some (0, ?st)"
    using Suc.prems by (simp add: register_service_routine_def)
  obtain r where r: "register_exceptions (Suc i) n ?st = Some (st\<lparr>service_routines := r\<rparr>)" "length r = 512"
    "\<forall>k. r ! k = (if Suc i \<le> k \<and> k < Suc i + n then Some HandleExceptions
       else (service_routines st)[i := Some HandleExceptions] ! k)"
    using Suc.IH [of "Suc i" ?st] Suc.prems by auto
  then show ?case using reg Suc.prems by (intro exI [of _ r]) (auto simp: nth_list_update)
qed

definition system_commands :: "isr80h_command option list" where
  "system_commands = map Some [Sum, TerminalOutput, Putchar, GetKey, MallocCommand, FreeCommand, LoadProcess, ExitProcess]
     @ replicate 1016 None"

lemma register_system_commands_table:
  assumes "isr80h_commands st = replicate 1024 None"
  shows "register_system_commands st = Some (st\<lparr>isr80h_commands := system_commands\<rparr>)"
proof -
  have r: "replicate 1024 None = [None, None, None, None, None, None, None, None] @ replicate 1016 (None :: isr80h_command option)"
    using replicate_add [of 8 1016 "None :: isr80h_command option"] by (simp add: numeral_eq_Suc)
  show ?thesis
    using assms unfolding r
    by (simp add: register_system_commands_def isr80h_register_command_def system_commands_def)
qed

lemma init_interrupts_spec:
  assumes "length (service_routines st) = 512"
  obtains g r where "init_interrupts st = Some (st\<lparr>interrupt_entries := g, service_routines := r,
      idtr := (4095, interrupt_entries_addr st)\<rparr>)" "length g = 512" "length r = 512"
    "\<And>v. v < 512 \<Longrightarrow> gate_ok (g ! v) (if v = 0 then int0h st else if v = 0x80 then isr80h st else isr_pointer_table st ! v)"
    "\<And>v. r ! v = (if v < 32 then Some HandleExceptions else service_routines st ! v)"
proof -
  let ?zero = "\<lparr>offset_1 = 0, selector = 0, entry_zero = 0, type_attr = 0, offset_2 = 0\<rparr> :: interrupt_entry"
  let ?st1 = "st\<lparr>interrupt_entries := replicate 512 ?zero\<rparr>"
  obtain e where e: "set_all_interrupts 0 512 ?st1 = st\<lparr>interrupt_entries := e\<rparr>" "length e = 512"
    "\<forall>k < 512. gate_ok (e ! k) (isr_pointer_table st ! k)"
    using set_all_interrupts_spec [of 0 512 ?st1] by auto
  let ?st2 = "st\<lparr>interrupt_entries := e\<rparr>"
  obtain f where f: "set_interrupt 0 (int0h st) ?st2 = st\<lparr>interrupt_entries := f\<rparr>"
    using set_interrupt_frame [of 0 "int0h st" ?st2] by auto
  obtain g where g: "set_interrupt 0x80 (isr80h st) (st\<lparr>interrupt_entries := f\<rparr>) = st\<lparr>interrupt_entries := g\<rparr>"
    using set_interrupt_frame [of "0x80" "isr80h st" "st\<lparr>interrupt_entries := f\<rparr>"] by auto
  have f1: "length f = 512" "gate_ok (f ! 0) (int0h st)" "\<And>k. k \<noteq> 0 \<Longrightarrow> f ! k = e ! k"
    using set_interrupt_gate [where i = 0 and st = ?st2 and a = "int0h st"] f e(2) by simp_all
  have g1: "length g = 512" "gate_ok (g ! 0x80) (isr80h st)" "\<And>k. k \<noteq> 0x80 \<Longrightarrow> g ! k = f ! k"
    using set_interrupt_gate [where i = "0x80" and st = "st\<lparr>interrupt_entries := f\<rparr>" and a = "isr80h st"] g f1(1) by simp_all
  have gates: "gate_ok (g ! v) (if v = 0 then int0h st else if v = 0x80 then isr80h st else isr_pointer_table st ! v)"
    if "v < 512" for v using that e(3) f1(2,3) g1(2,3) by (cases "v = 0"; cases "v = 0x80") simp_all
  obtain r where r: "register_exceptions 0 32 (st\<lparr>interrupt_entries := g\<rparr>) =
      Some (st\<lparr>interrupt_entries := g, service_routines := r\<rparr>)"
    "length r = 512" "\<forall>k. r ! k = (if k < 32 then Some HandleExceptions else service_routines st ! k)"
    using register_exceptions_spec [of 0 32 "st\<lparr>interrupt_entries := g\<rparr>"] assms by auto
  have "init_interrupts st = Some (st\<lparr>interrupt_entries := g, service_routines := r,
      idtr := (4095, interrupt_entries_addr st)\<rparr>)"
    using e(1) f g r(1) by (simp add: init_interrupts_def load_interrupts_def)
  from this g1(1) r(2) gates show ?thesis by (rule that) (simp_all add: r(3))
qed

section \<open>Properties\<close>

text \<open>
  C35: the interrupt table.  After \<^verbatim>\<open>init_interrupts\<close> each of the 512 gates encodes the address
  of its stub (vectors 0 and \<open>0x80\<close> their own) in the kernel's code segment, the first 32
  vectors have the exception handler as their service routine and the others are unchanged.
\<close>

theorem init_interrupts_gates:
  assumes "length (service_routines st) = 512"
  shows "\<exists>st'. init_interrupts st = Some st' \<and> length (interrupt_entries st') = 512 \<and>
    (\<forall>v < 512. gate_ok (interrupt_entries st' ! v)
       (if v = 0 then int0h st else if v = 0x80 then isr80h st else isr_pointer_table st ! v)) \<and>
    (\<forall>v < 512. service_routines st' ! v = (if v < 32 then Some HandleExceptions else service_routines st ! v)) \<and>
    idtr st' = (4095, interrupt_entries_addr st)"
  by (rule init_interrupts_spec [OF assms]) auto

text \<open>A state for the witnesses: the commands registered, one task with an identity address space.\<close>

definition kernel_state_ex :: kernel_state where
  "kernel_state_ex = screen_state.extend screen_state_ex
     (kernel_state.fields (replicate 1024 None) [] 0xA00 (0, 0) (map (\<lambda>i. 0x100000 + of_nat i) [0..<512])
       0x200000 0x200100 0xB00 0xC00 0xD00 0xE00 0xF00 0x300 0x310)"

definition frame_ex :: "u32 \<Rightarrow> InterruptFrame" where
  "frame_ex esp = \<lparr>frame_edi = 0, frame_esi = 0, frame_ebp = 0, frame_reserved = 0, frame_ebx = 0,
     frame_edx = 0, frame_ecx = 0, frame_eax = 0, frame_ip = 0x400000, frame_cs = 0, frame_flags = 0,
     frame_esp = esp, frame_ss = 0\<rparr>"

theorem init_interrupts_gates_witness:
  "\<exists>st'. init_interrupts kernel_state_ex = Some st' \<and> gate_ok (interrupt_entries st' ! 0x80) 0x200100 \<and>
     service_routines st' ! 13 = Some HandleExceptions"
proof -
  have len: "length (service_routines kernel_state_ex) = 512" and a: "isr80h kernel_state_ex = 0x200100"
    by (simp_all add: kernel_state_ex_def screen_state_ex_def keyboard_state_ex_def screen_state.defs keyboard_state.defs kernel_state.defs process_state.defs)
  obtain st' where st: "init_interrupts kernel_state_ex = Some st'"
    "\<forall>v < 512. gate_ok (interrupt_entries st' ! v) (if v = 0 then int0h kernel_state_ex
       else if v = 0x80 then isr80h kernel_state_ex else isr_pointer_table kernel_state_ex ! v)"
    "\<forall>v < 512. service_routines st' ! v =
       (if v < 32 then Some HandleExceptions else service_routines kernel_state_ex ! v)"
    using init_interrupts_gates [OF len] by (elim exE conjE) (rule that)
  from st(2) [rule_format, of "0x80"] st(3) [rule_format, of 13] st(1) a show ?thesis by simp
qed

lemma vread32_cong:
  "mem s = mem s' \<Longrightarrow> cr3 s = cr3 s' \<Longrightarrow> vread32 v s = vread32 v s'"
  by (simp add: vread32_def vread8_def)

lemmas switch_defs = kernel_page_def kernel_registers_def user_registers_def paging_switch_def
  page_load_directory_def Let_def

lemma task_get_stack_item_eq:
  assumes "tasks st task = Some x" "dir = read32 (mem st) (page_directory x)"
    and "vread32 (reg_esp (registers x) + 4 * of_int i) (st\<lparr>cr3 := dir\<rparr>) = Some a"
  shows "task_get_stack_item task i st = Some (a, kernel_page st)"
proof -
  let ?st = "paging_switch (page_directory x) (user_registers st)"
  have "vread32 v ?st = vread32 v (st\<lparr>cr3 := dir\<rparr>)" for v
    by (rule vread32_cong) (simp_all add: switch_defs assms(2))
  moreover have "kernel_page ?st = kernel_page st" by (simp add: switch_defs)
  ultimately show ?thesis using assms by (simp add: task_get_stack_item_def switch_to_task_page_def)
qed

text \<open>
  Every system call enters the kernel in the same way: the address space of the kernel is
  loaded and the frame is saved in the current task.
\<close>

definition saved_task :: "InterruptFrame \<Rightarrow> Task \<Rightarrow> Task" where
  "saved_task frame x = x\<lparr>registers := \<lparr>reg_edi = frame_edi frame, reg_esi = frame_esi frame,
        reg_ebp = frame_ebp frame, reg_ebx = frame_ebx frame, reg_edx = frame_edx frame,
        reg_ecx = frame_ecx frame, reg_eax = frame_eax frame, reg_ip = frame_ip frame,
        reg_cs = frame_cs frame, reg_flags = frame_flags frame, reg_esp = frame_esp frame,
        reg_ss = frame_ss frame\<rparr>\<rparr>"

definition in_kernel :: "InterruptFrame \<Rightarrow> 'a kernel_state_scheme \<Rightarrow> 'a kernel_state_scheme" where
  "in_kernel frame st = (kernel_page st)\<lparr>tasks := (tasks st)(current_task st \<mapsto>
     saved_task frame (the (tasks st (current_task st))))\<rparr>"

lemma saved_task_simps [simp]:
  "page_directory (saved_task frame x) = page_directory x" "task_process (saved_task frame x) = task_process x"
  "reg_ip (registers (saved_task frame x)) = frame_ip frame" "reg_esp (registers (saved_task frame x)) = frame_esp frame"
  "reg_eax (registers (saved_task frame x)) = frame_eax frame"
  by (simp_all add: saved_task_def)

lemma in_kernel_simps [simp]:
  "mem (in_kernel frame st) = mem st" "current_task (in_kernel frame st) = current_task st"
  "isr80h_commands (in_kernel frame st) = isr80h_commands st" "processes (in_kernel frame st) = processes st"
  "current_process (in_kernel frame st) = current_process st" "kernel_page (in_kernel frame st) = in_kernel frame st"
  "font (in_kernel frame st) = font st" "terminal_row (in_kernel frame st) = terminal_row st"
  "terminal_col (in_kernel frame st) = terminal_col st"
  by (simp_all add: in_kernel_def switch_defs)

lemma in_kernel_heap:
  "kheap_ok (in_kernel frame st) = kheap_ok st" "kheap_live (in_kernel frame st) = kheap_live st"
  "kheap_avail (in_kernel frame st) = kheap_avail st" "owned_space (in_kernel frame st) page = owned_space st page"
  by (simp_all add: in_kernel_def switch_defs kheap_defs owned_space_def)

lemma in_kernel_tasks:
  "tasks st (current_task st) = Some x \<Longrightarrow>
     tasks (in_kernel frame st) = (tasks st)(current_task st \<mapsto> saved_task frame x)"
  by (simp add: in_kernel_def)

lemma system_call_returns:
  assumes "current_task st \<noteq> 0" "tasks st (current_task st) = Some x" "isr80h_commands st ! nat code = Some cmd"
    and "0 \<le> code" "code < 1024" "run_command cmd (in_kernel frame st) = Some (Returns r, s)"
    and "tasks s (current_task s) = Some x'"
  shows "isr80h_handler code frame st = Some (Returns r, paging_switch (page_directory x') (user_registers s))"
proof -
  have "task_save_current_state frame (kernel_page st) = Some (in_kernel frame st)"
    using assms(1,2) by (simp add: task_save_current_state_def save_state_def upd_task_def get_current_task_def
      in_kernel_def saved_task_def switch_defs)
  moreover have "isr80h_handle_command code (in_kernel frame st) = Some (Returns r, s)"
    using assms(3-6) by (simp add: isr80h_handle_command_def)
  moreover have "current_task_page s = Some (paging_switch (page_directory x') (user_registers s))"
    using assms(7) by (simp add: current_task_page_def switch_task_def switch_defs)
  ultimately show ?thesis by (simp add: isr80h_handler_def)
qed

lemma in_kernel_stack_item:
  assumes "tasks st (current_task st) = Some x" "dir = read32 (mem st) (page_directory x)"
    and "vread32 (frame_esp frame + 4 * of_int i) (st\<lparr>cr3 := dir\<rparr>) = Some a"
  shows "task_get_stack_item (current_task st) i (in_kernel frame st) = Some (a, in_kernel frame st)"
proof -
  have "vread32 v ((in_kernel frame st)\<lparr>cr3 := dir\<rparr>) = vread32 v (st\<lparr>cr3 := dir\<rparr>)" for v by (rule vread32_cong) simp_all
  then show ?thesis
    using assms task_get_stack_item_eq [of "in_kernel frame st" "current_task st" "saved_task frame x" dir i a]
    by (simp add: in_kernel_tasks)
qed

lemma registered_commands:
  assumes "isr80h_commands st0 = replicate 1024 None" "register_system_commands st0 = Some st1"
    and "isr80h_commands st = isr80h_commands st1"
  shows "isr80h_commands st = system_commands"
  using assms(2,3) register_system_commands_table [OF assms(1)] by auto

lemma screen_same:
  assumes "mem st = mem st'" "font st = font st'"
  shows "psf_get_width st = psf_get_width st'" "psf_get_height st = psf_get_height st'" "line_bytes st = line_bytes st'"
    "glyph_at c st = glyph_at c st'" "screen_ok st = screen_ok st'" "glyph_ok c st = glyph_ok c st'"
    "cell_fits x y st = cell_fits x y st'" "in_cell x y st = in_cell x y st'"
  using assms by (simp_all add: psf_get_width_def psf_get_height_def line_bytes_def glyph_at_def screen_ok_def glyph_ok_def
    cell_fits_def in_cell_def [abs_def])

lemmas screen_in_kernel [simp] = screen_same [OF in_kernel_simps(1,7)]

lemma getkey_returns:
  fixes st :: "'a kernel_state_scheme"
  assumes "isr80h_commands st = system_commands" "tasks st (current_task st) = Some x" "keyboard_ok st" "keys_seen st < 1024"
  obtains kb where "isr80h_handler 3 frame st = Some (Returns (case pending_keys st of [] \<Rightarrow> 0 | c # cs \<Rightarrow> scast c),
      paging_switch (page_directory x) (user_registers (set_buffer kb (in_kernel frame st))))"
    "kb_ok kb" "kb_keys kb = tl (pending_keys st)" "kb_tail kb = kb_tail (current_buffer st)"
proof -
  let ?s = "in_kernel frame st" and ?kb = "current_buffer st"
  have cmd: "isr80h_commands st ! nat 3 = Some GetKey"
    using assms(1) by (simp add: system_commands_def numeral_eq_Suc)
  have t0: "current_task st \<noteq> 0" using assms(3) by (simp add: keyboard_ok_def)
  have ok: "keyboard_ok ?s" "current_buffer ?s = ?kb"
    using assms(2,3) by (simp_all add: keyboard_ok_def current_buffer_def in_kernel_tasks)
  have ts: "tasks (set_buffer kb ?s) (current_task (set_buffer kb ?s)) = Some (saved_task frame x)" for kb
    using assms(2) by (simp add: set_buffer_def in_kernel_tasks)
  note pop = keyboard_pop_eq [OF ok(1), unfolded ok(2)] and kb = current_buffer_ok [OF assms(3)]
  show thesis
  proof (cases "pending_keys st")
    case Nil
    then have "kb_buffer ?kb ! keyboard_get_head_index ?kb = 0"
      using kb_pop_empty(2) [OF kb] kb_okD(2,3) [OF kb] assms(4) by (simp add: pending_keys_def keys_seen_def)
    then have "run_command GetKey ?s = Some (Returns 0, set_buffer ?kb ?s)"
      using pop set_buffer_current [OF ok(1), unfolded ok(2)] by (simp add: get_key_from_keyboard_def returning_def Let_def)
    from system_call_returns [OF t0 assms(2) cmd _ _ this ts] show ?thesis
      using Nil kb by (intro that [of ?kb]) (simp_all add: pending_keys_def)
  next
    case (Cons c cs)
    have "kb_keys ?kb = c # cs" using Cons by (simp add: pending_keys_def)
    note p = kb_pop [OF kb this]
    have "run_command GetKey ?s = Some (Returns (scast c), set_buffer (?kb\<lparr>kb_head := kb_head ?kb + 1\<rparr>) ?s)"
      using pop p by (simp add: get_key_from_keyboard_def returning_def Let_def)
    from system_call_returns [OF t0 assms(2) cmd _ _ this ts] show ?thesis
      using Cons p(5,6) by (intro that [of "?kb\<lparr>kb_head := kb_head ?kb + 1\<rparr>"]) simp_all
  qed
qed

lemma putchar_returns:
  assumes "isr80h_commands st = system_commands" "current_task st \<noteq> 0" "tasks st (current_task st) = Some t"
    and "dir = read32 (mem st) (page_directory t)" "vread32 (frame_esp frame) (st\<lparr>cr3 := dir\<rparr>) = Some a"
  shows "isr80h_handler 2 frame st =
    Some (Returns 0, paging_switch (page_directory t) (user_registers (terminal_writechar (ucast a) (in_kernel frame st))))"
proof -
  let ?s = "in_kernel frame st"
  have cmd: "isr80h_commands st ! nat 2 = Some Putchar" using assms(1) by (simp add: system_commands_def numeral_eq_Suc)
  have "task_get_stack_item (current_task st) 0 ?s = Some (a, ?s)"
    using in_kernel_stack_item [OF assms(3,4), of frame 0 a] assms(5) by simp
  then have run: "run_command Putchar ?s = Some (Returns 0, terminal_writechar (ucast a) ?s)"
    by (simp add: putchar_command_def returning_def get_current_task_def)
  have "tasks (terminal_writechar (ucast a) ?s) = tasks ?s" "current_task (terminal_writechar (ucast a) ?s) = current_task st"
    by (subst terminal_writechar_fields, simp)+
  then have "tasks (terminal_writechar (ucast a) ?s) (current_task (terminal_writechar (ucast a) ?s)) = Some (saved_task frame t)"
    using assms(3) by (simp add: in_kernel_tasks)
  from system_call_returns [OF assms(2,3) cmd _ _ run this] show ?thesis by simp
qed


lemma in_kernel_draws:
  assumes "screen_ok st" "glyph_ok c st" "c \<notin> {10, 8}" "unat (mode_width (mem st)) < 65535"
    and "cell_fits (unat (terminal_col st)) (unat (terminal_row st)) st"
  shows "\<exists>m. repainted (mem st) (\<lambda>x' y'. if in_cell (unat (terminal_col st)) (unat (terminal_row st)) st x' y' \<and>
        lit (mem st) (glyph_at c st + of_nat ((y' - unat (terminal_row st)) * unat (line_bytes st))) (x' - unat (terminal_col st))
      then Some terminal_fg else None) m \<and> mem (terminal_writechar c (in_kernel frame st)) = m \<and>
    tasks (terminal_writechar c (in_kernel frame st)) = tasks (in_kernel frame st) \<and>
    current_task (terminal_writechar c (in_kernel frame st)) = current_task st"
proof (rule terminal_writechar_glyph [of "in_kernel frame st" c])
  fix m'
  assume m: "repainted (mem (in_kernel frame st)) (\<lambda>x y. if in_cell (unat (terminal_col (in_kernel frame st)))
        (unat (terminal_row (in_kernel frame st))) (in_kernel frame st) x y \<and>
        lit (mem (in_kernel frame st)) (glyph_at c (in_kernel frame st) +
          of_nat ((y - unat (terminal_row (in_kernel frame st))) * unat (line_bytes (in_kernel frame st))))
          (x - unat (terminal_col (in_kernel frame st)))
      then Some terminal_fg else None) m'"
    and w: "terminal_writechar c (in_kernel frame st) = (let st1 = move_to_next_col ((in_kernel frame st)\<lparr>mem := m'\<rparr>)
       in if unat (terminal_col (in_kernel frame st)) + unat (psf_get_width (in_kernel frame st)) + 1
          \<ge> unat (mode_width (mem (in_kernel frame st))) then move_to_next_row st1 else st1)"
  show ?thesis
    using m unfolding w by (intro exI [of _ m'])
      (simp add: Let_def move_to_next_col_def move_to_next_row_def)
qed (use assms in simp_all)

text \<open>
  A system call from end to end.  With the commands registered at boot, command 0 from a
  task whose stack holds the words \<open>a\<close> and \<open>b\<close> returns \<open>a + b\<close> modulo \<open>2 ^ 32\<close>: the handler
  saves the frame in the task, reads the stack through the address space of the task, and
  leaves that address space and the user's data segment loaded; memory does not change.
\<close>

lemma system_call_sum:
  assumes "isr80h_commands st0 = replicate 1024 None" "register_system_commands st0 = Some st1"
    and "isr80h_commands st = isr80h_commands st1" "current_task st = t" "t \<noteq> 0" "tasks st t = Some x"
    and "dir = read32 (mem st) (page_directory x)"
    and "vread32 (frame_esp frame) (st\<lparr>cr3 := dir\<rparr>) = Some a"
    and "vread32 (frame_esp frame + 4) (st\<lparr>cr3 := dir\<rparr>) = Some b"
  shows "\<exists>x' st'. isr80h_handler 0 frame st = Some (Returns (a + b), st') \<and> mem st' = mem st \<and>
    cr3 st' = dir \<and> data_segment st' = USER_DATA_SEGMENT \<and> current_task st' = t \<and>
    tasks st' = (tasks st)(t \<mapsto> x') \<and> page_directory x' = page_directory x \<and>
    reg_ip (registers x') = frame_ip frame \<and> reg_esp (registers x') = frame_esp frame \<and>
    reg_eax (registers x') = frame_eax frame"
proof -
  let ?s = "in_kernel frame st" and ?x = "saved_task frame x"
  have t: "tasks st (current_task st) = Some x" "current_task st \<noteq> 0" using assms(4-6) by simp_all
  have cmd: "isr80h_commands st ! nat 0 = Some Sum"
    using registered_commands [OF assms(1-3)] by (simp add: system_commands_def)
  have i: "task_get_stack_item t 1 ?s = Some (b, ?s)" "task_get_stack_item t 0 ?s = Some (a, ?s)"
    using in_kernel_stack_item [OF t(1) assms(7), of frame] assms(4,8,9) by simp_all
  then have run: "run_command Sum ?s = Some (Returns (a + b), ?s)"
    using assms(4) by (simp add: sum_command_def returning_def get_current_task_def)
  have "tasks ?s (current_task ?s) = Some ?x" using t(1) by (simp add: in_kernel_tasks)
  from system_call_returns [OF t(2,1) cmd _ _ run this] show ?thesis
    using assms(4,7) t(1) by (intro exI [of _ ?x] exI [of _ "paging_switch (page_directory ?x) (user_registers ?s)"])
      (simp add: in_kernel_tasks switch_defs)
qed

text \<open>
  C20: a key from the kernel.  Command 3 returns the first key that waits for the current
  process, sign-extended, and removes it, or 0 when there is none; the memory does not change
  and the address space of the task is loaded again.
\<close>

theorem system_call_getkey:
  fixes st :: "'a kernel_state_scheme"
  assumes "isr80h_commands st0 = replicate 1024 None" "register_system_commands st0 = Some st1"
    and "isr80h_commands st = isr80h_commands st1" "tasks st (current_task st) = Some x"
    and "keyboard_ok st" "keys_seen st < 1024"
  shows "\<exists>st'. isr80h_handler 3 frame st =
      Some (Returns (case pending_keys st of [] \<Rightarrow> 0 | c # cs \<Rightarrow> scast c), st') \<and>
    pending_keys st' = tl (pending_keys st) \<and> keyboard_ok st' \<and> keys_seen st' = keys_seen st \<and>
    mem st' = mem st \<and> cr3 st' = read32 (mem st) (page_directory x)"
proof -
  obtain kb where h: "isr80h_handler 3 frame st = Some (Returns (case pending_keys st of [] \<Rightarrow> 0 | c # cs \<Rightarrow> scast c),
      paging_switch (page_directory x) (user_registers (set_buffer kb (in_kernel frame st))))"
    "kb_ok kb" "kb_keys kb = tl (pending_keys st)" "kb_tail kb = kb_tail (current_buffer st)"
    by (rule getkey_returns [OF registered_commands [OF assms(1-3)] assms(4-6)])
  let ?s = "set_buffer kb (in_kernel frame st)"
  have "keyboard_ok (in_kernel frame st)" using assms(4,5) by (simp add: keyboard_ok_def in_kernel_tasks)
  note b = set_buffer_simps(1) [of kb "in_kernel frame st"] set_buffer_simps(2) [OF this h(2)]
  have user: "current_buffer (paging_switch p (user_registers s)) = current_buffer s"
    "keyboard_ok (paging_switch p (user_registers s)) = keyboard_ok s" "mem (paging_switch p (user_registers s)) = mem s"
    "cr3 (paging_switch p (user_registers s)) = read32 (mem s) p" for p and s :: "'a kernel_state_scheme"
    by (simp_all add: current_buffer_def keyboard_ok_def switch_defs)
  have "mem ?s = mem st" by (simp add: set_buffer_def)
  then show ?thesis using h b by (simp add: user pending_keys_def keys_seen_def)
qed


text \<open>
  C22: memory for a program.  Command 4 from a task of a process with a free slot returns a
  pointer to fresh memory that the program reads as zeros through its own address space, which
  is loaded when the call returns.
\<close>

theorem system_call_malloc:
  fixes st :: "'a kernel_state_scheme"
  assumes "isr80h_commands st0 = replicate 1024 None" "register_system_commands st0 = Some st1"
    and "isr80h_commands st = isr80h_commands st1" "current_task st \<noteq> 0" "tasks st (current_task st) = Some t"
    and "dir = read32 (mem st) (page_directory t)"
    and "vread32 (frame_esp frame) (st\<lparr>cr3 := dir\<rparr>) = Some sz" "0 < unat sz" "unat sz \<le> 4096"
    and "processes st (task_process t) = Some pr" "proc_task pr = current_task st"
    and "kheap_ok st" "0 < kheap_avail st" "owned_space st (page_directory t)" "0 \<in> alloc_ptr ` set (allocations pr)"
  shows "\<exists>ptr st'. isr80h_handler 4 frame st = Some (Returns ptr, st') \<and> ptr \<noteq> 0 \<and> kheap_ok st' \<and>
    kheap_live st' = insert (ptr, 4096) (kheap_live st) \<and>
    (\<forall>(q, k) \<in> kheap_live st. region ptr 4096 \<inter> region q k = {}) \<and>
    (\<forall>k < unat sz. vread8 (ptr + of_nat k) st' = Some 0) \<and> current_task st' = current_task st"
proof -
  let ?s = "in_kernel frame st" and ?t = "saved_task frame t"
  have cmd: "isr80h_commands st ! nat 4 = Some MallocCommand"
    using registered_commands [OF assms(1-3)] by (simp add: system_commands_def numeral_eq_Suc)
  have it: "task_get_stack_item (current_task st) 0 ?s = Some (sz, ?s)"
    using in_kernel_stack_item [OF assms(5,6), of frame 0 sz] assms(7) by simp
  have h: "kheap_ok ?s" "0 < kheap_avail ?s" "processes ?s (task_process t) = Some pr" "tasks ?s (proc_task pr) = Some ?t"
    "owned_space ?s (page_directory t)" "kheap_live ?s = kheap_live st"
    using assms(5,10-14) by (simp_all add: in_kernel_tasks in_kernel_heap)
  obtain ptr m ps where p: "process_malloc (task_process t) sz ?s = Some (ptr, ?s\<lparr>mem := m, processes := ps\<rparr>)"
    "ptr \<noteq> 0" "unat ptr mod 4096 = 0" "kheap_ok (?s\<lparr>mem := m\<rparr>)" "kheap_live (?s\<lparr>mem := m\<rparr>) = insert (ptr, 4096) (kheap_live ?s)"
    "\<And>q k. (q, k) \<in> kheap_live ?s \<Longrightarrow> region ptr 4096 \<inter> region q k = {}"
    "\<And>a. a \<in> region ptr (unat sz) \<Longrightarrow> m a = 0"
    "\<And>w. get_page m (read32 m (page_directory t)) w =
       page_entries ptr (sint sz) 7 w (get_page (mem ?s) (read32 (mem ?s) (page_directory t)) w)"
    by (rule process_malloc_spec [OF h(1-4) _ h(5) assms(8,9,15) refl]) (simp, rule that)
  let ?s' = "?s\<lparr>mem := m, processes := ps\<rparr>"
  have run: "run_command MallocCommand ?s = Some (Returns ptr, ?s')"
    using it p(1) assms(5) by (simp add: isr80h_malloc_command_def returning_def get_current_task_def in_kernel_tasks)
  have ts: "tasks ?s' (current_task ?s') = Some ?t" using assms(5) by (simp add: in_kernel_tasks)
  let ?st' = "paging_switch (page_directory ?t) (user_registers ?s')"
  have sz: "0 \<le> sint sz" using assms(9) sint_eq_uint_small [of sz] by (simp only: of_nat_0_le_iff)
  have "vread8 (ptr + of_nat k) ?st' = Some 0" if "k < unat sz" for k
    using p(7) region_add [of k "unat sz" ptr] mmu_near(1) [OF _ sz p(3,8), of k] that assms(9)
    by (simp add: vread8_def switch_defs)
  moreover have "kheap_ok ?st'" "kheap_live ?st' = insert (ptr, 4096) (kheap_live st)"
    using p(4,5) h(6) by (simp_all add: switch_defs kheap_defs)
  moreover have "\<forall>(q, k) \<in> kheap_live st. region ptr 4096 \<inter> region q k = {}" using p(6) h(6) by blast
  moreover have "current_task ?st' = current_task st" by (simp add: switch_defs)
  ultimately show ?thesis
    using system_call_returns [OF assms(4,5) cmd _ _ run ts] p(2) by (intro exI [of _ ptr] exI [of _ ?st']) simp
qed

lemma identity_mmu:
  assumes "\<And>v. get_page m dir v = (v - v mod 4096) OR 7"
  shows "mmu m dir v = Some v"
proof -
  have al: "unat (v - v mod 4096) mod 4096 = 0" by (simp only: page_base_unat mod_mult_self1_is_0)
  have "bit (((v - v mod 4096) OR 7) AND 1) 0" by (simp add: bit_simps)
  then have "((v - v mod 4096) OR 7) AND 1 \<noteq> 0" by (metis bit_0_eq bot_apply bot_bool_def)
  moreover have "((v - v mod 4096) OR 7) AND 0xfffff000 = v - v mod 4096" by (rule page_mask_low [OF al]) simp
  ultimately show ?thesis by (simp add: mmu_def assms)
qed

lemma identity_vread32:
  assumes "\<And>v. get_page (mem st) (cr3 st) v = (v - v mod 4096) OR 7"
  shows "vread32 v st = Some (read32 (mem st) v)"
  using identity_mmu [of "mem st" "cr3 st", OF assms] by (simp add: vread32_def vread8_def read32_def)

lemma kernel_state_ex_fields:
  "kheap_ok kernel_state_ex" "kheap_avail kernel_state_ex = 25600" "isr80h_commands kernel_state_ex = replicate 1024 None"
proof -
  have "kernel_heap kernel_state_ex = kernel_heap process_state_ex" "mem kernel_state_ex = mem process_state_ex"
    by (simp_all add: kernel_state_ex_def screen_state_ex_def keyboard_state_ex_def screen_state.defs keyboard_state.defs process_state.defs)
  then show "kheap_ok kernel_state_ex" "kheap_avail kernel_state_ex = 25600"
    using process_state_ex_heap by (simp_all add: kheap_ok_def kheap_avail_def)
qed (simp add: kernel_state_ex_def screen_state.defs kernel_state.defs)

text \<open>The witness: the key \<open>a\<close> waits for the process of the only task.\<close>

definition key_state_ex :: kernel_state where
  "key_state_ex = (set_buffer \<lparr>kb_head = 0, kb_tail = 1, kb_buffer = 0x61 # replicate 1023 0\<rparr> kernel_state_ex)
     \<lparr>isr80h_commands := system_commands\<rparr>"

lemma key_state_ex_ok:
  "keyboard_ok key_state_ex" "pending_keys key_state_ex = [0x61]" "keys_seen key_state_ex = 1"
  "tasks key_state_ex (current_task key_state_ex) = Some ((task_ex 0 0)\<lparr>task_process := 0x700\<rparr>)"
proof -
  let ?kb = "\<lparr>kb_head = 0, kb_tail = 1, kb_buffer = 0x61 # replicate 1023 0\<rparr> :: KeyboardBuffer"
  have f: "processes kernel_state_ex = [0x700 \<mapsto> zero_process]" "current_process kernel_state_ex = 0x700"
    "tasks kernel_state_ex = [0x600 \<mapsto> (task_ex 0 0)\<lparr>task_process := 0x700\<rparr>]" "current_task kernel_state_ex = 0x600"
    by (simp_all add: kernel_state_ex_def screen_state_ex_def keyboard_state_ex_def screen_state.defs
      keyboard_state.defs process_state.defs)
  have kb: "kb_ok ?kb" by (auto simp: kb_ok_def nth_Cons split: nat.splits)
  have b: "current_buffer key_state_ex = ?kb" by (simp add: key_state_ex_def current_buffer_def set_buffer_def)
  show "keyboard_ok key_state_ex" using kb f by (simp add: key_state_ex_def keyboard_ok_def set_buffer_def)
  show "pending_keys key_state_ex = [0x61]" "keys_seen key_state_ex = 1"
    by (simp_all add: pending_keys_def keys_seen_def kb_keys_def b)
  show "tasks key_state_ex (current_task key_state_ex) = Some ((task_ex 0 0)\<lparr>task_process := 0x700\<rparr>)"
    using f by (simp add: key_state_ex_def set_buffer_def)
qed

theorem system_call_getkey_witness:
  "\<exists>frame st'. isr80h_handler 3 frame key_state_ex = Some (Returns 0x61, st') \<and> pending_keys st' = []"
proof -
  have c: "isr80h_commands key_state_ex = isr80h_commands (kernel_state_ex\<lparr>isr80h_commands := system_commands\<rparr>)"
    by (simp add: key_state_ex_def)
  have n: "keys_seen key_state_ex < 1024" by (simp add: key_state_ex_ok(3))
  from system_call_getkey [OF kernel_state_ex_fields(3) register_system_commands_table [OF kernel_state_ex_fields(3)]
      c key_state_ex_ok(4,1) n] show ?thesis by (fastforce simp: key_state_ex_ok(2))
qed

text \<open>The witness: the screen of the terminal and a task with the letter \<open>A\<close> on its stack.\<close>

definition putchar_state_ex :: kernel_state where
  "putchar_state_ex = kernel_state_ex\<lparr>mem := screen_mem, tasks := [0x600 \<mapsto> (task_ex 0 0)\<lparr>page_directory := 0x9000\<rparr>],
     current_task := 0x600, isr80h_commands := system_commands\<rparr>"


text \<open>The witness: a task with an identity address space and an empty table of allocations.\<close>

theorem system_call_malloc_witness:
  "\<exists>(st :: kernel_state) frame ptr st'. isr80h_handler 4 frame st = Some (Returns ptr, st') \<and> ptr \<noteq> 0 \<and>
     vread8 ptr st' = Some 0"
proof -
  obtain page s where c: "paging_new_chunk 7 kernel_state_ex = (page, s)" by (rule prod.exhaust)
  have av: "1026 \<le> kheap_avail kernel_state_ex" using kernel_state_ex_fields(2) by simp
  note sp = paging_new_chunk_spec [OF kernel_state_ex_fields(1) av c]
  define x where "x = (task_ex 0 0)\<lparr>page_directory := page, task_process := 0x700\<rparr>"
  define pr where "pr = zero_process\<lparr>proc_task := 0x600\<rparr>"
  define st where "st = s\<lparr>tasks := [0x600 \<mapsto> x], current_task := 0x600, processes := [0x700 \<mapsto> pr],
    isr80h_commands := system_commands\<rparr>"
  let ?dir = "read32 (mem st) (page_directory x)"
  define tab where "tab = read32 (mem st) ?dir AND 0xfffff000"
  have gp: "get_page (mem st) ?dir v = (v - v mod 4096) OR 7" for v using sp(7) [of v] by (simp add: st_def x_def)
  then have id: "get_page (mem (st\<lparr>cr3 := ?dir\<rparr>)) (cr3 (st\<lparr>cr3 := ?dir\<rparr>)) v = (v - v mod 4096) OR 7" for v by simp
  have "read32 (mem st) tab = get_page (mem st) ?dir 0" by (simp add: get_page_def paging_get_index_def tab_def)
  also have "\<dots> = 7" unfolding gp by simp
  finally have seven: "read32 (mem st) tab = 7" .
  define frame where "frame = frame_ex tab"
  have v: "vread32 (frame_esp frame) (st\<lparr>cr3 := ?dir\<rparr>) = Some 7"
    using identity_vread32 [OF id, of tab] seven by (simp add: frame_def frame_ex_def)
  have h: "current_task st \<noteq> 0" "tasks st (current_task st) = Some x" "processes st (task_process x) = Some pr"
    "proc_task pr = current_task st" "0 \<in> alloc_ptr ` set (allocations pr)" "0 < unat (7 :: u32)" "unat (7 :: u32) \<le> 4096"
    "isr80h_commands st = isr80h_commands (kernel_state_ex\<lparr>isr80h_commands := system_commands\<rparr>)"
    by (simp_all add: st_def x_def pr_def zero_process_def)
  have k: "kheap_ok st" "0 < kheap_avail st" "owned_space st (page_directory x)"
    using sp(1-4) kernel_state_ex_fields(2) by (auto simp: st_def x_def kheap_defs owned_space_def)
  obtain ptr st' where "isr80h_handler 4 frame st = Some (Returns ptr, st')" "ptr \<noteq> 0"
    "\<forall>k < unat (7 :: u32). vread8 (ptr + of_nat k) st' = Some 0"
    using system_call_malloc [OF kernel_state_ex_fields(3) register_system_commands_table [OF kernel_state_ex_fields(3)]
      h(8,1,2) refl v h(6,7,3,4) k h(5)] by (elim exE conjE) (rule that)
  then show ?thesis by (intro exI [of _ st] exI [of _ frame] exI [of _ ptr] exI [of _ st']) force
qed

end
