(* ===== verification/Zhios_Syslib.thy ===== *)
theory Zhios_Syslib
  imports Zhios_String
begin

text \<open>
  The user library under \<^verbatim>\<open>src/syslib\<close> and the programs \<^verbatim>\<open>shell\<close> and \<^verbatim>\<open>blank\<close>, seen from a
  process.  \<open>umem\<close> is the address space of the process.  A system call is an event in the
  history \<open>calls\<close>, with its code, the word it pushes and the memory at that moment; the field
  \<open>kernel\<close> answers it from the history with the value of \<^verbatim>\<open>eax\<close> and the memory that the process
  finds afterwards.  What the theorems assume of it is named (\<open>keeps_memory\<close>, \<open>delivers\<close>);
  \<open>Zhios_System\<close> shows it of the handlers of the calls.
  Static and local arrays and string literals are at addresses that are fields.
\<close>

section \<open>System calls\<close>

datatype call = Call (call_code: u32) (call_arg: "u32 option") (call_mem: memory)

record user_state =
  umem :: memory
  calls :: "call list"
  kernel :: "call list \<Rightarrow> u32 \<times> memory"
  itoa_text :: addr
  parse_temp :: addr
  parse_tokens :: addr

definition int80 :: "u32 \<Rightarrow> u32 option \<Rightarrow> 'a user_state_scheme \<Rightarrow> u32 \<times> 'a user_state_scheme" where
  "int80 code arg u =
     (let h = calls u @ [Call code arg (umem u)]; (v, m) = kernel u h
      in (v, u\<lparr>calls := h, umem := m\<rparr>))"

definition user_print :: "addr \<Rightarrow> 'a user_state_scheme \<Rightarrow> 'a user_state_scheme" where
  "user_print message u = snd (int80 1 (Some message) u)"

text \<open>A \<^verbatim>\<open>char\<close> argument is widened with its sign; a \<^verbatim>\<open>char\<close> result is the low byte of \<^verbatim>\<open>eax\<close>.\<close>

definition system_putchar :: "u8 \<Rightarrow> 'a user_state_scheme \<Rightarrow> 'a user_state_scheme" where
  "system_putchar c u = snd (int80 2 (Some (scast c)) u)"

definition system_getchar :: "'a user_state_scheme \<Rightarrow> u8 \<times> 'a user_state_scheme" where
  "system_getchar u = (let (v, u') = int80 3 None u in (ucast v, u'))"

definition system_malloc :: "u32 \<Rightarrow> 'a user_state_scheme \<Rightarrow> addr \<times> 'a user_state_scheme" where
  "system_malloc sz u = int80 4 (Some sz) u"

definition system_free :: "addr \<Rightarrow> 'a user_state_scheme \<Rightarrow> 'a user_state_scheme" where
  "system_free ptr u = snd (int80 5 (Some ptr) u)"

definition system_start_process :: "addr \<Rightarrow> 'a user_state_scheme \<Rightarrow> 'a user_state_scheme" where
  "system_start_process filename u = snd (int80 6 (Some filename) u)"

definition system_exit_process :: "'a user_state_scheme \<Rightarrow> 'a user_state_scheme" where
  "system_exit_process u = snd (int80 7 None u)"

section \<open>stdlib.c and proc.c\<close>

text \<open>
  The remainder and the quotient of C truncate towards zero, \<open>smod\<close> and \<open>sdiv\<close>.  The negation
  of the least number overflows.
\<close>

function itoa_loop :: "int \<Rightarrow> int \<Rightarrow> addr \<Rightarrow> memory \<Rightarrow> int \<times> memory" where
  "itoa_loop num loc tx m =
     (if num \<noteq> 0
      then itoa_loop (num sdiv 10) (loc - 1) tx (m(tx + of_int (loc - 1) := 48 + of_int (num smod 10)))
      else (loc, m))"
  by pat_completeness auto

termination itoa_loop
proof (relation "measure (\<lambda>(num, loc, tx, m). nat \<bar>num\<bar>)", goal_cases)
  case (2 num loc tx m)
  have "\<bar>num\<bar> div 10 < \<bar>num\<bar>" using 2 by simp
  then show ?case by (simp add: signed_divide_int_def abs_mult abs_sgn_eq)
qed simp

declare itoa_loop.simps [simp del]

definition itoa :: "int \<Rightarrow> 'a user_state_scheme \<Rightarrow> (addr \<times> 'a user_state_scheme) option" where
  "itoa num u =
     (let tx = itoa_text u; m0 = (umem u)(tx + 11 := 0); is_negative = num < 0 in
      if num = - 2147483648 then None
      else (let (loc1, m1) = itoa_loop (if is_negative then - num else num) 11 tx m0;
                (loc2, m2) = (if loc1 = 11 then (10, m1(tx + 10 := 48)) else (loc1, m1));
                (loc3, m3) = (if is_negative then (loc2 - 1, m2(tx + of_int (loc2 - 1) := 45)) else (loc2, m2))
            in Some (tx + of_int loc3, u\<lparr>umem := m3\<rparr>)))"

definition malloc :: "u32 \<Rightarrow> 'a user_state_scheme \<Rightarrow> addr \<times> 'a user_state_scheme" where
  "malloc sz u = system_malloc sz u"

definition free :: "addr \<Rightarrow> 'a user_state_scheme \<Rightarrow> 'a user_state_scheme" where
  "free ptr u = system_free ptr u"

definition start_process :: "addr \<Rightarrow> 'a user_state_scheme \<Rightarrow> int \<times> 'a user_state_scheme" where
  "start_process filename u = (0, system_start_process filename u)"

definition exit_process :: "'a user_state_scheme \<Rightarrow> 'a user_state_scheme" where
  "exit_process u = system_exit_process u"

section \<open>stdio.c\<close>

definition putchar :: "u8 \<Rightarrow> 'a user_state_scheme \<Rightarrow> 'a user_state_scheme" where
  "putchar c u = system_putchar c u"

text \<open>The loop polls until there is a key.\<close>

partial_function (option) getchar :: "'a user_state_scheme \<Rightarrow> (u8 \<times> 'a user_state_scheme) option" where
  "getchar u = (let (val, u1) = system_getchar u in if val = 0 then getchar u1 else Some (val, u1))"

text \<open>
  The variable arguments are a list of words; to take one more than there are has no value.
  After a percent sign the next character is consumed whatever it is, also the NUL.
\<close>

definition printf_directive ::
  "u8 \<Rightarrow> u32 list \<Rightarrow> 'a user_state_scheme \<Rightarrow> (u32 list \<times> 'a user_state_scheme) option" where
  "printf_directive c ap u =
     (if c = 0x64 then (case ap of [] \<Rightarrow> None
        | v # vs \<Rightarrow> do { (p, u1) \<leftarrow> itoa (sint v) u; Some (vs, user_print p u1) })
      else if c = 0x73 then (case ap of [] \<Rightarrow> None | v # vs \<Rightarrow> Some (vs, user_print v u))
      else if c = 0x63 then (case ap of [] \<Rightarrow> None | v # vs \<Rightarrow> Some (vs, putchar (ucast v) u))
      else Some (ap, putchar c u))"

partial_function (option) printf_loop ::
  "addr \<Rightarrow> u32 list \<Rightarrow> 'a user_state_scheme \<Rightarrow> 'a user_state_scheme option" where
  "printf_loop p ap u =
     (if umem u p = 0 then Some u
      else if umem u p \<noteq> 0x25 then printf_loop (p + 1) ap (putchar (umem u p) u)
      else do {
        (ap1, u1) \<leftarrow> printf_directive (umem u (p + 1)) ap u;
        printf_loop (p + 2) ap1 u1 })"

definition printf :: "addr \<Rightarrow> u32 list \<Rightarrow> 'a user_state_scheme \<Rightarrow> (int \<times> 'a user_state_scheme) option" where
  "printf fmt ap u = do { u1 \<leftarrow> printf_loop fmt ap u; Some (0, u1) }"

partial_function (option) read_line_loop ::
  "addr \<Rightarrow> int \<Rightarrow> bool \<Rightarrow> int \<Rightarrow> 'a user_state_scheme \<Rightarrow> (int \<times> 'a user_state_scheme) option" where
  "read_line_loop buffer mx echo_key i u =
     (if i < mx
      then do {
        (key, u1) \<leftarrow> getchar u;
        if key = 13 then Some (i, u1)
        else (let u2 = (if echo_key then putchar key u1 else u1) in
              if key = 8 \<and> i \<ge> 1
              then read_line_loop buffer mx echo_key (i - 2 + 1) (u2\<lparr>umem := (umem u2)(buffer + of_int (i - 1) := 0)\<rparr>)
              else read_line_loop buffer mx echo_key (i + 1) (u2\<lparr>umem := (umem u2)(buffer + of_int i := key)\<rparr>)) }
      else Some (i, u))"

definition read_line :: "addr \<Rightarrow> int \<Rightarrow> bool \<Rightarrow> 'a user_state_scheme \<Rightarrow> 'a user_state_scheme option" where
  "read_line buffer mx echo_key u = do {
     (i, u1) \<leftarrow> read_line_loop buffer mx echo_key 0 u;
     Some (u1\<lparr>umem := (umem u1)(buffer + of_int i := 0)\<rparr>) }"

section \<open>argparser.c\<close>

text \<open>A \<^verbatim>\<open>CommandArgument\<close> is 512 bytes of text and, at offset 512, the link to the next.\<close>

definition next_argument :: "memory \<Rightarrow> addr \<Rightarrow> addr" where
  "next_argument m a = read32 m (a + 512)"

fun arg_parse_loop :: "nat \<Rightarrow> nat \<Rightarrow> addr \<Rightarrow> addr \<Rightarrow> addr \<Rightarrow> memory \<Rightarrow> memory option" where
  "arg_parse_loop i 0 tokens current prev m = Some m"
| "arg_parse_loop i (Suc left) tokens current prev m = do {
     m1 \<leftarrow> strcpy m (read32 m (tokens + 4 * of_nat i)) current;
     let m2 = (if prev \<noteq> 0 then write32 m1 (prev + 512) current else m1);
     arg_parse_loop (Suc i) left tokens (current + 516) current m2 }"

definition arg_parse :: "addr \<Rightarrow> int \<Rightarrow> 'a user_state_scheme \<Rightarrow> (addr \<times> 'a user_state_scheme) option" where
  "arg_parse command len u = do {
     m1 \<leftarrow> strcpy (umem u) command (parse_temp u);
     (tokens_count, m2) \<leftarrow> str_token m1 (parse_temp u) (parse_tokens u) 0x20;
     let (current, u2) = malloc (516 * of_nat tokens_count) (u\<lparr>umem := m2\<rparr>);
     m3 \<leftarrow> arg_parse_loop 0 tokens_count (parse_tokens u) current 0 (umem u2);
     Some (current, u2\<lparr>umem := m3\<rparr>) }"

section \<open>The programs\<close>

text \<open>Addresses of the literals and local arrays of the two programs.\<close>

record program_state = user_state +
  lit_banner :: addr
  lit_argc_stack :: addr
  lit_prompt :: addr
  lit_newline :: addr
  line_buffer :: addr
  lit_argc :: addr
  lit_arg :: addr
  lit_arrow :: addr
  hello_str :: addr

definition shell_round :: "'a program_state_scheme \<Rightarrow> 'a program_state_scheme option" where
  "shell_round u = do {
     let u1 = user_print (lit_prompt u) u;
     u2 \<leftarrow> read_line (line_buffer u1) 1024 True u1;
     let u3 = user_print (lit_newline u2) u2;
     let (res, u4) = start_process (line_buffer u3) u3;
     Some (user_print (lit_newline u4) u4) }"

text \<open>The shell reads commands for ever.\<close>

partial_function (option) shell_loop :: "'a program_state_scheme \<Rightarrow> 'a program_state_scheme option" where
  "shell_loop u = do { u1 \<leftarrow> shell_round u; shell_loop u1 }"

definition shell_main :: "u32 \<Rightarrow> addr \<Rightarrow> 'a program_state_scheme \<Rightarrow> 'a program_state_scheme option" where
  "shell_main argc argv u = do {
     let u1 = user_print (lit_banner u) u;
     (res, u2) \<leftarrow> printf (lit_argc_stack u1) [argc, read32 (umem u1) (0x3ff000 - 4)] u1;
     shell_loop u2 }"

fun print_arguments :: "nat \<Rightarrow> nat \<Rightarrow> addr \<Rightarrow> 'a program_state_scheme \<Rightarrow> 'a program_state_scheme option" where
  "print_arguments i 0 argv u = Some u"
| "print_arguments i (Suc left) argv u = do {
     (res, u1) \<leftarrow> printf (lit_arg u) [of_nat i, read32 (umem u) (argv + 4 * of_nat i)] u;
     print_arguments (Suc i) left argv u1 }"

partial_function (option) print_list :: "addr \<Rightarrow> 'a program_state_scheme \<Rightarrow> 'a program_state_scheme option" where
  "print_list current u =
     (if current = 0 then Some u
      else do {
        (res, u1) \<leftarrow> printf (lit_arrow u) [current] u;
        print_list (next_argument (umem u1) current) u1 })"

definition blank_main :: "int \<Rightarrow> addr \<Rightarrow> 'a program_state_scheme \<Rightarrow> (int \<times> 'a program_state_scheme) option" where
  "blank_main argc argv u = do {
     let u0 = u\<lparr>umem := store (umem u) (hello_str u)
       [0x48, 0x65, 0x6C, 0x6C, 0x6F, 0x20, 0x66, 0x72, 0x6F, 0x6D, 0x20, 0x63, 0]\<rparr>;
     (r1, u1) \<leftarrow> printf (lit_argc u0) [of_int argc] u0;
     u2 \<leftarrow> print_arguments 0 (nat argc) argv u1;
     len \<leftarrow> strlen (umem u2) (hello_str u2);
     (root, u3) \<leftarrow> arg_parse (hello_str u2) (int len) u2;
     u4 \<leftarrow> print_list root u3;
     (r5, u5) \<leftarrow> printf (lit_newline u4) [] u4;
     Some (0, u5) }"

text \<open>The entry point of every program calls \<^verbatim>\<open>main\<close> and then ends the process.\<close>

definition start ::
  "('a program_state_scheme \<Rightarrow> (int \<times> 'a program_state_scheme) option) \<Rightarrow> 'a program_state_scheme \<Rightarrow>
    'a program_state_scheme option" where
  "start main u = do { (res, u1) \<leftarrow> main u; Some (system_exit_process u1) }"

section \<open>Decimal numbers\<close>

text \<open>The reference for \<open>itoa\<close>: the digits of a number, and how they are read.\<close>

fun digits :: "nat \<Rightarrow> u8 list" where
  "digits n = (if n < 10 then [48 + of_nat n] else digits (n div 10) @ [48 + of_nat (n mod 10)])"

definition decimal :: "int \<Rightarrow> u8 list" where
  "decimal n = (if n < 0 then 45 # digits (nat (- n)) else digits (nat n))"

definition number :: "u8 list \<Rightarrow> nat" where
  "number s = foldl (\<lambda>v c. 10 * v + unat (c - 48)) 0 s"

fun read_decimal :: "u8 list \<Rightarrow> int" where
  "read_decimal (c # s) = (if c = 45 then - int (number s) else int (number (c # s)))"
| "read_decimal [] = 0"

declare digits.simps [simp del]

lemma digits_not_Nil [simp]: "digits n \<noteq> []"
  by (subst digits.simps) simp

lemma digit_range: "c \<in> set (digits n) \<Longrightarrow> \<exists>d < 10. c = 48 + of_nat d"
proof (induction n rule: digits.induct)
  case (1 n)
  show ?case
  proof (cases "n < 10")
    case True
    then show ?thesis using 1 by (subst (asm) digits.simps) auto
  next
    case False
    then have "c \<in> set (digits (n div 10)) \<or> c = 48 + of_nat (n mod 10)"
      using 1(2) by (subst (asm) digits.simps) auto
    then show ?thesis using 1(1) [OF False] by (auto intro: exI [of _ "n mod 10"])
  qed
qed

lemma digit_value: "d < 10 \<Longrightarrow> unat (48 + of_nat d :: u8) = 48 + d"
  by (simp add: unat_word_ariths unat_of_nat)

lemma digits_byte: "c \<in> set (digits n) \<Longrightarrow> c \<noteq> 0 \<and> c \<noteq> 45"
proof -
  assume "c \<in> set (digits n)"
  then obtain d where "d < 10" "c = 48 + of_nat d" using digit_range by blast
  then have "unat c = 48 + d" using digit_value by simp
  then show ?thesis by auto
qed

lemma number_digits [simp]: "number (digits n) = n"
proof (induction n rule: digits.induct)
  case (1 n)
  have v: "unat (of_nat d :: u8) = d" if "d < 10" for d using that by (simp add: unat_of_nat)
  show ?case
  proof (cases "n < 10")
    case True
    then show ?thesis using v by (subst digits.simps) (simp add: number_def)
  next
    case False
    then have "number (digits n) = 10 * number (digits (n div 10)) + n mod 10"
      using v [of "n mod 10"] by (subst digits.simps) (simp add: number_def)
    then show ?thesis using 1 [OF False] by simp
  qed
qed

lemma digits_length: "n < 10 ^ k \<Longrightarrow> 0 < k \<Longrightarrow> length (digits n) \<le> k"
proof (induction k arbitrary: n)
  case (Suc k)
  show ?case
  proof (cases "n < 10")
    case True
    then show ?thesis by (subst digits.simps) simp
  next
    case False
    then have "0 < k" using Suc.prems(1) by (cases k) auto
    moreover have "n div 10 < 10 ^ k" using Suc.prems(1) by (simp add: less_mult_imp_div_less mult.commute)
    ultimately show ?thesis using Suc.IH False by (subst digits.simps) simp
  qed
qed simp

lemma read_decimal_decimal: "read_decimal (decimal n) = n"
proof (cases "n < 0")
  case True
  then show ?thesis by (simp add: decimal_def)
next
  case False
  obtain c s where cs: "digits (nat n) = c # s" by (cases "digits (nat n)") simp_all
  then have "c \<noteq> 45" using digits_byte [of c "nat n"] by simp
  then show ?thesis using False cs number_digits [of "nat n"] by (simp add: decimal_def)
qed

lemma decimal_length:
  assumes "- 2147483648 < n" "n < 2147483648"
  shows "length (decimal n) \<le> 11" "0 \<le> n \<Longrightarrow> length (decimal n) \<le> 10"
proof -
  have "nat \<bar>n\<bar> < 10 ^ 10" using assms by simp
  from digits_length [OF this] show "length (decimal n) \<le> 11" "0 \<le> n \<Longrightarrow> length (decimal n) \<le> 10"
    by (auto simp: decimal_def abs_if split: if_splits)
qed

lemma decimal_nonzero: "0 \<notin> set (decimal n)"
  using digits_byte by (auto simp: decimal_def)

lemma store_upd_after:
  assumes "length bs < 4294967296"
  shows "store (m(p + of_nat (length bs) := d)) p bs = store m p (bs @ [d])"
proof
  fix a
  have "a = p + of_nat (length bs) \<longleftrightarrow> unat (a - p) = length bs" using assms by (simp add: region_offset)
  then show "store (m(p + of_nat (length bs) := d)) p bs a = store m p (bs @ [d]) a"
    using assms by (auto simp: store_eq region_def nth_append)
qed

lemma store_upd_before:
  assumes "length bs < 4294967295"
  shows "(store m (p + 1) bs)(p := b) = store m p (b # bs)"
proof
  fix a
  have "unat (p - (p + 1)) = 4294967295" by (simp add: unsigned_minus_1_eq_mask mask_eq_exp_minus_1)
  then show "((store m (p + 1) bs)(p := b)) a = store m p (b # bs) a"
    using assms by (auto simp: store_eq region_def)
qed

lemma itoa_loop_digits:
  assumes "0 < n" "length (digits n) \<le> loc" "loc < 4294967296"
  shows "itoa_loop (int n) (int loc) tx m =
    (int (loc - length (digits n)), store m (tx + of_nat (loc - length (digits n))) (digits n))"
  using assms
proof (induction n arbitrary: loc m rule: digits.induct)
  case (1 n)
  have q: "int n sdiv 10 = int (n div 10)" "int n smod 10 = int (n mod 10)"
    by (simp_all add: signed_divide_int_def signed_modulo_int_def zdiv_int zmod_int sgn_if)
  have loc: "0 < loc" using 1(3) by (cases loc) simp_all
  then have l: "int loc - 1 = int (loc - 1)" by simp
  have step: "itoa_loop (int n) (int loc) tx m =
      itoa_loop (int (n div 10)) (int (loc - 1)) tx (m(tx + of_nat (loc - 1) := 48 + of_nat (n mod 10)))"
    using 1(2) by (subst itoa_loop.simps) (simp add: q l)
  show ?case
  proof (cases "n < 10")
    case True
    then have "digits n = [48 + of_nat n]" by (subst digits.simps) simp
    then show ?thesis unfolding step using True loc by (subst itoa_loop.simps) simp
  next
    case False
    let ?ds = "digits (n div 10)" and ?d = "48 + of_nat (n mod 10) :: u8"
    have ds: "digits n = ?ds @ [?d]" using False by (subst digits.simps) simp
    have len: "length ?ds \<le> loc - 1" using 1(3) ds by simp
    define k where "k = loc - length (digits n)"
    have k: "loc - 1 = k + length ?ds" using 1(3) ds by (simp add: k_def)
    have "itoa_loop (int (n div 10)) (int (loc - 1)) tx (m(tx + of_nat (loc - 1) := ?d)) =
        (int (loc - 1 - length ?ds), store (m(tx + of_nat (loc - 1) := ?d)) (tx + of_nat (loc - 1 - length ?ds)) ?ds)"
      using False len 1(4) by (intro 1(1)) simp_all
    moreover have "loc - 1 - length ?ds = k" using k by simp
    moreover have "tx + of_nat (loc - 1) = tx + of_nat k + of_nat (length ?ds)" by (simp only: k of_nat_add add.assoc)
    moreover have "store (m(tx + of_nat k + of_nat (length ?ds) := ?d)) (tx + of_nat k) ?ds = store m (tx + of_nat k) (digits n)"
      unfolding ds using len 1(4) by (intro store_upd_after) simp
    ultimately show ?thesis unfolding step k_def [symmetric] by (simp only:)
  qed
qed

lemma itoa_eq:
  assumes "- 2147483648 < num" "num < 2147483648"
    and "p = itoa_text u + of_nat (11 - length (decimal num))"
  shows "itoa num u = Some (p, u\<lparr>umem := store (umem u) p (decimal num @ [0])\<rparr>)"
proof -
  let ?tx = "itoa_text u" and ?n = "nat \<bar>num\<bar>" and ?ds = "digits (nat \<bar>num\<bar>)"
  define q where "q = ?tx + of_nat (11 - length ?ds)"
  have len: "length ?ds \<le> 10" using assms(1,2) by (intro digits_length) simp_all
  have n: "(if num < 0 then - num else num) = int ?n" by simp
  have q11: "?tx + 11 = q + of_nat (length ?ds)" using len by (simp add: q_def of_nat_diff)
  have fin: "store ((umem u)(?tx + 11 := 0)) q ?ds = store (umem u) q (?ds @ [0])"
    unfolding q11 using len by (intro store_upd_after) simp
  have body: "(let (loc1, m1) = itoa_loop (int ?n) 11 ?tx ((umem u)(?tx + 11 := 0))
      in if loc1 = 11 then (10, m1(?tx + 10 := 48)) else (loc1, m1)) = (int (11 - length ?ds), store (umem u) q (?ds @ [0]))"
  proof (cases "?n = 0")
    case True
    have "?ds = [48]" unfolding True by (subst digits.simps) simp
    moreover have "itoa_loop 0 11 ?tx ((umem u)(?tx + 11 := 0)) = (11, (umem u)(?tx + 11 := 0))" by (subst itoa_loop.simps) simp
    ultimately show ?thesis using True fin by (simp add: q_def fun_upd_twist)
  next
    case False
    then have "itoa_loop (int ?n) (int 11) ?tx ((umem u)(?tx + 11 := 0)) =
        (int (11 - length ?ds), store ((umem u)(?tx + 11 := 0)) q ?ds)"
      unfolding q_def using len by (intro itoa_loop_digits) simp_all
    moreover have "int (11 - length ?ds) \<noteq> 11" using len by (cases ?ds) simp_all
    ultimately show ?thesis using fin by simp
  qed
  obtain l m1 where lp: "itoa_loop (int ?n) 11 ?tx ((umem u)(?tx + 11 := 0)) = (l, m1)" by (rule prod.exhaust)
  note b = body [unfolded lp Let_def prod.case]
  have eq: "itoa num u = (let (loc3, m3) = (if num < 0
        then (int (11 - length ?ds) - 1, (store (umem u) q (?ds @ [0]))(?tx + of_int (int (11 - length ?ds) - 1) := 45))
        else (int (11 - length ?ds), store (umem u) q (?ds @ [0])))
      in Some (?tx + of_int loc3, u\<lparr>umem := m3\<rparr>))"
    using assms(1) unfolding itoa_def n Let_def lp prod.case b by simp
  show ?thesis
  proof (cases "num < 0")
    case False
    then have "decimal num = ?ds" by (simp add: decimal_def)
    then show ?thesis using False unfolding eq by (simp add: q_def assms(3))
  next
    case True
    then have d: "decimal num = 45 # ?ds" by (simp add: decimal_def)
    have p1: "q = p + 1" using len by (simp add: q_def assms(3) d of_nat_diff)
    have "store (umem u) p (decimal num @ [0]) = (store (umem u) q (?ds @ [0]))(p := 45)"
      unfolding p1 d using len by (simp add: store_upd_before)
    moreover have "?tx + of_int (int (11 - length ?ds) - 1) = p" using len by (simp add: assms(3) d of_nat_diff)
    ultimately show ?thesis using True unfolding eq by simp
  qed
qed

section \<open>What the kernel does for a process\<close>

text \<open>
  What a process relies on, from a history \<open>h\<close> of calls on.  \<open>keeps_memory C\<close>: as long as it makes
  only calls with codes in \<open>C\<close>, they leave its memory alone.  \<open>delivers\<close>: while it only writes
  characters and asks for keys, the answers to the latter are the bytes \<open>zs\<close>, in order, where
  0 says that there is no key yet.  \<open>waiting\<close> are the keys among such answers.  \<open>shown\<close> is the
  text that the calls of a history print.
\<close>

definition console :: "u32 set \<Rightarrow> call list \<Rightarrow> bool" where
  "console C t \<longleftrightarrow> call_code ` set t \<subseteq> C"

definition keeps_memory :: "u32 set \<Rightarrow> (call list \<Rightarrow> u32 \<times> memory) \<Rightarrow> call list \<Rightarrow> bool" where
  "keeps_memory C k h \<longleftrightarrow> (\<forall>t c. console C t \<and> call_code c \<in> C \<longrightarrow> snd (k (h @ t @ [c])) = call_mem c)"

definition keys_taken :: "call list \<Rightarrow> nat" where
  "keys_taken h = length (filter (\<lambda>c. call_code c = 3) h)"

definition delivers :: "(call list \<Rightarrow> u32 \<times> memory) \<Rightarrow> call list \<Rightarrow> u8 list \<Rightarrow> bool" where
  "delivers k h zs \<longleftrightarrow> (\<forall>t c. console {2, 3} t \<and> call_code c = 3 \<and> keys_taken t < length zs \<longrightarrow>
     fst (k (h @ t @ [c])) = scast (zs ! keys_taken t))"

definition waiting :: "u8 list \<Rightarrow> u8 list" where
  "waiting zs = filter (\<lambda>k. k \<noteq> 0) zs"

definition string_at :: "memory \<Rightarrow> addr \<Rightarrow> u8 list" where
  "string_at m p = (case strlen m p of None \<Rightarrow> [] | Some n \<Rightarrow> map (\<lambda>i. m (p + of_nat i)) [0..<n])"

definition call_output :: "call \<Rightarrow> u8 list" where
  "call_output c = (case call_arg c of None \<Rightarrow> []
     | Some a \<Rightarrow> if call_code c = 1 then string_at (call_mem c) a
                else if call_code c = 2 then [ucast a] else [])"

definition shown :: "call list \<Rightarrow> u8 list" where
  "shown h = concat (map call_output h)"

lemma string_at_cstr: "cstr m p s \<Longrightarrow> string_at m p = s"
  by (auto simp: string_at_def cstr_iff intro: nth_equalityI)

lemma history_simps [simp]:
  "shown [] = []" "shown (h @ t) = shown h @ shown t" "shown (c # t) = call_output c @ shown t"
  "keys_taken [] = 0" "keys_taken (h @ t) = keys_taken h + keys_taken t"
  "keys_taken (c # t) = (if call_code c = 3 then 1 else 0) + keys_taken t"
  "console C []" "console C (h @ t) \<longleftrightarrow> console C h \<and> console C t" "console C (c # t) \<longleftrightarrow> call_code c \<in> C \<and> console C t"
  by (auto simp: shown_def keys_taken_def console_def)

lemma keeps_memory_append: "keeps_memory C k h \<Longrightarrow> console C t \<Longrightarrow> keeps_memory C k (h @ t)"
  by (auto simp: keeps_memory_def) (metis append.assoc history_simps(8))

lemma delivers_append:
  assumes "delivers k h zs" "console {2, 3} t"
  shows "delivers k (h @ t) (drop (keys_taken t) zs)"
  unfolding delivers_def
proof (intro allI impI)
  fix t' c
  assume a: "console {2, 3} t' \<and> call_code c = 3 \<and> keys_taken t' < length (drop (keys_taken t) zs)"
  then have "console {2, 3} (t @ t') \<and> call_code c = 3 \<and> keys_taken (t @ t') < length zs" using assms(2) by auto
  then have "fst (k (h @ (t @ t') @ [c])) = scast (zs ! keys_taken (t @ t'))" using assms(1) unfolding delivers_def by blast
  moreover have "drop (keys_taken t) zs ! keys_taken t' = zs ! keys_taken (t @ t')" using a by (subst nth_drop) auto
  ultimately show "fst (k ((h @ t) @ t' @ [c])) = scast (drop (keys_taken t) zs ! keys_taken t')"
    by simp
qed

lemma int80_keeps:
  assumes "keeps_memory C (kernel u) (calls u)" "c \<in> C"
  shows "int80 c a u = (fst (kernel u (calls u @ [Call c a (umem u)])), u\<lparr>calls := calls u @ [Call c a (umem u)]\<rparr>)"
proof -
  have "console C [] \<and> call_code (Call c a (umem u)) \<in> C" using assms(2) by simp
  then have "snd (kernel u (calls u @ [] @ [Call c a (umem u)])) = call_mem (Call c a (umem u))"
    using assms(1) unfolding keeps_memory_def by blast
  then show ?thesis by (simp add: int80_def Let_def case_prod_beta)
qed

lemma user_print_eq:
  assumes "keeps_memory C (kernel u) (calls u)" "1 \<in> C"
  shows "user_print p u = u\<lparr>calls := calls u @ [Call 1 (Some p) (umem u)]\<rparr>"
  using int80_keeps [OF assms] by (simp add: user_print_def)

lemma scast_ucast_byte: "(ucast (scast (c :: u8) :: u32) :: u8) = c"
  by (rule bit_word_eqI) (simp add: bit_simps)

lemma putchar_eq:
  assumes "keeps_memory C (kernel u) (calls u)" "2 \<in> C"
  shows "putchar c u = u\<lparr>calls := calls u @ [Call 2 (Some (scast c)) (umem u)]\<rparr>"
  using int80_keeps [OF assms] by (simp add: putchar_def system_putchar_def)

lemma putchar_output [simp]: "call_output (Call 2 (Some (scast c)) m) = [c]"
  by (simp add: call_output_def scast_ucast_byte)

lemma getchar_next:
  assumes "keeps_memory {2, 3} (kernel u) (calls u)" "delivers (kernel u) (calls u) zs" "waiting zs = c # cs"
  shows "\<exists>t. getchar u = Some (c, u\<lparr>calls := calls u @ t\<rparr>) \<and> console {2, 3} t \<and>
    waiting (drop (keys_taken t) zs) = cs \<and> shown t = []"
  using assms
proof (induction zs arbitrary: u)
  case Nil
  then show ?case by (simp add: waiting_def)
next
  case (Cons z zs)
  let ?c = "Call 3 None (umem u)"
  have "console {2, 3} [] \<and> call_code ?c = 3 \<and> keys_taken [] < length (z # zs)" by simp
  then have "fst (kernel u (calls u @ [] @ [?c])) = scast ((z # zs) ! keys_taken [])"
    using Cons.prems(2) unfolding delivers_def by blast
  then have g: "system_getchar u = (z, u\<lparr>calls := calls u @ [?c]\<rparr>)"
    using int80_keeps [OF Cons.prems(1), of 3 None] by (simp add: system_getchar_def scast_ucast_byte)
  have out: "shown [?c] = []" by (simp add: call_output_def)
  show ?case
  proof (cases "z = 0")
    case False
    then have "getchar u = Some (z, u\<lparr>calls := calls u @ [?c]\<rparr>)" using g by (subst getchar.simps) simp
    then show ?thesis using False Cons.prems(3) out by (intro exI [of _ "[?c]"]) (simp add: waiting_def)
  next
    case True
    have "keeps_memory {2, 3} (kernel u) (calls u @ [?c])" using Cons.prems(1) by (intro keeps_memory_append) simp_all
    moreover have "delivers (kernel u) (calls u @ [?c]) zs" using delivers_append [OF Cons.prems(2), of "[?c]"] by simp
    moreover have "waiting zs = c # cs" using Cons.prems(3) True by (simp add: waiting_def)
    ultimately obtain t where "getchar (u\<lparr>calls := calls u @ [?c]\<rparr>) = Some (c, u\<lparr>calls := calls u @ ?c # t\<rparr>)"
      "console {2, 3} t" "waiting (drop (keys_taken t) zs) = cs" "shown t = []"
      using Cons.IH [of "u\<lparr>calls := calls u @ [?c]\<rparr>"] by auto
    moreover have "getchar u = getchar (u\<lparr>calls := calls u @ [?c]\<rparr>)" using g True by (subst getchar.simps) simp
    ultimately show ?thesis using out by (intro exI [of _ "?c # t"]) simp
  qed
qed

section \<open>Formatted output\<close>

text \<open>
  What a format means: \<open>formats m tx f ap out\<close> says that the format \<open>f\<close> with the arguments \<open>ap\<close>
  stands for the text \<open>out\<close>, where strings are read in \<open>m\<close> and lie outside the static array
  at \<open>tx\<close>.  A percent sign at the end of a format has no meaning.
\<close>

inductive formats :: "memory \<Rightarrow> addr \<Rightarrow> u8 list \<Rightarrow> u32 list \<Rightarrow> u8 list \<Rightarrow> bool" for m tx where
  ends: "formats m tx [] ap []"
| plain: "c \<noteq> 0x25 \<Longrightarrow> formats m tx s ap out \<Longrightarrow> formats m tx (c # s) ap (c # out)"
| number: "sint v \<noteq> - 2147483648 \<Longrightarrow> formats m tx s vs out \<Longrightarrow>
    formats m tx (0x25 # 0x64 # s) (v # vs) (decimal (sint v) @ out)"
| str: "cstr m v t \<Longrightarrow> region v (Suc (length t)) \<inter> region tx 12 = {} \<Longrightarrow> formats m tx s vs out \<Longrightarrow>
    formats m tx (0x25 # 0x73 # s) (v # vs) (t @ out)"
| char: "formats m tx s vs out \<Longrightarrow> formats m tx (0x25 # 0x63 # s) (v # vs) (ucast v # out)"
| other: "d \<notin> {0x64, 0x73, 0x63} \<Longrightarrow> formats m tx s ap out \<Longrightarrow> formats m tx (0x25 # d # s) ap (d # out)"

inductive_cases formats_ConsE: "formats m tx (c # s) ap out"

lemma sint_u32_bounds: "- 2147483648 \<le> sint (v :: u32)" "sint v < 2147483648"
  using sint_greater_eq [of v] sint_less [of v] by simp_all

definition same_outside :: "addr \<Rightarrow> memory \<Rightarrow> memory \<Rightarrow> bool" where
  "same_outside tx m m' \<longleftrightarrow> (\<forall>a. a \<notin> region tx 12 \<longrightarrow> m' a = m a)"

lemma cstr_same_outside:
  assumes "same_outside tx m m'" "cstr m p s" "region p (Suc (length s)) \<inter> region tx 12 = {}"
  shows "cstr m' p s"
  using assms(1,3) by (intro cstr_cong [OF assms(2)]) (auto simp: same_outside_def)

text \<open>One directive prints its text and touches only the static array.\<close>

definition directive_prints :: "u8 \<Rightarrow> u32 list \<Rightarrow> u32 list \<Rightarrow> u8 list \<Rightarrow> 'a user_state_scheme \<Rightarrow> bool" where
  "directive_prints d ap ap1 t u \<longleftrightarrow>
     (\<exists>m h. printf_directive d ap u = Some (ap1, u\<lparr>umem := m, calls := calls u @ h\<rparr>) \<and>
        same_outside (itoa_text u) (umem u) m \<and> console {1, 2} h \<and> shown h = t)"

lemma directive_number:
  assumes "keeps_memory {1, 2} (kernel u) (calls u)" "sint v \<noteq> - 2147483648"
  shows "directive_prints 0x64 (v # vs) vs (decimal (sint v)) u"
proof -
  let ?d = "decimal (sint v)" and ?p = "itoa_text u + of_nat (11 - length (decimal (sint v)))"
  let ?m = "store (umem u) ?p (?d @ [0])"
  have v: "- 2147483648 < sint v" "sint v < 2147483648" using assms(2) sint_u32_bounds [of v] by simp_all
  have len: "length ?d \<le> 11" by (rule decimal_length(1) [OF v])
  have c: "cstr ?m ?p ?d" using len decimal_nonzero by (intro cstr_store) simp_all
  have "region ?p (length (?d @ [0])) \<subseteq> region (itoa_text u) 12" using len by (intro region_shift_subset) simp_all
  then have "same_outside (itoa_text u) (umem u) ?m" using len by (auto simp: same_outside_def store_eq)
  moreover have "printf_directive 0x64 (v # vs) u =
      Some (vs, u\<lparr>umem := ?m, calls := calls u @ [Call 1 (Some ?p) ?m]\<rparr>)"
    using itoa_eq [OF v refl, of u] assms(1) by (simp add: printf_directive_def user_print_eq [where C = "{1, 2}"])
  moreover have "console {1, 2} [Call 1 (Some ?p) ?m]" "shown [Call 1 (Some ?p) ?m] = ?d"
    by (simp_all add: call_output_def string_at_cstr [OF c])
  ultimately show ?thesis unfolding directive_prints_def by blast
qed

lemma directive_call:
  assumes "printf_directive d ap u = Some (ap1, u\<lparr>calls := calls u @ [c]\<rparr>)" "call_output c = t" "call_code c \<in> {1, 2}"
  shows "directive_prints d ap ap1 t u"
  unfolding directive_prints_def using assms
  by (intro exI [of _ "umem u"] exI [of _ "[c]"]) (simp add: same_outside_def)

lemma directive_string:
  assumes "keeps_memory {1, 2} (kernel u) (calls u)" "cstr (umem u) v t"
  shows "directive_prints 0x73 (v # vs) vs t u"
  using assms by (intro directive_call [where c = "Call 1 (Some v) (umem u)"])
    (simp_all add: printf_directive_def user_print_eq [where C = "{1, 2}"] call_output_def string_at_cstr)

lemma directive_char:
  assumes "keeps_memory {1, 2} (kernel u) (calls u)"
  shows "directive_prints 0x63 (v # vs) vs [ucast v] u"
    "d \<notin> {0x64, 0x73, 0x63} \<Longrightarrow> directive_prints d ap ap [d] u"
  using putchar_eq [OF assms, of "ucast v"] putchar_eq [OF assms, of d]
  by (auto intro!: directive_call simp: printf_directive_def)

text \<open>A format string outside the array, cut after \<open>k\<close> characters.\<close>

definition format_at :: "memory \<Rightarrow> addr \<Rightarrow> addr \<Rightarrow> u8 list \<Rightarrow> bool" where
  "format_at m tx p s \<longleftrightarrow> cstr m p s \<and> region p (Suc (length s)) \<inter> region tx 12 = {}"

lemma format_at_drop:
  assumes "format_at m tx p s" "k \<le> length s"
  shows "format_at m tx (p + of_nat k) (drop k s)"
proof -
  have "k + Suc (length s - k) \<le> Suc (length s)" "Suc (length s) \<le> 4294967296"
    using assms cstr_length [of m p s] by (simp_all add: format_at_def)
  then have "region (p + of_nat k) (Suc (length s - k)) \<subseteq> region p (Suc (length s))" by (rule region_shift_subset)
  then show ?thesis using assms cstr_drop [of m p s k] by (auto simp: format_at_def)
qed

lemma format_at_start: "format_at m tx p s \<Longrightarrow> same_outside tx m m' \<Longrightarrow> m' p = m p"
  using region_base [of "Suc (length s)" p] unfolding format_at_def same_outside_def by blast

lemma format_at_Cons:
  assumes "format_at m tx p (c # s)" "same_outside tx m m'"
  shows "m' p = c" "c \<noteq> 0" "format_at m tx (p + 1) s"
  using format_at_start [OF assms] assms(1) format_at_drop [OF assms(1), of 1] by (simp_all add: format_at_def)

lemma format_at_directive:
  assumes "format_at m tx p (0x25 # d # s)" "same_outside tx m (umem u)"
  shows "printf_loop p ap u = do { (ap1, u1) \<leftarrow> printf_directive d ap u; printf_loop (p + 2) ap1 u1 }"
    "format_at m tx (p + 2) s"
proof -
  note a = format_at_Cons [OF assms]
  note b = format_at_Cons [OF a(3) assms(2)]
  show "format_at m tx (p + 2) s" using b(3) by (simp add: add.assoc)
  show "printf_loop p ap u = do { (ap1, u1) \<leftarrow> printf_directive d ap u; printf_loop (p + 2) ap1 u1 }"
    using a(1) b(1) by (subst printf_loop.simps) simp
qed

definition printf_prints :: "memory \<Rightarrow> addr \<Rightarrow> u32 list \<Rightarrow> u8 list \<Rightarrow> 'a user_state_scheme \<Rightarrow> bool" where
  "printf_prints m p ap out u \<longleftrightarrow>
     (\<exists>m' h. printf_loop p ap u = Some (u\<lparr>umem := m', calls := calls u @ h\<rparr>) \<and> same_outside (itoa_text u) m m' \<and>
        console {1, 2} h \<and> shown h = out)"

text \<open>The step that all directives share.\<close>

lemma printf_directive_step:
  fixes u :: "'a user_state_scheme"
  assumes "keeps_memory {1, 2} (kernel u) (calls u)" "tx = itoa_text u" "same_outside tx m (umem u)"
    and "format_at m tx p (0x25 # d # s)" "directive_prints d ap ap1 t u"
    and rest: "\<And>(u1 :: 'a user_state_scheme) p1. keeps_memory {1, 2} (kernel u1) (calls u1) \<Longrightarrow> tx = itoa_text u1 \<Longrightarrow>
      same_outside tx m (umem u1) \<Longrightarrow> format_at m tx p1 s \<Longrightarrow> printf_prints m p1 ap1 out u1"
  shows "printf_prints m p ap (t @ out) u"
proof -
  note f = format_at_directive [OF assms(4,3)]
  obtain m1 h1 where d: "printf_directive d ap u = Some (ap1, u\<lparr>umem := m1, calls := calls u @ h1\<rparr>)"
    "same_outside tx (umem u) m1" "console {1, 2} h1" "shown h1 = t"
    using assms(5) unfolding directive_prints_def assms(2) by blast
  let ?u = "u\<lparr>umem := m1, calls := calls u @ h1\<rparr>"
  have "keeps_memory {1, 2} (kernel ?u) (calls ?u)" using keeps_memory_append [OF assms(1) d(3)] by simp
  moreover have "same_outside tx m (umem ?u)" using assms(3) d(2) by (simp add: same_outside_def)
  ultimately have "printf_prints m (p + 2) ap1 out ?u" using assms(2) f(2) by (intro rest) simp_all
  then obtain m' h where "printf_loop (p + 2) ap1 ?u = Some (u\<lparr>umem := m', calls := calls u @ h1 @ h\<rparr>)"
    "same_outside (itoa_text u) m m'" "console {1, 2} h" "shown h = out" unfolding printf_prints_def by auto
  then show ?thesis using f(1) d(1,3,4) unfolding printf_prints_def
    by (intro exI [of _ m'] exI [of _ "h1 @ h"]) simp
qed

lemma printf_loop_formats:
  assumes "formats m tx f ap out" "keeps_memory {1, 2} (kernel u) (calls u)" "tx = itoa_text u" "same_outside tx m (umem u)"
    and "format_at m tx p f"
  shows "printf_prints m p ap out u"
  using assms
proof (induction arbitrary: p u)
  case (ends ap)
  then have "printf_loop p ap u = Some (u\<lparr>umem := umem u, calls := calls u @ []\<rparr>)"
    using format_at_start [OF ends(4,3)] by (subst printf_loop.simps) (simp add: format_at_def)
  then show ?case unfolding printf_prints_def using ends(2,3)
    by (intro exI [of _ "umem u"] exI [of _ "[]"]) simp
next
  case (plain c s ap out)
  let ?h = "[Call 2 (Some (scast c)) (umem u)]"
  note f = format_at_Cons [OF plain.prems(4,3)]
  have p: "putchar c u = u\<lparr>calls := calls u @ ?h\<rparr>" using putchar_eq [OF plain.prems(1)] by simp
  have "keeps_memory {1, 2} (kernel u) (calls u @ ?h)" using plain.prems(1) by (intro keeps_memory_append) simp_all
  then have "printf_prints m (p + 1) ap out (putchar c u)" using plain.IH [of "putchar c u" "p + 1"] plain.prems f(3) p by simp
  then obtain m' h where "printf_loop (p + 1) ap (putchar c u) = Some (u\<lparr>umem := m', calls := calls u @ ?h @ h\<rparr>)"
    "same_outside (itoa_text u) m m'" "console {1, 2} h" "shown h = out" unfolding printf_prints_def p by auto
  moreover have "printf_loop p ap u = printf_loop (p + 1) ap (putchar c u)"
    using f(1,2) plain.hyps(1) by (subst printf_loop.simps) simp
  ultimately show ?case unfolding printf_prints_def by (intro exI [of _ m'] exI [of _ "?h @ h"]) simp
next
  case (number v s vs out)
  show ?case
    by (rule printf_directive_step [OF number.prems directive_number [OF number.prems(1) number.hyps(1)] number.IH])
next
  case (str v t s vs out)
  have "cstr (umem u) v t" using str.hyps(1,2) str.prems(3) by (rule cstr_same_outside [rotated])
  from directive_string [OF str.prems(1) this] show ?case by (rule printf_directive_step [OF str.prems _ str.IH])
next
  case (char s vs out v)
  have "printf_prints m p (v # vs) ([ucast v] @ out) u"
    by (rule printf_directive_step [OF char.prems directive_char(1) [OF char.prems(1)] char.IH])
  then show ?case by simp
next
  case (other d s ap out)
  have "printf_prints m p ap ([d] @ out) u"
    by (rule printf_directive_step [OF other.prems directive_char(2) [OF other.prems(1) other.hyps(1)] other.IH])
  then show ?case by simp
qed

section \<open>Reading a line\<close>

text \<open>The line that the keys typed so far make up.\<close>

definition edit :: "u8 list \<Rightarrow> u8 \<Rightarrow> u8 list" where
  "edit line key = (if key = 8 \<and> line \<noteq> [] then butlast line else line @ [key])"

definition typed :: "u8 list \<Rightarrow> u8 list" where
  "typed ks = foldl edit [] ks"

lemma typed_length: "length (typed ks) \<le> length ks"
proof -
  have "length (edit l k) \<le> Suc (length l)" for l k by (auto simp: edit_def)
  then show ?thesis by (induction ks rule: rev_induct) (auto simp: typed_def intro: order_trans)
qed

text \<open>The buffer holds the line, and nothing outside the buffer changes.\<close>

definition holds :: "addr \<Rightarrow> nat \<Rightarrow> memory \<Rightarrow> u8 list \<Rightarrow> memory \<Rightarrow> bool" where
  "holds buffer n m l m' \<longleftrightarrow> (\<forall>j < length l. m' (buffer + of_nat j) = l ! j) \<and>
     (\<forall>a. a \<notin> region buffer n \<longrightarrow> m' a = m a)"

lemma holds_write:
  assumes "holds buffer n m l m'" "length l < n" "n \<le> 2147483648"
  shows "holds buffer n m (l @ [k]) (m'(buffer + of_nat (length l) := k))"
proof -
  have "buffer + of_nat (length l) \<in> region buffer n" using assms(2,3) by (intro region_add) simp_all
  moreover have "buffer + of_nat j \<noteq> buffer + of_nat (length l)" if "j < length l" for j
    using that assms(2,3) by (simp add: word_of_nat_eq_iff take_bit_nat_eq_self)
  ultimately show ?thesis using assms(1) by (auto simp: holds_def nth_append less_Suc_eq)
qed

lemma holds_prefix: "holds buffer n m (l @ [k]) m' \<Longrightarrow> holds buffer n m l m'"
  by (auto simp: holds_def nth_append dest: less_SucI)

lemma holds_erase:
  assumes "holds buffer n m l m'" "l \<noteq> []" "length l \<le> n" "n \<le> 2147483648"
  shows "holds buffer n m (butlast l) (m'(buffer + of_nat (length l - 1) := 0))"
proof -
  have "holds buffer n m (butlast l) m'" using assms(1) by (simp add: holds_def nth_butlast)
  moreover have "length (butlast l) < n" using assms(2,3) by (cases l) simp_all
  ultimately have "holds buffer n m (butlast l @ [0]) (m'(buffer + of_nat (length (butlast l)) := 0))"
    using assms(4) by (rule holds_write)
  then have "holds buffer n m (butlast l) (m'(buffer + of_nat (length (butlast l)) := 0))" by (rule holds_prefix)
  then show ?thesis by (simp only: length_butlast)
qed

text \<open>One key edits the line in the buffer.\<close>

lemma read_line_step:
  assumes "keeps_memory {2, 3} (kernel u) (calls u)" "delivers (kernel u) (calls u) zs" "waiting zs = k # ks" "k \<noteq> 13"
    and "holds buffer n m l (umem u)" "length l < n" "n \<le> 2147483648"
  shows "\<exists>m2 t. read_line_loop buffer (int n) echo (int (length l)) u =
      read_line_loop buffer (int n) echo (int (length (edit l k))) (u\<lparr>umem := m2, calls := calls u @ t\<rparr>) \<and>
    holds buffer n m (edit l k) m2 \<and> console {2, 3} t \<and> waiting (drop (keys_taken t) zs) = ks \<and>
    shown t = (if echo then [k] else [])"
proof -
  obtain t where t: "getchar u = Some (k, u\<lparr>calls := calls u @ t\<rparr>)" "console {2, 3} t"
    "waiting (drop (keys_taken t) zs) = ks" "shown t = []"
    using getchar_next [OF assms(1-3)] by blast
  define t2 where "t2 = (if echo then t @ [Call 2 (Some (scast k)) (umem u)] else t)"
  define m2 where "m2 = (if k = 8 \<and> l \<noteq> [] then (umem u)(buffer + of_nat (length l - 1) := 0)
    else (umem u)(buffer + of_nat (length l) := k))"
  have "keeps_memory {2, 3} (kernel u) (calls u @ t)" by (rule keeps_memory_append [OF assms(1) t(2)])
  then have pc: "(if echo then putchar k (u\<lparr>calls := calls u @ t\<rparr>) else u\<lparr>calls := calls u @ t\<rparr>) = u\<lparr>calls := calls u @ t2\<rparr>"
    using putchar_eq [of "{2, 3}" "u\<lparr>calls := calls u @ t\<rparr>" k] by (simp add: t2_def)
  have swap: "u\<lparr>calls := h', umem := m'\<rparr> = u\<lparr>umem := m', calls := h'\<rparr>" for h' m' by simp
  have "read_line_loop buffer (int n) echo (int (length l)) u =
      read_line_loop buffer (int n) echo (int (length (edit l k))) (u\<lparr>umem := m2, calls := calls u @ t2\<rparr>)"
    using t(1) assms(4,6) pc
    by (subst read_line_loop.simps) (cases l, auto simp: edit_def m2_def Let_def swap)
  moreover have "holds buffer n m (edit l k) m2"
    using holds_write [OF assms(5-7)] holds_erase [OF assms(5) _ _ assms(7)] assms(6) by (simp add: edit_def m2_def)
  moreover have "console {2, 3} t2" "waiting (drop (keys_taken t2) zs) = ks" "shown t2 = (if echo then [k] else [])"
    using t(2-4) by (simp_all add: t2_def)
  ultimately show ?thesis by blast
qed

text \<open>
  With the line \<open>l\<close> so far, keys are edited into the buffer as long as there is room before each
  of them.
\<close>

lemma read_line_keys:
  assumes "keeps_memory {2, 3} (kernel u) (calls u)" "delivers (kernel u) (calls u) zs" "waiting zs = ks @ rest" "13 \<notin> set ks"
    and "holds buffer n m l (umem u)" "\<And>i. i < length ks \<Longrightarrow> length (foldl edit l (take i ks)) < n" "n \<le> 2147483648"
  shows "\<exists>m' t. read_line_loop buffer (int n) echo (int (length l)) u =
      read_line_loop buffer (int n) echo (int (length (foldl edit l ks))) (u\<lparr>umem := m', calls := calls u @ t\<rparr>) \<and>
    holds buffer n m (foldl edit l ks) m' \<and> console {2, 3} t \<and> waiting (drop (keys_taken t) zs) = rest \<and>
    shown t = (if echo then ks else [])"
  using assms
proof (induction ks arbitrary: l u zs)
  case Nil
  then show ?case by (intro exI [of _ "umem u"] exI [of _ "[]"]) simp
next
  case (Cons k ks)
  have k: "waiting zs = k # (ks @ rest)" "k \<noteq> 13" "length l < n" using Cons.prems(3,4) Cons.prems(6) [of 0] by simp_all
  obtain m2 t2 where s: "read_line_loop buffer (int n) echo (int (length l)) u =
      read_line_loop buffer (int n) echo (int (length (edit l k))) (u\<lparr>umem := m2, calls := calls u @ t2\<rparr>)"
    "holds buffer n m (edit l k) m2" "console {2, 3} t2" "waiting (drop (keys_taken t2) zs) = ks @ rest"
    "shown t2 = (if echo then [k] else [])"
    using read_line_step [OF Cons.prems(1,2) k(1,2) Cons.prems(5) k(3) Cons.prems(7), of echo] by blast
  let ?u = "u\<lparr>umem := m2, calls := calls u @ t2\<rparr>"
  have r: "keeps_memory {2, 3} (kernel ?u) (calls ?u)" "delivers (kernel ?u) (calls ?u) (drop (keys_taken t2) zs)"
    using keeps_memory_append [OF Cons.prems(1) s(3)] delivers_append [OF Cons.prems(2) s(3)] by simp_all
  have "length (foldl edit (edit l k) (take i ks)) < n" if "i < length ks" for i
    using Cons.prems(6) [of "Suc i"] that by simp
  with Cons.IH [OF r s(4), where l = "edit l k"] Cons.prems(4,7) s(2)
  obtain m' t' where "read_line_loop buffer (int n) echo (int (length (edit l k))) ?u =
      read_line_loop buffer (int n) echo (int (length (foldl edit (edit l k) ks))) (u\<lparr>umem := m', calls := calls u @ t2 @ t'\<rparr>)"
    "holds buffer n m (foldl edit (edit l k) ks) m'" "console {2, 3} t'"
    "waiting (drop (keys_taken t') (drop (keys_taken t2) zs)) = rest" "shown t' = (if echo then ks else [])"
    by auto
  then show ?case using s(1,3,5) by (intro exI [of _ m'] exI [of _ "t2 @ t'"]) (simp add: add.commute)
qed

lemma edit_nonzero: "0 \<notin> set l \<Longrightarrow> 0 \<notin> set ks \<Longrightarrow> 0 \<notin> set (foldl edit l ks)"
  by (induction ks arbitrary: l) (auto simp: edit_def dest: in_set_butlastD)

lemma waiting_nonzero: "0 \<notin> set (waiting zs)"
  by (simp add: waiting_def)

lemma holds_cstr:
  assumes "holds buffer n m l m'" "0 \<notin> set l" "length l < 4294967296"
  shows "cstr (m'(buffer + of_nat (length l) := 0)) buffer l"
proof -
  have "buffer + of_nat j \<noteq> buffer + of_nat (length l)" if "j < length l" for j
    using that assms(3) by (simp add: word_of_nat_eq_iff take_bit_nat_eq_self)
  then show ?thesis using assms by (auto simp: cstr_iff holds_def in_set_conv_nth)
qed

lemma read_line_spec:
  assumes "keeps_memory {2, 3} (kernel u) (calls u)" "delivers (kernel u) (calls u) zs" "waiting zs = ks @ 13 # rest" "13 \<notin> set ks"
    and "\<And>i. i \<le> length ks \<Longrightarrow> length (typed (take i ks)) < n" "n \<le> 2147483648"
  shows "\<exists>m' t. read_line buffer (int n) echo u = Some (u\<lparr>umem := m', calls := calls u @ t\<rparr>) \<and>
    cstr m' buffer (typed ks) \<and> (\<forall>a. a \<notin> region buffer n \<longrightarrow> m' a = umem u a) \<and>
    console {2, 3} t \<and> waiting (drop (keys_taken t) zs) = rest \<and> shown t = (if echo then ks else [])"
proof -
  have "holds buffer n (umem u) [] (umem u)" by (simp add: holds_def)
  from read_line_keys [OF assms(1-4) this _ assms(6), where echo = echo] assms(5)
  obtain m1 t1 where s: "read_line_loop buffer (int n) echo 0 u =
      read_line_loop buffer (int n) echo (int (length (typed ks))) (u\<lparr>umem := m1, calls := calls u @ t1\<rparr>)"
    "holds buffer n (umem u) (typed ks) m1" "console {2, 3} t1" "waiting (drop (keys_taken t1) zs) = 13 # rest"
    "shown t1 = (if echo then ks else [])"
    unfolding typed_def by auto
  let ?u = "u\<lparr>umem := m1, calls := calls u @ t1\<rparr>"
  have r: "keeps_memory {2, 3} (kernel ?u) (calls ?u)" "delivers (kernel ?u) (calls ?u) (drop (keys_taken t1) zs)"
    using keeps_memory_append [OF assms(1) s(3)] delivers_append [OF assms(2) s(3)] by simp_all
  obtain t where t: "getchar ?u = Some (13, u\<lparr>umem := m1, calls := calls u @ t1 @ t\<rparr>)" "console {2, 3} t"
    "waiting (drop (keys_taken t) (drop (keys_taken t1) zs)) = rest" "shown t = []"
    using getchar_next [OF r s(4)] by auto
  have len: "length (typed ks) < n" using assms(5) [of "length ks"] by simp
  have "read_line_loop buffer (int n) echo (int (length (typed ks))) ?u =
      Some (int (length (typed ks)), u\<lparr>umem := m1, calls := calls u @ t1 @ t\<rparr>)"
    using t(1) len by (subst read_line_loop.simps) simp
  then have "read_line buffer (int n) echo u =
      Some (u\<lparr>umem := m1(buffer + of_nat (length (typed ks)) := 0), calls := calls u @ t1 @ t\<rparr>)"
    using s(1) by (simp add: read_line_def)
  moreover have "0 \<notin> set ks" using waiting_nonzero [of zs] assms(3) by simp
  then have "cstr (m1(buffer + of_nat (length (typed ks)) := 0)) buffer (typed ks)"
    using len assms(6) edit_nonzero [of "[]" ks] by (intro holds_cstr [OF s(2)]) (simp_all add: typed_def)
  moreover have "buffer + of_nat (length (typed ks)) \<in> region buffer n" using len assms(6) by (intro region_add) simp_all
  then have "(m1(buffer + of_nat (length (typed ks)) := 0)) a = umem u a" if "a \<notin> region buffer n" for a
    using that s(2) by (auto simp: holds_def)
  ultimately show ?thesis
    using t(2-4) s(3,5)
    by (intro exI [of _ "m1(buffer + of_nat (length (typed ks)) := 0)"] exI [of _ "t1 @ t"]) (simp add: add.commute)
qed

section \<open>Lists of arguments\<close>

text \<open>
  \<open>arguments_at m root ts\<close>: the memory holds a list of the texts \<open>ts\<close>, one record after the
  other from \<open>root\<close> on, each linked to the next and the last to null.  \<open>listed\<close> is the state
  of the loop after \<open>i\<close> of \<open>n\<close> records.
\<close>

definition arguments_at :: "memory \<Rightarrow> addr \<Rightarrow> u8 list list \<Rightarrow> bool" where
  "arguments_at m root ts \<longleftrightarrow>
     (\<forall>j < length ts. cstr m (root + of_nat (516 * j)) (ts ! j) \<and>
        next_argument m (root + of_nat (516 * j)) = (if Suc j = length ts then 0 else root + of_nat (516 * Suc j)))"

definition listed :: "memory \<Rightarrow> addr \<Rightarrow> u8 list list \<Rightarrow> nat \<Rightarrow> bool" where
  "listed m root ts i \<longleftrightarrow> arguments_at m root (take i ts) \<and>
     (\<forall>k. 516 * i \<le> k \<and> k < 516 * length ts \<longrightarrow> m (root + of_nat k) = 0)"

definition add_argument :: "memory \<Rightarrow> addr \<Rightarrow> nat \<Rightarrow> u8 list \<Rightarrow> memory" where
  "add_argument m root i t =
     (let m1 = store m (root + of_nat (516 * i)) (t @ [0])
      in if i = 0 then m1 else write32 m1 (root + of_nat (516 * i - 4)) (root + of_nat (516 * i)))"

text \<open>Adding a record changes its own text and the link before it.\<close>

lemma add_argument_outside:
  assumes "length t < 512" "k + l \<le> 4294967296" "516 * i + 512 \<le> 4294967296"
    and "k + l \<le> 516 * i - 4 \<or> i = 0 \<or> 516 * i \<le> k" "k + l \<le> 516 * i \<or> 516 * i + 512 \<le> k"
    and "a \<in> region (root + of_nat k) l"
  shows "add_argument m root i t a = m a"
proof -
  have "region (root + of_nat k) l \<inter> region (root + of_nat (516 * i)) 512 = {}"
    using assms(2,3,5) region_shift_disjoint [of k l "516 * i" 512 root] region_shift_disjoint [of "516 * i" 512 k l root] by auto
  moreover have "region (root + of_nat (516 * i)) (length (t @ [0])) \<subseteq> region (root + of_nat (516 * i)) 512"
    using assms(1) by (intro region_mono) simp
  ultimately have st: "a \<notin> region (root + of_nat (516 * i)) (length (t @ [0]))" using assms(6) by blast
  have ln: "a \<notin> region (root + of_nat (516 * i - 4)) 4" if "i \<noteq> 0"
    using that assms(2-4,6) region_shift_disjoint [of k l "516 * i - 4" 4 root] region_shift_disjoint [of "516 * i - 4" 4 k l root]
    by auto
  let ?m = "store m (root + of_nat (516 * i)) (t @ [0])"
  have s: "?m a = m a" using st assms(1) store_eq [of "t @ [0]" m "root + of_nat (516 * i)" a] by simp
  show ?thesis
  proof (cases "i = 0")
    case True
    then show ?thesis using s by (simp add: add_argument_def)
  next
    case False
    from write32_outside [OF ln [OF False], of ?m] s show ?thesis unfolding add_argument_def Let_def if_not_P [OF False] by simp
  qed
qed

lemma add_argument_text:
  assumes "length t < 512" "516 * i + 512 \<le> 4294967296" "0 \<notin> set t"
  shows "cstr (add_argument m root i t) (root + of_nat (516 * i)) t"
proof -
  have c: "cstr (store m (root + of_nat (516 * i)) (t @ [0])) (root + of_nat (516 * i)) t"
    using assms by (intro cstr_store) simp_all
  have "region (root + of_nat (516 * i - 4)) 4 \<inter> region (root + of_nat (516 * i)) (Suc (length t)) = {}" if "i \<noteq> 0"
    using that assms(1,2) by (intro region_shift_disjoint) simp_all
  then have "write32 (store m (root + of_nat (516 * i)) (t @ [0])) (root + of_nat (516 * i - 4)) (root + of_nat (516 * i)) a =
      store m (root + of_nat (516 * i)) (t @ [0]) a"
    if "i \<noteq> 0" "a \<in> region (root + of_nat (516 * i)) (Suc (length t))" for a
    using that by (intro write32_outside) blast
  from cstr_cong [OF c this] c show ?thesis unfolding add_argument_def Let_def by (cases "i = 0") (simp_all only: if_True if_False refl not_True_eq_False not_False_eq_True)
qed

lemma next_argument_cong:
  assumes "\<And>a. a \<in> region (root + of_nat (516 * j + 512)) 4 \<Longrightarrow> m' a = m a"
  shows "next_argument m' (root + of_nat (516 * j)) = next_argument m (root + of_nat (516 * j))"
proof -
  have "root + of_nat (516 * j) + 512 = root + of_nat (516 * j + 512)" by simp
  then show ?thesis unfolding next_argument_def using assms by (intro read32_cong) (simp only:)
qed

lemma add_argument_listed:
  assumes "listed m root ts i" "i < length ts" "516 * length ts \<le> 2147483648" "length (ts ! i) < 512" "0 \<notin> set (ts ! i)"
    and "\<And>j. j < i \<Longrightarrow> length (ts ! j) < 512"
  shows "listed (add_argument m root i (ts ! i)) root ts (Suc i)"
proof -
  let ?m = "add_argument m root i (ts ! i)"
  have i: "516 * Suc i \<le> 516 * length ts" using assms(2) by (intro mult_le_mono2) simp
  have hi: "516 * i + 512 \<le> 4294967296" using i assms(3) by simp
  have out: "?m a = m a" if "a \<in> region (root + of_nat k) l" "k + l \<le> 4294967296"
    "k + l \<le> 516 * i - 4 \<or> i = 0 \<or> 516 * i \<le> k" "k + l \<le> 516 * i \<or> 516 * i + 512 \<le> k" for a k l
    by (rule add_argument_outside [OF assms(4) that(2) hi that(3,4,1)])
  have old: "cstr ?m (root + of_nat (516 * j)) (ts ! j)" if "j < i" for j
  proof (rule cstr_cong)
    show "cstr m (root + of_nat (516 * j)) (ts ! j)" using assms(1,2) that by (auto simp: listed_def arguments_at_def)
    have "516 * Suc j \<le> 516 * i" using that by (intro mult_le_mono2) simp
    then have "516 * j + 516 \<le> 516 * i" by simp
    then show "?m a = m a" if "a \<in> region (root + of_nat (516 * j)) (Suc (length (ts ! j)))" for a
      using assms(6) [OF \<open>j < i\<close>] hi by (intro out [OF that] disjI1) linarith+
  qed
  have link: "next_argument ?m (root + of_nat (516 * j)) = root + of_nat (516 * Suc j)" if "j < i" for j
  proof (cases "Suc j = i")
    case True
    have eq: "root + of_nat (516 * j) + 512 = root + of_nat (516 * i - 4)" using True [symmetric] by simp
    have "i \<noteq> 0" using that by simp
    then show ?thesis unfolding next_argument_def eq add_argument_def Let_def True by (simp only: if_False read32_write32_same)
  next
    case False
    have "516 * Suc (Suc j) \<le> 516 * i" using that False by (intro mult_le_mono2) simp
    then have "516 * j + 1032 \<le> 516 * i" by simp
    then have "next_argument ?m (root + of_nat (516 * j)) = next_argument m (root + of_nat (516 * j))"
      using hi by (intro next_argument_cong, elim out) (intro disjI1 | linarith)+
    then show ?thesis using assms(1,2) that False by (auto simp: listed_def arguments_at_def)
  qed
  have zero: "?m (root + of_nat k) = 0" if "516 * i + 512 \<le> k" "k < 516 * length ts" for k
  proof -
    have "?m (root + of_nat k) = m (root + of_nat k)"
      using that assms(3) by (intro out [where k = k and l = 1]) simp_all
    then show ?thesis using assms(1) that by (simp add: listed_def)
  qed
  have last: "next_argument ?m (root + of_nat (516 * i)) = 0"
    using zero [of "516 * i + 512"] zero [of "516 * i + 513"] zero [of "516 * i + 514"] zero [of "516 * i + 515"] i
    by (simp add: next_argument_def read32_def ac_simps)
  have "arguments_at ?m root (take (Suc i) ts)"
    using old link last add_argument_text [OF assms(4) hi assms(5)] assms(2)
    by (auto simp: arguments_at_def less_Suc_eq min_absorb2 simp del: of_nat_mult mult_Suc_right)
  then show ?thesis using zero by (simp add: listed_def)
qed

lemma add_argument_keeps:
  assumes "length (ts ! i) < 512" "i < length ts" "516 * length ts \<le> 2147483648" "a \<notin> region root (516 * length ts)"
  shows "add_argument m root i (ts ! i) a = m a"
proof -
  have i: "516 * Suc i \<le> 516 * length ts" using assms(2) by (intro mult_le_mono2) simp
  have s1: "region (root + of_nat (516 * i)) (length (ts ! i @ [0])) \<subseteq> region root (516 * length ts)"
    using i assms(1,3) by (intro region_shift_subset) simp_all
  have s2: "region (root + of_nat (516 * i - 4)) 4 \<subseteq> region root (516 * length ts)" if "i \<noteq> 0"
    using that i assms(3) by (intro region_shift_subset) simp_all
  have s: "store m (root + of_nat (516 * i)) (ts ! i @ [0]) a = m a"
    using s1 assms(1,4) by (subst store_eq) auto
  show ?thesis
  proof (cases "i = 0")
    case True
    then show ?thesis using s by (simp add: add_argument_def)
  next
    case False
    then have "a \<notin> region (root + of_nat (516 * i - 4)) 4" using s2 assms(4) by blast
    from write32_outside [OF this] s show ?thesis unfolding add_argument_def Let_def if_not_P [OF False] by simp
  qed
qed

lemma add_argument_link:
  assumes "root \<noteq> 0" "unat root + 516 * i \<le> 4294967296"
  shows "(if (if i = 0 then 0 else root + of_nat (516 * (i - 1))) \<noteq> 0
      then write32 (store m (root + of_nat (516 * i)) (t @ [0])) ((if i = 0 then 0 else root + of_nat (516 * (i - 1))) + 512)
        (root + of_nat (516 * i))
      else store m (root + of_nat (516 * i)) (t @ [0])) = add_argument m root i t"
proof (cases "i = 0")
  case True
  then show ?thesis by (simp add: add_argument_def)
next
  case False
  then have "unat root + 516 * (i - 1) < 4294967296" using assms(2) by simp
  then have "unat (root + of_nat (516 * (i - 1))) = unat root + 516 * (i - 1)" by (rule unat_add_small)
  moreover have "0 < unat root" using assms(1) by (simp add: unat_gt_0)
  ultimately have nz: "root + of_nat (516 * (i - 1)) \<noteq> 0" by (metis add_gr_0 less_numeral_extra(3) unat_0)
  have "root + of_nat (516 * (i - 1)) + 512 = root + of_nat (516 * i - 4)" using False by (cases i) simp_all
  then show ?thesis using False nz unfolding add_argument_def Let_def by (simp only: if_False if_True not_False_eq_True)
qed

lemma arg_parse_loop_list:
  assumes "listed m root ts i" "i + left = length ts" "516 * length ts \<le> 2147483648"
    and "unat root + 516 * length ts \<le> 4294967296" "root \<noteq> 0" "\<And>t. t \<in> set ts \<Longrightarrow> length t < 512"
    and "\<And>j. j < length ts \<Longrightarrow> cstr m (read32 m (tokens + 4 * of_nat j)) (ts ! j) \<and>
      region (read32 m (tokens + 4 * of_nat j)) (Suc (length (ts ! j))) \<inter> region root (516 * length ts) = {}"
    and "\<And>j. j < length ts \<Longrightarrow> region (tokens + 4 * of_nat j) 4 \<inter> region root (516 * length ts) = {}"
  shows "\<exists>m'. arg_parse_loop i left tokens (root + of_nat (516 * i))
      (if i = 0 then 0 else root + of_nat (516 * (i - 1))) m = Some m' \<and> listed m' root ts (length ts) \<and>
    (\<forall>a. a \<notin> region root (516 * length ts) \<longrightarrow> m' a = m a)"
  using assms
proof (induction left arbitrary: i m)
  case 0
  then show ?case by simp
next
  case (Suc left)
  let ?cur = "root + of_nat (516 * i)" and ?t = "ts ! i"
  have i: "i < length ts" using Suc.prems(2) by simp
  have i2: "516 * Suc i \<le> 516 * length ts" using i by (intro mult_le_mono2) simp
  have len: "length ?t < 512" using Suc.prems(6) i by simp
  note tok = Suc.prems(7) [OF i]
  define m2 where "m2 = add_argument m root i ?t"
  have keep: "m2 a = m a" if "a \<notin> region root (516 * length ts)" for a
    unfolding m2_def by (rule add_argument_keeps [OF len i Suc.prems(3) that])
  have "region ?cur (Suc (length ?t)) \<subseteq> region root (516 * length ts)"
    using i2 len Suc.prems(3) by (intro region_shift_subset) simp_all
  then have "safe_copy (read32 m (tokens + 4 * of_nat i)) ?cur (length ?t)"
    using tok by (intro safe_copy_disjoint [where k = "Suc (length ?t)"]) auto
  then have cp: "strcpy m (read32 m (tokens + 4 * of_nat i)) ?cur = Some (store m ?cur (?t @ [0]))"
    using tok by (intro strcpy_store) simp_all
  have "unat root + 516 * i \<le> 4294967296" using i2 Suc.prems(4) by simp
  note link = add_argument_link [OF Suc.prems(5) this, of m ?t, folded m2_def]
  have step: "arg_parse_loop i (Suc left) tokens ?cur (if i = 0 then 0 else root + of_nat (516 * (i - 1))) m =
      arg_parse_loop (Suc i) left tokens (root + of_nat (516 * Suc i)) (if Suc i = 0 then 0 else root + of_nat (516 * (Suc i - 1))) m2"
    unfolding arg_parse_loop.simps cp Option.bind.bind_lunit Let_def link by (simp add: ac_simps)
  have rd: "read32 m2 (tokens + 4 * of_nat j) = read32 m (tokens + 4 * of_nat j)" if "j < length ts" for j
    using Suc.prems(8) [OF that] keep by (intro read32_cong) blast
  have lst: "listed m2 root ts (Suc i)"
    unfolding m2_def using Suc.prems(1,3,6) i len cstr_nonzero tok by (intro add_argument_listed) auto
  have tk: "cstr m2 (read32 m2 (tokens + 4 * of_nat j)) (ts ! j) \<and>
      region (read32 m2 (tokens + 4 * of_nat j)) (Suc (length (ts ! j))) \<inter> region root (516 * length ts) = {}"
    if "j < length ts" for j
    using Suc.prems(7) [OF that] keep unfolding rd [OF that] by (auto intro!: cstr_cong [of m])
  have cnt: "Suc i + left = length ts" using Suc.prems(2) by simp
  obtain m' where "arg_parse_loop (Suc i) left tokens (root + of_nat (516 * Suc i))
      (if Suc i = 0 then 0 else root + of_nat (516 * (Suc i - 1))) m2 = Some m'" "listed m' root ts (length ts)"
    "\<forall>a. a \<notin> region root (516 * length ts) \<longrightarrow> m' a = m2 a"
    using Suc.IH [OF lst cnt Suc.prems(3-6) tk Suc.prems(8)] by blast
  then show ?case unfolding step using keep by auto
qed

text \<open>What \<^verbatim>\<open>malloc\<close> does for a process: it grants \<open>n\<close> zeroed bytes and keeps the rest.\<close>

definition grants :: "(call list \<Rightarrow> u32 \<times> memory) \<Rightarrow> call list \<Rightarrow> u32 \<Rightarrow> addr \<Rightarrow> bool" where
  "grants k h n root \<longleftrightarrow>
     (\<forall>m. k (h @ [Call 4 (Some n) m]) = (root, \<lambda>a. if a \<in> region root (unat n) then 0 else m a))"

section \<open>Properties\<close>

text \<open>
  C29: numbers as text.  For every \<^verbatim>\<open>int\<close> but the least, \<^verbatim>\<open>itoa\<close> returns the address of a string in
  its static array that is the decimal notation of the number, which reads back as the
  number, and writes nowhere else; for the least number the negation overflows.
\<close>

theorem itoa_decimal:
  assumes "- 2147483648 \<le> num" "num < 2147483648"
  shows "if num = - 2147483648 then itoa num u = None
    else \<exists>p m'. itoa num u = Some (p, u\<lparr>umem := m'\<rparr>) \<and> cstr m' p (decimal num) \<and>
      read_decimal (decimal num) = num \<and> same_outside (itoa_text u) (umem u) m'"
proof (cases "num = - 2147483648")
  case True
  then show ?thesis by (simp add: itoa_def)
next
  case False
  let ?p = "itoa_text u + of_nat (11 - length (decimal num))"
  let ?m = "store (umem u) ?p (decimal num @ [0])"
  have b: "- 2147483648 < num" using assms(1) False by simp
  have len: "length (decimal num) \<le> 11" by (rule decimal_length(1) [OF b assms(2)])
  have "region ?p (length (decimal num @ [0])) \<subseteq> region (itoa_text u) 12" using len by (intro region_shift_subset) simp_all
  then have "same_outside (itoa_text u) (umem u) ?m" using len by (auto simp: same_outside_def store_eq)
  moreover have "cstr ?m ?p (decimal num)" using len decimal_nonzero by (intro cstr_store) simp_all
  ultimately show ?thesis
    using False itoa_eq [OF b assms(2) refl, of u] by (auto simp: read_decimal_decimal)
qed

text \<open>
  C26: formatted output.  For a format that has a meaning, \<^verbatim>\<open>printf\<close> returns 0 after calls that
  print exactly this text, and changes no memory but the static array of \<^verbatim>\<open>itoa\<close>.
\<close>

theorem printf_formats:
  assumes "keeps_memory {1, 2} (kernel u) (calls u)" "cstr (umem u) fmt f"
    and "region fmt (Suc (length f)) \<inter> region (itoa_text u) 12 = {}"
    and "formats (umem u) (itoa_text u) f ap out"
  shows "\<exists>m' t. printf fmt ap u = Some (0, u\<lparr>umem := m', calls := calls u @ t\<rparr>) \<and>
    same_outside (itoa_text u) (umem u) m' \<and> console {1, 2} t \<and> shown t = out"
proof -
  have "printf_prints (umem u) fmt ap out u"
    using assms by (intro printf_loop_formats) (simp_all add: same_outside_def format_at_def)
  then obtain m' t where "printf_loop fmt ap u = Some (u\<lparr>umem := m', calls := calls u @ t\<rparr>)"
    "same_outside (itoa_text u) (umem u) m'" "console {1, 2} t" "shown t = out"
    unfolding printf_prints_def by blast
  then show ?thesis by (intro exI [of _ m'] exI [of _ t]) (simp add: printf_def)
qed

text \<open>
  C24: reading a line.  When the keys \<open>ks\<close> and then a carriage return arrive, at whatever time,
  and the line never outgrows the bound, \<^verbatim>\<open>read_line\<close> returns with the buffer holding the line
  that the keys make up, backspaces applied; it takes exactly these keys, echoes them if asked
  to, and writes only to the buffer.
\<close>

theorem read_line_edits:
  assumes "keeps_memory {2, 3} (kernel u) (calls u)" "delivers (kernel u) (calls u) zs" "waiting zs = ks @ 13 # rest" "13 \<notin> set ks"
    and "\<And>i. i \<le> length ks \<Longrightarrow> length (typed (take i ks)) < n" "n \<le> 2147483648"
  shows "\<exists>m' t. read_line buffer (int n) echo u = Some (u\<lparr>umem := m', calls := calls u @ t\<rparr>) \<and>
    cstr m' buffer (typed ks) \<and> (\<forall>a. a \<notin> region buffer n \<longrightarrow> m' a = umem u a) \<and>
    console {2, 3} t \<and> waiting (drop (keys_taken t) zs) = rest \<and> shown t = (if echo then ks else [])"
  by (rule read_line_spec [OF assms])

text \<open>
  C40: a line that is too long.  When as many ordinary keys arrive as the buffer has room,
  \<^verbatim>\<open>read_line\<close> returns without waiting for a carriage return and writes the terminating NUL
  behind the buffer.
\<close>

theorem read_line_writes_behind:
  assumes "keeps_memory {2, 3} (kernel u) (calls u)" "delivers (kernel u) (calls u) zs" "waiting zs = ks @ rest"
    and "13 \<notin> set ks" "8 \<notin> set ks" "length ks = n" "n \<le> 2147483648"
  shows "\<exists>m' t. read_line buffer (int n) echo u = Some (u\<lparr>umem := m', calls := calls u @ t\<rparr>) \<and>
    cstr m' buffer ks \<and> m' (buffer + of_nat n) = 0 \<and> waiting (drop (keys_taken t) zs) = rest"
proof -
  have app: "foldl edit [] xs = xs" if "8 \<notin> set xs" for xs
    using that by (induction xs rule: rev_induct) (simp_all add: edit_def)
  have pre: "foldl edit [] (take i ks) = take i ks" for i using assms(5) by (intro app) (auto dest: in_set_takeD)
  have "holds buffer n (umem u) [] (umem u)" by (simp add: holds_def)
  from read_line_keys [OF assms(1-4) this _ assms(7), where echo = echo] pre assms(6)
  obtain m1 t where s: "read_line_loop buffer (int n) echo 0 u =
      read_line_loop buffer (int n) echo (int n) (u\<lparr>umem := m1, calls := calls u @ t\<rparr>)"
    "holds buffer n (umem u) ks m1" "waiting (drop (keys_taken t) zs) = rest"
    using app [OF assms(5)] by auto
  have "read_line_loop buffer (int n) echo (int n) (u\<lparr>umem := m1, calls := calls u @ t\<rparr>) =
      Some (int n, u\<lparr>umem := m1, calls := calls u @ t\<rparr>)" by (subst read_line_loop.simps) simp
  then have r: "read_line buffer (int n) echo u = Some (u\<lparr>umem := m1(buffer + of_nat n := 0), calls := calls u @ t\<rparr>)"
    using s(1) by (simp add: read_line_def)
  have "0 \<notin> set ks" using waiting_nonzero [of zs] assms(3) by simp
  then have "cstr (m1(buffer + of_nat n := 0)) buffer ks"
    using holds_cstr [OF s(2)] assms(6,7) by simp
  then show ?thesis
    using r s(3) by (intro exI [of _ "m1(buffer + of_nat n := 0)"] exI [of _ t]) simp
qed


text \<open>A state for the witnesses: a kernel that delivers given keys and grants memory.\<close>

definition kernel_ex :: "u8 list \<Rightarrow> call list \<Rightarrow> u32 \<times> memory" where
  "kernel_ex zs h =
     (let t = butlast h; c = last h
      in if call_code c = 4
         then (0x100000, \<lambda>a. if a \<in> region 0x100000 (unat (the (call_arg c))) then 0 else call_mem c a)
         else (if call_code c = 3 \<and> keys_taken t < length zs then scast (zs ! keys_taken t) else 0, call_mem c))"

definition user_ex :: "u8 list \<Rightarrow> memory \<Rightarrow> user_state" where
  "user_ex zs m = \<lparr>umem = m, calls = [], kernel = kernel_ex zs, itoa_text = 0x1000, parse_temp = 0x2000, parse_tokens = 0x3000\<rparr>"

lemma kernel_ex_ok: "4 \<notin> C \<Longrightarrow> keeps_memory C (kernel (user_ex zs m)) (calls (user_ex zs m))"
  "delivers (kernel (user_ex zs m)) (calls (user_ex zs m)) zs" "grants (kernel (user_ex zs m)) (calls (user_ex zs m)) n 0x100000"
  by (auto simp: user_ex_def keeps_memory_def delivers_def grants_def kernel_ex_def Let_def)

theorem itoa_decimal_witness:
  "\<exists>p m'. itoa (- 42) (user_ex [] (\<lambda>_. 7)) = Some (p, (user_ex [] (\<lambda>_. 7))\<lparr>umem := m'\<rparr>) \<and> cstr m' p [0x2D, 0x34, 0x32]"
proof -
  have "decimal (- 42) = [0x2D, 0x34, 0x32]" by (simp add: decimal_def digits.simps)
  then show ?thesis using itoa_decimal [of "- 42" "user_ex [] (\<lambda>_. 7)"] by auto
qed

theorem printf_formats_witness:
  "\<exists>m' h. printf 0x100 [7] (user_ex [] (store (\<lambda>_. 0) 0x100 [0x25, 0x64, 0x0A])) =
     Some (0, (user_ex [] (store (\<lambda>_. 0) 0x100 [0x25, 0x64, 0x0A]))\<lparr>umem := m', calls := h\<rparr>) \<and> shown h = [0x37, 0x0A]"
proof -
  let ?u = "user_ex [] (store (\<lambda>_. 0) 0x100 [0x25, 0x64, 0x0A])"
  have c: "cstr (umem ?u) 0x100 [0x25, 0x64, 0x0A]" by (simp add: user_ex_def)
  have r: "region 0x100 (Suc (length [0x25, 0x64, 0x0A :: u8])) \<inter> region (itoa_text ?u) 12 = {}"
    by (auto simp: user_ex_def region_interval)
  have d: "decimal (sint (7 :: u32)) = [0x37]" by (simp add: decimal_def digits.simps)
  have "formats (umem ?u) (itoa_text ?u) [0x25, 0x64, 0x0A] [7] (decimal (sint (7 :: u32)) @ [0x0A])"
    by (intro formats.intros) simp_all
  moreover have "keeps_memory {1, 2} (kernel ?u) (calls ?u)" by (rule kernel_ex_ok(1)) simp
  moreover have "calls ?u @ t = t" for t by (simp add: user_ex_def)
  ultimately show ?thesis using printf_formats [OF _ c r, of "[7]"] unfolding d by force
qed

theorem read_line_edits_witness:
  "\<exists>m' h. read_line 0x100 4 True (user_ex [0x61, 0, 0x62, 8, 13] (\<lambda>_. 7)) =
     Some ((user_ex [0x61, 0, 0x62, 8, 13] (\<lambda>_. 7))\<lparr>umem := m', calls := h\<rparr>) \<and> cstr m' 0x100 [0x61] \<and> shown h = [0x61, 0x62, 8]"
proof -
  let ?u = "user_ex [0x61, 0, 0x62, 8, 13] (\<lambda>_. 7)" and ?ks = "[0x61, 0x62, 8] :: u8 list"
  have w: "waiting [0x61, 0, 0x62, 8, 13] = ?ks @ 13 # []" by (simp add: waiting_def)
  have len: "length (typed (take i ?ks)) < 4" for i
    using typed_length [of "take i ?ks"] by simp
  have t: "typed ?ks = [0x61]" by (simp add: typed_def edit_def)
  have c: "calls ?u @ h = h" for h by (simp add: user_ex_def)
  have k: "keeps_memory {2, 3} (kernel ?u) (calls ?u)" by (rule kernel_ex_ok(1)) simp
  show ?thesis using read_line_edits [OF k kernel_ex_ok(2) w _ len, where buffer = "0x100" and echo = True]
    unfolding t c by auto
qed

theorem read_line_writes_behind_witness:
  "\<exists>m' h. read_line 0x100 2 False (user_ex [0x61, 0x62] (\<lambda>_. 7)) =
     Some ((user_ex [0x61, 0x62] (\<lambda>_. 7))\<lparr>umem := m', calls := h\<rparr>) \<and> m' 0x102 = 0"
proof -
  have w: "waiting [0x61, 0x62] = [0x61, 0x62] @ []" by (simp add: waiting_def)
  have n: "length [0x61, 0x62 :: u8] = 2" by simp
  have k: "keeps_memory {2, 3} (kernel (user_ex [0x61, 0x62] (\<lambda>_. 7))) (calls (user_ex [0x61, 0x62] (\<lambda>_. 7)))"
    by (rule kernel_ex_ok(1)) simp
  from read_line_writes_behind [OF k kernel_ex_ok(2) w _ _ n, where buffer = "0x100" and echo = False]
  show ?thesis by auto
qed


end
