(* ===== verification/Zhios_System.thy ===== *)
theory Zhios_System
  imports Zhios_Interrupts Zhios_Syslib
begin

text \<open>
  The system as a whole: a program of the user library above the handlers of the kernel.  An
  \<open>event\<close> is a stretch of user code that writes the memory of the program, a key that is pressed,
  or a system call; \<open>run\<close> executes a sequence of them with the functions of the kernel.  \<open>machine_ok\<close>
  is the invariant of such runs for the calls that write characters and ask for keys.
  \<open>kernel_of\<close> makes the kernel of \<open>Zhios_Syslib\<close> out of the handlers, so that what the library
  assumes of a kernel (\<open>keeps_memory\<close>, \<open>delivers\<close>) is a theorem about this one.
\<close>

section \<open>A machine with one program\<close>

text \<open>
  The program sees its memory through a window: \<open>win_there\<close> gives the physical address of each
  of its bytes and \<open>win_back\<close> is the way back; \<open>win_slot\<close> is the physical address of the word on
  top of its stack and \<open>win_frame\<close> the frame with which it enters the kernel.
\<close>

record window =
  win_there :: "addr \<Rightarrow> addr option"
  win_back :: "addr \<Rightarrow> addr option"
  win_slot :: addr
  win_frame :: InterruptFrame

datatype event = UserRuns memory | KeyPressed u8 | SystemCall u32 "u32 option"

definition user_memory :: "window \<Rightarrow> memory \<Rightarrow> memory \<Rightarrow> memory" where
  "user_memory w um m = (\<lambda>p. case win_back w p of None \<Rightarrow> m p | Some v \<Rightarrow> um v)"

definition push_argument :: "window \<Rightarrow> u32 option \<Rightarrow> memory \<Rightarrow> memory" where
  "push_argument w arg m = (case arg of None \<Rightarrow> m | Some a \<Rightarrow> write32 m (win_slot w) a)"

fun step :: "window \<Rightarrow> event \<Rightarrow> 'a kernel_state_scheme \<Rightarrow> ((u32 \<times> u32) list \<times> 'a kernel_state_scheme) option" where
  "step w (UserRuns um) st = Some ([], st\<lparr>mem := user_memory w um (mem st)\<rparr>)"
| "step w (KeyPressed c) st = map_option (Pair []) (keyboard_push c st)"
| "step w (SystemCall code arg) st = do {
     (c, st1) \<leftarrow> isr80h_handler (sint code) (win_frame w) (st\<lparr>mem := push_argument w arg (mem st)\<rparr>);
     case c of Returns v \<Rightarrow> Some ([(code, v)], st1) | Enters r \<Rightarrow> None }"

fun run :: "window \<Rightarrow> event list \<Rightarrow> 'a kernel_state_scheme \<Rightarrow> ((u32 \<times> u32) list \<times> 'a kernel_state_scheme) option" where
  "run w [] st = Some ([], st)"
| "run w (e # es) st = do {
     (vs, st1) \<leftarrow> step w e st;
     (ws, st2) \<leftarrow> run w es st1;
     Some (vs @ ws, st2) }"

text \<open>
  The bytes on which the kernel depends while it serves the program: the mode and the header
  of the font, the pointer to the page directory, and the entries that translate the window
  and the stack.
\<close>

definition entry_cells :: "memory \<Rightarrow> addr \<Rightarrow> addr \<Rightarrow> addr set" where
  "entry_cells m dir v = (let (i, j) = paging_get_index v
     in region (dir + 4 * i) 4 \<union> region ((read32 m (dir + 4 * i) AND 0xfffff000) + 4 * j) 4)"

definition win_bytes :: "window \<Rightarrow> addr set" where
  "win_bytes w = {v. win_there w v \<noteq> None} \<union> region (frame_esp (win_frame w)) 4"

definition win_phys :: "window \<Rightarrow> addr \<Rightarrow> addr" where
  "win_phys w v = (case win_there w v of Some p \<Rightarrow> p | None \<Rightarrow> win_slot w + (v - frame_esp (win_frame w)))"

definition kernel_cells :: "window \<Rightarrow> addr \<Rightarrow> addr \<Rightarrow> memory \<Rightarrow> addr set" where
  "kernel_cells w page f m = screen_setup f \<union> region page 4 \<union> (\<Union>v \<in> win_bytes w. entry_cells m (read32 m page) v)"

definition user_cells :: "window \<Rightarrow> addr set" where
  "user_cells w = {p. win_back w p \<noteq> None}"

definition space_ok :: "window \<Rightarrow> addr \<Rightarrow> addr \<Rightarrow> memory \<Rightarrow> bool" where
  "space_ok w page f m \<longleftrightarrow>
     (\<forall>v \<in> win_bytes w. mmu m (read32 m page) v = Some (win_phys w v)) \<and>
     kernel_cells w page f m \<inter> (canvas m f \<union> user_cells w \<union> region (win_slot w) 4) = {} \<and>
     user_cells w \<inter> (canvas m f \<union> region (win_slot w) 4) = {}"

definition window_ok :: "window \<Rightarrow> bool" where
  "window_ok w \<longleftrightarrow> (\<forall>v p. win_there w v = Some p \<longleftrightarrow> win_back w p = Some v) \<and>
     region (frame_esp (win_frame w)) 4 \<inter> {v. win_there w v \<noteq> None} = {}"

definition machine_ok :: "window \<Rightarrow> 'a kernel_state_scheme \<Rightarrow> bool" where
  "machine_ok w st \<longleftrightarrow> window_ok w \<and> isr80h_commands st = system_commands \<and> keyboard_ok st \<and>
     (case tasks st (current_task st) of None \<Rightarrow> False | Some t \<Rightarrow> space_ok w (page_directory t) (font st) (mem st))"

lemma entry_cells_same:
  assumes "\<And>a. a \<in> entry_cells m dir v \<Longrightarrow> m' a = m a"
  shows "entry_cells m' dir v = entry_cells m dir v" "mmu m' dir v = mmu m dir v"
proof -
  obtain i j where ij: "paging_get_index v = (i, j)" by (rule prod.exhaust)
  have d: "read32 m' (dir + 4 * i) = read32 m (dir + 4 * i)"
    using assms by (intro read32_cong) (simp add: entry_cells_def ij)
  then show "entry_cells m' dir v = entry_cells m dir v" by (simp add: entry_cells_def ij)
  have "read32 m' ((read32 m (dir + 4 * i) AND 0xfffff000) + 4 * j) = read32 m ((read32 m (dir + 4 * i) AND 0xfffff000) + 4 * j)"
    using assms by (intro read32_cong) (simp add: entry_cells_def ij)
  then show "mmu m' dir v = mmu m dir v" using d by (simp add: mmu_def get_page_def ij Let_def)
qed

lemma space_ok_same:
  assumes "space_ok w page f m" "\<And>a. a \<in> kernel_cells w page f m \<Longrightarrow> m' a = m a"
  shows "space_ok w page f m'" "read32 m' page = read32 m page" "canvas m' f = canvas m f"
    "kernel_cells w page f m' = kernel_cells w page f m"
proof -
  show r: "read32 m' page = read32 m page" using assms(2) by (intro read32_cong) (simp add: kernel_cells_def)
  have e: "entry_cells m' (read32 m page) v = entry_cells m (read32 m page) v"
    "mmu m' (read32 m page) v = mmu m (read32 m page) v" if "v \<in> win_bytes w" for v
    using entry_cells_same [of m "read32 m page" v m'] assms(2) that by (auto simp: kernel_cells_def)
  show k: "kernel_cells w page f m' = kernel_cells w page f m" using e(1) by (simp add: kernel_cells_def r)
  show c: "canvas m' f = canvas m f" using assms(2) by (intro screen_setup_same(7)) (simp add: kernel_cells_def)
  show "space_ok w page f m'" using assms(1) e(2) unfolding space_ok_def r k c by simp
qed

lemma machine_okD:
  assumes "machine_ok w st"
  obtains t where "tasks st (current_task st) = Some t" "space_ok w (page_directory t) (font st) (mem st)"
    "current_task st \<noteq> 0" "keyboard_ok st" "window_ok w" "isr80h_commands st = system_commands"
  using assms by (auto simp: machine_ok_def keyboard_ok_def split: option.splits)


lemma machine_ok_step:
  assumes "machine_ok w st" "isr80h_commands st' = isr80h_commands st" "keyboard_ok st'" "font st' = font st"
    and "tasks st (current_task st) = Some t" "tasks st' (current_task st') = Some t'" "page_directory t' = page_directory t"
    and "\<And>a. a \<in> kernel_cells w (page_directory t) (font st) (mem st) \<Longrightarrow> mem st' a = mem st a"
  shows "machine_ok w st'"
proof -
  have "space_ok w (page_directory t) (font st) (mem st)" using assms(1,5) by (simp add: machine_ok_def)
  from space_ok_same(1) [OF this assms(8)] show ?thesis using assms by (simp add: machine_ok_def)
qed

lemma user_runs_ok:
  assumes "machine_ok w st"
  shows "machine_ok w (st\<lparr>mem := user_memory w um (mem st)\<rparr>)"
proof -
  obtain t where t: "tasks st (current_task st) = Some t" "space_ok w (page_directory t) (font st) (mem st)" "keyboard_ok st"
    using assms by (rule machine_okD)
  have "user_memory w um (mem st) a = mem st a" if "a \<in> kernel_cells w (page_directory t) (font st) (mem st)" for a
  proof -
    have "a \<notin> user_cells w" using that t(2) by (auto simp: space_ok_def)
    then show ?thesis by (simp add: user_memory_def user_cells_def)
  qed
  with t assms show ?thesis
    by (intro machine_ok_step [OF assms, where t = t and t' = t]) (simp_all add: keyboard_ok_def)
qed

lemma key_pressed_ok:
  assumes "machine_ok w st" "c \<noteq> 0" "keys_seen st < 1024"
  shows "\<exists>st'. keyboard_push c st = Some st' \<and> machine_ok w st' \<and> pending_keys st' = pending_keys st @ [c] \<and>
    keys_seen st' = Suc (keys_seen st) \<and> mem st' = mem st"
proof -
  obtain t where t: "tasks st (current_task st) = Some t" "keyboard_ok st" using assms(1) by (rule machine_okD)
  obtain st' where k: "keyboard_push c st = Some st'" "keyboard_ok st'" "pending_keys st' = pending_keys st @ [c]"
    "keys_seen st' = Suc (keys_seen st)"
    using kq.put_appends [OF t(2) assms(2,3)] by blast
  moreover obtain kb where "st' = set_buffer kb st" using keyboard_push_eq [OF t(2) assms(2,3)] k(1) by simp
  then have "isr80h_commands st' = isr80h_commands st" "font st' = font st" "tasks st' (current_task st') = Some t" "mem st' = mem st"
    using t(1) by (simp_all add: set_buffer_def)
  ultimately show ?thesis using machine_ok_step [OF assms(1), of st' t t] t(1) by auto
qed

text \<open>The argument is read back from the stack through the address space of the program.\<close>

lemma stack_word:
  assumes "space_ok w page f m" "mem st = m" "cr3 st = read32 m page" "window_ok w"
  shows "vread32 (frame_esp (win_frame w)) st = Some (read32 m (win_slot w))"
proof -
  let ?e = "frame_esp (win_frame w)"
  have v: "vread8 (?e + of_nat i) st = Some (m (win_slot w + of_nat i))" if "i < 4" for i
  proof -
    have r: "?e + of_nat i \<in> region ?e 4" using that by (intro region_add) simp_all
    then have "win_there w (?e + of_nat i) = None" using assms(4) by (auto simp: window_ok_def)
    then have "win_phys w (?e + of_nat i) = win_slot w + of_nat i" by (simp add: win_phys_def)
    moreover have "?e + of_nat i \<in> win_bytes w" using r by (simp add: win_bytes_def)
    ultimately show ?thesis using assms(1-3) by (simp add: space_ok_def vread8_def)
  qed
  from v [of 0] v [of 1] v [of 2] v [of 3] show ?thesis by (simp add: vread32_def read32_def)
qed

text \<open>Pushing the argument does not disturb the kernel or the rest of the program.\<close>

lemma push_argument_ok:
  assumes "machine_ok w st"
  shows "machine_ok w (st\<lparr>mem := push_argument w arg (mem st)\<rparr>)"
    "a \<in> user_cells w \<Longrightarrow> push_argument w arg (mem st) a = mem st a"
proof -
  obtain t where t: "tasks st (current_task st) = Some t" "space_ok w (page_directory t) (font st) (mem st)" "keyboard_ok st"
    using assms by (rule machine_okD)
  have out: "push_argument w arg (mem st) a = mem st a" if "a \<notin> region (win_slot w) 4" for a
    using that by (simp add: push_argument_def write32_outside split: option.splits)
  show "push_argument w arg (mem st) a = mem st a" if "a \<in> user_cells w"
    using that t(2) by (intro out) (auto simp: space_ok_def)
  have "push_argument w arg (mem st) a = mem st a" if "a \<in> kernel_cells w (page_directory t) (font st) (mem st)" for a
    using that t(2) by (intro out) (auto simp: space_ok_def)
  with t show "machine_ok w (st\<lparr>mem := push_argument w arg (mem st)\<rparr>)"
    by (intro machine_ok_step [OF assms, where t = t and t' = t]) (simp_all add: keyboard_ok_def)
qed


text \<open>What the program sees when it runs again: its own address space.\<close>

definition in_user_space :: "'a kernel_state_scheme \<Rightarrow> bool" where
  "in_user_space st \<longleftrightarrow> (case tasks st (current_task st) of None \<Rightarrow> False
     | Some t \<Rightarrow> cr3 st = read32 (mem st) (page_directory t)) \<and> data_segment st = USER_DATA_SEGMENT"

definition key_answer :: "u8 list \<Rightarrow> u32" where
  "key_answer ks = (case ks of [] \<Rightarrow> 0 | c # cs \<Rightarrow> scast c)"

lemma return_to_user:
  assumes "machine_ok w st" "tasks st (current_task st) = Some t" "tasks s = tasks (in_kernel frame st)"
    and "current_task s = current_task st" "font s = font st" "isr80h_commands s = isr80h_commands st" "keyboard_ok s"
    and "\<And>a. a \<in> kernel_cells w (page_directory t) (font st) (mem st) \<Longrightarrow> mem s a = mem st a"
    and "st' = paging_switch (page_directory t) (user_registers s)"
  shows "machine_ok w st'" "in_user_space st'" "mem st' = mem s" "pending_keys st' = pending_keys s" "keys_seen st' = keys_seen s"
proof -
  have f: "mem st' = mem s" "processes st' = processes s" "current_process st' = current_process s" "font st' = font s"
    "isr80h_commands st' = isr80h_commands s" "tasks st' = tasks s" "current_task st' = current_task s"
    "cr3 st' = read32 (mem s) (page_directory t)" "data_segment st' = USER_DATA_SEGMENT"
    using assms(9) by (simp_all add: switch_defs)
  have t: "tasks s (current_task s) = Some (saved_task frame t)" using assms(2-4) by (simp add: in_kernel_tasks)
  show "mem st' = mem s" by (rule f(1))
  show "pending_keys st' = pending_keys s" "keys_seen st' = keys_seen s"
    using f by (simp_all add: pending_keys_def keys_seen_def current_buffer_def)
  show "in_user_space st'" using f t by (simp add: in_user_space_def)
  have "keyboard_ok st'" using assms(7) f by (simp add: keyboard_ok_def)
  then show "machine_ok w st'"
    using f t assms(5,6,8) by (intro machine_ok_step [OF assms(1) _ _ _ assms(2), of st' "saved_task frame t"]) simp_all
qed

lemma getkey_step:
  assumes "machine_ok w st" "keys_seen st < 1024"
  shows "\<exists>st'. isr80h_handler 3 (win_frame w) st = Some (Returns (key_answer (pending_keys st)), st') \<and>
    machine_ok w st' \<and> in_user_space st' \<and> pending_keys st' = tl (pending_keys st) \<and> keys_seen st' = keys_seen st \<and> mem st' = mem st"
proof -
  obtain t where t: "tasks st (current_task st) = Some t" "keyboard_ok st" "isr80h_commands st = system_commands"
    using assms(1) by (rule machine_okD)
  obtain kb where h: "isr80h_handler 3 (win_frame w) st = Some (Returns (case pending_keys st of [] \<Rightarrow> 0 | c # cs \<Rightarrow> scast c),
      paging_switch (page_directory t) (user_registers (set_buffer kb (in_kernel (win_frame w) st))))"
    "kb_ok kb" "kb_keys kb = tl (pending_keys st)" "kb_tail kb = kb_tail (current_buffer st)"
    by (rule getkey_returns [OF t(3,1,2) assms(2)])
  let ?s = "set_buffer kb (in_kernel (win_frame w) st)"
  have ok: "keyboard_ok (in_kernel (win_frame w) st)" using t(1,2) by (simp add: keyboard_ok_def in_kernel_tasks)
  note b = set_buffer_simps(1) [of kb "in_kernel (win_frame w) st"] set_buffer_simps(2) [OF ok h(2)]
  have f: "tasks ?s = tasks (in_kernel (win_frame w) st)" "current_task ?s = current_task st" "font ?s = font st"
    "isr80h_commands ?s = isr80h_commands st" "mem ?s = mem st" by (simp_all add: set_buffer_def)
  note r = return_to_user [OF assms(1) t(1) f(1-4) b(2) _ refl]
  show ?thesis using h r f(5) b(1) by (simp add: key_answer_def pending_keys_def keys_seen_def)
qed

lemma putchar_step:
  assumes "machine_ok w st"
  shows "\<exists>st'. isr80h_handler 2 (win_frame w) st = Some (Returns 0, st') \<and> machine_ok w st' \<and> in_user_space st' \<and>
    pending_keys st' = pending_keys st \<and> keys_seen st' = keys_seen st \<and> (\<forall>a \<in> user_cells w. mem st' a = mem st a)"
proof -
  obtain t where t: "tasks st (current_task st) = Some t" "space_ok w (page_directory t) (font st) (mem st)" "current_task st \<noteq> 0"
    "keyboard_ok st" "window_ok w" "isr80h_commands st = system_commands" using assms by (rule machine_okD)
  let ?a = "read32 (mem st) (win_slot w)"
  have v: "vread32 (frame_esp (win_frame w)) (st\<lparr>cr3 := read32 (mem st) (page_directory t)\<rparr>) = Some ?a"
    by (intro stack_word [OF t(2) _ _ t(5)]) simp_all
  let ?k = "in_kernel (win_frame w) st" let ?s = "terminal_writechar (ucast ?a) ?k"
  note h = putchar_returns [OF t(6,3,1) refl v]
  have "screen_setup (font ?k) \<inter> canvas (mem ?k) (font ?k) = {}" using t(2) by (auto simp: space_ok_def kernel_cells_def)
  from terminal_writechar_paints [OF this] have p: "paints (font st) (mem st) (mem ?s)" by simp
  then have out: "mem ?s a = mem st a" if "a \<notin> canvas (mem st) (font st)" for a using that by (simp add: paints_def)
  have kc: "mem ?s a = mem st a" if "a \<in> kernel_cells w (page_directory t) (font st) (mem st)" for a
    using that t(2) by (intro out) (auto simp: space_ok_def)
  have uc: "mem ?s a = mem st a" if "a \<in> user_cells w" for a using that t(2) by (intro out) (auto simp: space_ok_def)
  have f: "tasks ?s = tasks ?k" "current_task ?s = current_task st" "font ?s = font st" "isr80h_commands ?s = isr80h_commands st"
    "processes ?s = processes st" "current_process ?s = current_process st"
    by (subst terminal_writechar_fields, simp)+
  have "keyboard_ok ?s" using t(1,4) f by (simp add: keyboard_ok_def in_kernel_tasks)
  note r = return_to_user [OF assms t(1) f(1-4) this kc refl]
  have "pending_keys ?s = pending_keys st" "keys_seen ?s = keys_seen st"
    using f by (simp_all add: pending_keys_def keys_seen_def current_buffer_def)
  with h r uc show ?thesis by simp
qed


section \<open>Runs\<close>

text \<open>The events that may happen: keys, calls for output and keys, and whatever the program does.\<close>

fun console_event :: "event \<Rightarrow> bool" where
  "console_event (UserRuns um) = True"
| "console_event (KeyPressed c) = (c \<noteq> 0)"
| "console_event (SystemCall code arg) = (code = 2 \<or> code = 3)"

fun keys_typed :: "event list \<Rightarrow> u8 list" where
  "keys_typed [] = []"
| "keys_typed (KeyPressed c # es) = c # keys_typed es"
| "keys_typed (UserRuns um # es) = keys_typed es"
| "keys_typed (SystemCall code arg # es) = keys_typed es"

definition keys_answered :: "(u32 \<times> u32) list \<Rightarrow> u8 list" where
  "keys_answered vs = waiting (map (\<lambda>(c, v). ucast v) (filter (\<lambda>(c, v). c = 3) vs))"

lemma keys_answered_simps [simp]:
  "keys_answered [] = []" "keys_answered (vs @ ws) = keys_answered vs @ keys_answered ws"
  "c \<noteq> 3 \<Longrightarrow> keys_answered [(c, v)] = []" "keys_answered [(3, v)] = (if (ucast v :: u8) = 0 then [] else [ucast v])"
  by (simp_all add: keys_answered_def waiting_def)

lemma key_answer_keys:
  "0 \<notin> set ks \<Longrightarrow> keys_answered [(3, key_answer ks)] @ tl ks = ks"
  by (cases ks) (auto simp: key_answer_def scast_ucast_byte)

lemma call_step:
  assumes "machine_ok w st" "code = 2 \<or> code = 3" "keys_seen st < 1024"
  shows "\<exists>v st'. step w (SystemCall code arg) st = Some ([(code, v)], st') \<and> machine_ok w st' \<and> in_user_space st' \<and>
    keys_seen st' = keys_seen st \<and> (\<forall>a \<in> user_cells w. mem st' a = mem st a) \<and>
    (if code = 3 then v = key_answer (pending_keys st) \<and> pending_keys st' = tl (pending_keys st)
     else pending_keys st' = pending_keys st)"
proof -
  let ?st = "st\<lparr>mem := push_argument w arg (mem st)\<rparr>"
  have ok: "machine_ok w ?st" by (rule push_argument_ok(1) [OF assms(1)])
  have k: "pending_keys ?st = pending_keys st" "keys_seen ?st = keys_seen st"
    by (simp_all add: pending_keys_def keys_seen_def current_buffer_def)
  have s: "sint (2 :: u32) = 2" "sint (3 :: u32) = 3" by simp_all
  note u = push_argument_ok(2) [OF assms(1), of _ arg]
  show ?thesis
  proof (cases "code = 3")
    case True
    then show ?thesis using getkey_step [OF ok] assms(3) k u by (auto simp: s)
  next
    case False
    then have "code = 2" using assms(2) by simp
    then show ?thesis using putchar_step [OF ok] k u by (auto simp: s)
  qed
qed

lemma run_ok:
  assumes "machine_ok w st" "\<forall>e \<in> set es. console_event e" "keys_seen st + length (keys_typed es) < 1024"
  shows "\<exists>vs st'. run w es st = Some (vs, st') \<and> machine_ok w st' \<and>
    keys_seen st' = keys_seen st + length (keys_typed es) \<and>
    keys_answered vs @ pending_keys st' = pending_keys st @ keys_typed es"
  using assms
proof (induction es arbitrary: st)
  case Nil
  then show ?case by simp
next
  case (Cons e es)
  show ?case
  proof (cases e)
    case (UserRuns um)
    let ?st = "st\<lparr>mem := user_memory w um (mem st)\<rparr>"
    have "pending_keys ?st = pending_keys st" "keys_seen ?st = keys_seen st"
      by (simp_all add: pending_keys_def keys_seen_def current_buffer_def)
    with Cons.IH [OF user_runs_ok [OF Cons.prems(1), of um]] Cons.prems UserRuns show ?thesis by auto
  next
    case (KeyPressed c)
    then obtain st1 where "keyboard_push c st = Some st1" "machine_ok w st1" "pending_keys st1 = pending_keys st @ [c]"
      "keys_seen st1 = Suc (keys_seen st)" using key_pressed_ok [OF Cons.prems(1), of c] Cons.prems by auto
    with Cons.IH [of st1] Cons.prems KeyPressed show ?thesis by auto
  next
    case (SystemCall code arg)
    then have c: "code = 2 \<or> code = 3" "keys_seen st < 1024" using Cons.prems by auto
    obtain v st1 where s: "step w e st = Some ([(code, v)], st1)" "machine_ok w st1" "keys_seen st1 = keys_seen st"
      "if code = 3 then v = key_answer (pending_keys st) \<and> pending_keys st1 = tl (pending_keys st)
       else pending_keys st1 = pending_keys st"
      using call_step [OF Cons.prems(1) c, of arg] SystemCall by blast
    obtain ws st2 where r: "run w es st1 = Some (ws, st2)" "machine_ok w st2" "keys_seen st2 = keys_seen st1 + length (keys_typed es)"
      and "keys_answered ws @ pending_keys st2 = pending_keys st1 @ keys_typed es"
      using Cons.IH [OF s(2)] Cons.prems SystemCall s(3) by auto
    moreover have "keys_answered [(code, v)] @ pending_keys st1 = pending_keys st"
      using s(4) c(1) key_answer_keys [OF keyboard_pending_nonzero [of st]] Cons.prems(1) by (auto simp: machine_ok_def split: if_splits)
    ultimately have "keys_answered ([(code, v)] @ ws) @ pending_keys st2 = pending_keys st @ keys_typed es"
      unfolding keys_answered_simps(2) append_assoc by (metis append_assoc)
    then show ?thesis using r s(1,3) SystemCall by (intro exI [of _ "[(code, v)] @ ws"] exI [of _ st2]) simp
  qed
qed


section \<open>The kernel that a program talks to\<close>

text \<open>
  A history of calls as events: before each call the program has written its memory, and
  the keys in \<open>arr ! n\<close> have been pressed before the call for a key number \<open>n\<close>.  The program
  then finds the value that the handler returned, and the memory that it reads through its own
  address space.
\<close>

fun events_of :: "u8 list list \<Rightarrow> call list \<Rightarrow> event list" where
  "events_of arr [] = []"
| "events_of arr (c # h) =
     (if call_code c = 3 then map KeyPressed (concat (take 1 arr)) else []) @
     UserRuns (call_mem c) # SystemCall (call_code c) (call_arg c) #
     events_of (if call_code c = 3 then tl arr else arr) h"

definition process_view :: "window \<Rightarrow> memory \<Rightarrow> 'a kernel_state_scheme \<Rightarrow> memory" where
  "process_view w um st = (\<lambda>v. case win_there w v of None \<Rightarrow> um v
     | Some p \<Rightarrow> (case vread8 v st of None \<Rightarrow> um v | Some b \<Rightarrow> b))"

definition kernel_of ::
  "window \<Rightarrow> u8 list list \<Rightarrow> 'a kernel_state_scheme \<Rightarrow> call list \<Rightarrow> u32 \<times> memory" where
  "kernel_of w arr st h = (case run w (events_of arr h) st of
       None \<Rightarrow> (0, call_mem (last h))
     | Some (vs, st') \<Rightarrow> (snd (last vs), process_view w (call_mem (last h)) st'))"

text \<open>The answers to the calls for a key, when \<open>q\<close> is waiting and the keys in \<open>arr\<close> are pressed.\<close>

fun answers :: "u8 list \<Rightarrow> u8 list list \<Rightarrow> u8 list" where
  "answers q [] = q"
| "answers q (a # arr) = (case q @ a of [] \<Rightarrow> 0 # answers [] arr | c # cs \<Rightarrow> c # answers cs arr)"

lemma answers_keys: "0 \<notin> set q \<Longrightarrow> 0 \<notin> set (concat arr) \<Longrightarrow> waiting (answers q arr) = q @ concat arr"
proof (induction arr arbitrary: q)
  case Nil
  then show ?case by (auto simp: waiting_def filter_id_conv)
next
  case (Cons a arr)
  have "0 \<notin> set (q @ a)" using Cons.prems by simp
  then show ?case using Cons by (cases "q @ a") (auto simp: waiting_def append_assoc [symmetric] simp del: append_assoc)
qed

lemma answers_next:
  "answers q arr \<noteq> [] \<Longrightarrow> answers q arr = hd ((q @ concat (take 1 arr)) @ [0]) # answers (tl (q @ concat (take 1 arr))) (tl arr)"
  by (cases arr; cases q) (auto split: list.splits)

lemma answers_tl: "answers (tl (q @ concat (take 1 arr))) (tl arr) = tl (answers q arr)"
  by (cases arr) (auto split: list.splits)

lemma run_append:
  "run w (es @ fs) st = do { (vs, st1) \<leftarrow> run w es st; (ws, st2) \<leftarrow> run w fs st1; Some (vs @ ws, st2) }"
  by (induction es arbitrary: st) (auto split: bind_splits)

lemma run_keys:
  assumes "machine_ok w st" "0 \<notin> set ks" "keys_seen st + length ks < 1024"
  shows "\<exists>st'. run w (map KeyPressed ks) st = Some ([], st') \<and> machine_ok w st' \<and> pending_keys st' = pending_keys st @ ks \<and>
    keys_seen st' = keys_seen st + length ks"
  using assms
proof (induction ks arbitrary: st)
  case (Cons c ks)
  then obtain st1 where "keyboard_push c st = Some st1" "machine_ok w st1" "pending_keys st1 = pending_keys st @ [c]"
    "keys_seen st1 = Suc (keys_seen st)" using key_pressed_ok [OF Cons.prems(1), of c] by auto
  with Cons.IH [of st1] Cons.prems show ?case by auto
qed simp

lemma process_view_eq:
  assumes "machine_ok w st" "in_user_space st" "\<And>p v. win_back w p = Some v \<Longrightarrow> mem st p = um v"
  shows "process_view w um st = um"
proof
  fix v
  obtain t where t: "tasks st (current_task st) = Some t" "space_ok w (page_directory t) (font st) (mem st)" "window_ok w"
    using assms(1) by (rule machine_okD)
  show "process_view w um st v = um v"
  proof (cases "win_there w v")
    case (Some p)
    then have "mmu (mem st) (read32 (mem st) (page_directory t)) v = Some p"
      using t(2) by (auto simp: space_ok_def win_bytes_def win_phys_def)
    then have "vread8 v st = Some (mem st p)" using assms(2) t(1) by (simp add: vread8_def in_user_space_def)
    moreover have "win_back w p = Some v" using t(3) Some by (simp add: window_ok_def)
    ultimately show ?thesis using Some assms(3) by (simp add: process_view_def)
  qed (simp add: process_view_def)
qed

text \<open>One call of the program.\<close>

lemma serve_call:
  assumes "machine_ok w st" "call_code c = 2 \<or> call_code c = 3" "0 \<notin> set (concat arr)" "keys_seen st + length (concat arr) < 1024"
    and "arr' = (if call_code c = 3 then tl arr else arr)"
  shows "\<exists>v st'. run w (events_of arr [c]) st = Some ([(call_code c, v)], st') \<and> machine_ok w st' \<and>
    process_view w (call_mem c) st' = call_mem c \<and> keys_seen st' + length (concat arr') < 1024 \<and>
    answers (pending_keys st') arr' = (if call_code c = 3 then tl (answers (pending_keys st) arr) else answers (pending_keys st) arr) \<and>
    (call_code c = 3 \<and> answers (pending_keys st) arr \<noteq> [] \<longrightarrow> v = scast (hd (answers (pending_keys st) arr)))"
proof -
  let ?ks = "if call_code c = 3 then concat (take 1 arr) else []"
  have split: "concat arr = concat (take 1 arr) @ concat (tl arr)" by (cases arr) simp_all
  have ks: "0 \<notin> set ?ks" "keys_seen st + length ?ks < 1024" using assms(3,4) unfolding split by auto
  obtain st1 where s1: "run w (map KeyPressed ?ks) st = Some ([], st1)" "machine_ok w st1" "pending_keys st1 = pending_keys st @ ?ks"
    "keys_seen st1 = keys_seen st + length ?ks" using run_keys [OF assms(1) ks] by blast
  let ?st2 = "st1\<lparr>mem := user_memory w (call_mem c) (mem st1)\<rparr>"
  have k2: "pending_keys ?st2 = pending_keys st1" "keys_seen ?st2 = keys_seen st1"
    by (simp_all add: pending_keys_def keys_seen_def current_buffer_def)
  have "keys_seen ?st2 < 1024" using ks(2) s1(4) k2 by simp
  from call_step [OF user_runs_ok [OF s1(2)] assms(2) this, of "call_arg c"]
  obtain v st' where s: "step w (SystemCall (call_code c) (call_arg c)) ?st2 = Some ([(call_code c, v)], st')" "machine_ok w st'"
    "in_user_space st'" "keys_seen st' = keys_seen st1" "\<forall>a \<in> user_cells w. mem st' a = mem ?st2 a"
    "if call_code c = 3 then v = key_answer (pending_keys st1) \<and> pending_keys st' = tl (pending_keys st1)
     else pending_keys st' = pending_keys st1"
    unfolding k2 by blast
  have ev: "events_of arr [c] = map KeyPressed ?ks @ [UserRuns (call_mem c), SystemCall (call_code c) (call_arg c)]" by simp
  have run: "run w (events_of arr [c]) st = Some ([(call_code c, v)], st')"
    unfolding ev run_append s1(1) using s(1) by simp
  have view: "process_view w (call_mem c) st' = call_mem c"
    using s(5) by (intro process_view_eq [OF s(2,3)]) (auto simp: user_cells_def user_memory_def)
  have len: "keys_seen st' + length (concat arr') < 1024"
    using s(4) s1(4) assms(4,5) arg_cong [OF split, of length] by auto
  show ?thesis
  proof (cases "call_code c = 3")
    case True
    then have q: "pending_keys st1 = pending_keys st @ concat (take 1 arr)" "arr' = tl arr" "v = key_answer (pending_keys st1)"
      "pending_keys st' = tl (pending_keys st1)" using s1(3) assms(5) s(6) by auto
    have "v = scast (hd (answers (pending_keys st) arr))" if "answers (pending_keys st) arr \<noteq> []"
      unfolding answers_next [OF that, folded q(1)] q(3) by (cases "pending_keys st1") (simp_all add: key_answer_def)
    then show ?thesis using run s(2) view len True q by (auto simp: answers_tl [unfolded One_nat_def])
  next
    case False
    then show ?thesis using run s(2) view len s(6) s1(3) assms(5) by auto
  qed
qed


lemma events_of_append:
  "events_of arr (h @ h') = events_of arr h @ events_of (drop (keys_taken h) arr) h'"
proof (induction h arbitrary: arr)
  case (Cons c h)
  then show ?case by (cases arr) auto
qed simp

lemma serve_calls:
  assumes "machine_ok w st" "console {2, 3} h" "0 \<notin> set (concat arr)" "keys_seen st + length (concat arr) < 1024"
    and "arr' = drop (keys_taken h) arr"
  shows "\<exists>vs st'. run w (events_of arr h) st = Some (vs, st') \<and> machine_ok w st' \<and> keys_seen st' + length (concat arr') < 1024 \<and>
    answers (pending_keys st') arr' = drop (keys_taken h) (answers (pending_keys st) arr)"
  using assms
proof (induction h arbitrary: st arr)
  case Nil
  then show ?case by simp
next
  case (Cons c h)
  let ?arr = "if call_code c = 3 then tl arr else arr"
  have c: "call_code c = 2 \<or> call_code c = 3" "console {2, 3} h" using Cons.prems(2) by auto
  obtain v st1 where s: "run w (events_of arr [c]) st = Some ([(call_code c, v)], st1)" "machine_ok w st1"
    "keys_seen st1 + length (concat ?arr) < 1024"
    "answers (pending_keys st1) ?arr = (if call_code c = 3 then tl (answers (pending_keys st) arr) else answers (pending_keys st) arr)"
    using serve_call [OF Cons.prems(1) c(1) Cons.prems(3,4) refl] by blast
  have "set (concat ?arr) \<subseteq> set (concat arr)" by (cases arr) auto
  then have "0 \<notin> set (concat ?arr)" using Cons.prems(3) by blast
  moreover have "arr' = drop (keys_taken h) ?arr" using Cons.prems(5) by (simp add: drop_Suc)
  ultimately obtain vs st' where r: "run w (events_of ?arr h) st1 = Some (vs, st')" "machine_ok w st'"
    "keys_seen st' + length (concat arr') < 1024"
    "answers (pending_keys st') arr' = drop (keys_taken h) (answers (pending_keys st1) ?arr)"
    using Cons.IH [OF s(2) c(2) _ s(3)] by blast
  have e: "events_of arr (c # h) = events_of arr [c] @ events_of ?arr h" by simp
  have "run w (events_of arr (c # h)) st = Some ([(call_code c, v)] @ vs, st')"
    unfolding e run_append s(1) Option.bind.bind_lunit prod.case r(1) ..
  then show ?case using r(2-4) s(4) by (auto simp: drop_Suc)
qed

text \<open>The handlers keep the promises on which the library of the programs relies.\<close>

lemma kernel_of_last:
  assumes "machine_ok w st" "console {2, 3} h" "0 \<notin> set (concat arr)" "keys_seen st + length (concat arr) < 1024"
    and "call_code c = 2 \<or> call_code c = 3"
  shows "snd (kernel_of w arr st (h @ [c])) = call_mem c"
    "call_code c = 3 \<Longrightarrow> keys_taken h < length (answers (pending_keys st) arr) \<Longrightarrow>
      fst (kernel_of w arr st (h @ [c])) = scast (answers (pending_keys st) arr ! keys_taken h)"
proof -
  let ?n = "keys_taken h" and ?zs = "answers (pending_keys st) arr"
  obtain vs st1 where s: "run w (events_of arr h) st = Some (vs, st1)" "machine_ok w st1"
    "keys_seen st1 + length (concat (drop ?n arr)) < 1024" "answers (pending_keys st1) (drop ?n arr) = drop ?n ?zs"
    using serve_calls [OF assms(1-4) refl] by blast
  have "0 \<notin> set (concat (drop ?n arr))" using assms(3) by (auto dest: in_set_dropD)
  from serve_call [OF s(2) assms(5) this s(3) refl] obtain v st2 where
    c: "run w (events_of (drop ?n arr) [c]) st1 = Some ([(call_code c, v)], st2)" "process_view w (call_mem c) st2 = call_mem c"
    "call_code c = 3 \<and> drop ?n ?zs \<noteq> [] \<longrightarrow> v = scast (hd (drop ?n ?zs))"
    unfolding s(4) by blast
  have k: "kernel_of w arr st (h @ [c]) = (v, call_mem c)"
    by (simp add: kernel_of_def events_of_append run_append s(1) c(1,2) del: events_of.simps)
  show "snd (kernel_of w arr st (h @ [c])) = call_mem c" by (simp add: k)
  show "fst (kernel_of w arr st (h @ [c])) = scast (?zs ! ?n)" if "call_code c = 3" "?n < length ?zs"
    using c(3) that by (simp add: k hd_drop_conv_nth)
qed

lemma kernel_of_serves:
  assumes "machine_ok w st" "0 \<notin> set (concat arr)" "keys_seen st + length (concat arr) < 1024"
    and "k = (\<lambda>h. kernel_of w arr st (drop (length h0) h))"
  shows "keeps_memory {2, 3} k h0" "delivers k h0 (answers (pending_keys st) arr)"
  using kernel_of_last [OF assms(1) _ assms(2,3)] by (auto simp: keeps_memory_def delivers_def assms(4))


section \<open>Properties\<close>

text \<open>
  C7: the kernel under any load.  Whatever a program writes to its memory and whenever keys are
  pressed, as long as the program only writes characters and asks for keys and fewer than 1024
  keys are pressed, every call returns, the machine stays in order, and the keys that the
  calls have delivered followed by those that still wait are the keys that waited at first
  followed by those pressed, in order: none is lost, repeated or invented.
\<close>

theorem keys_are_conserved:
  assumes "machine_ok w st" "\<forall>e \<in> set es. console_event e" "keys_seen st + length (keys_typed es) < 1024"
  shows "\<exists>vs st'. run w es st = Some (vs, st') \<and> machine_ok w st' \<and>
    keys_seen st' = keys_seen st + length (keys_typed es) \<and>
    keys_answered vs @ pending_keys st' = pending_keys st @ keys_typed es"
  by (rule run_ok [OF assms])

text \<open>
  C8: a line from the keyboard to the program.  A process that runs above the handlers of the
  kernel, with keys that wait already or are pressed while it asks for them, gets the line
  they make up into its buffer by \<^verbatim>\<open>read_line\<close>: the calls it makes are all served, what it
  sees of its memory changes in the buffer only, and the keys after the carriage return are
  left for the next line.
\<close>

theorem read_line_on_kernel:
  assumes "machine_ok w st" "0 \<notin> set (concat arr)" "keys_seen st + length (concat arr) < 1024"
    and "kernel u = (\<lambda>h. kernel_of w arr st (drop (length (calls u)) h))"
    and "pending_keys st @ concat arr = ks @ 13 # rest" "13 \<notin> set ks"
    and "\<And>i. i \<le> length ks \<Longrightarrow> length (typed (take i ks)) < n" "n \<le> 2147483648"
  shows "\<exists>m' t vs st'. read_line buffer (int n) echo u = Some (u\<lparr>umem := m', calls := calls u @ t\<rparr>) \<and>
    cstr m' buffer (typed ks) \<and> (\<forall>a. a \<notin> region buffer n \<longrightarrow> m' a = umem u a) \<and> shown t = (if echo then ks else []) \<and>
    run w (events_of arr t) st = Some (vs, st') \<and> machine_ok w st' \<and>
    pending_keys st' @ concat (drop (keys_taken t) arr) = rest"
proof -
  let ?zs = "answers (pending_keys st) arr"
  note k = kernel_of_serves [OF assms(1-4)]
  have nz: "0 \<notin> set (pending_keys st)" using assms(1) by (simp add: machine_ok_def keyboard_pending_nonzero)
  have w: "waiting ?zs = ks @ 13 # rest" using answers_keys [OF nz assms(2)] assms(5) by simp
  obtain m' t where r: "read_line buffer (int n) echo u = Some (u\<lparr>umem := m', calls := calls u @ t\<rparr>)"
    "cstr m' buffer (typed ks)" "\<forall>a. a \<notin> region buffer n \<longrightarrow> m' a = umem u a" "console {2, 3} t"
    "waiting (drop (keys_taken t) ?zs) = rest" "shown t = (if echo then ks else [])"
    using read_line_spec [OF k w assms(6-8), of buffer echo] by blast
  obtain vs st' where s: "run w (events_of arr t) st = Some (vs, st')" "machine_ok w st'"
    "answers (pending_keys st') (drop (keys_taken t) arr) = drop (keys_taken t) ?zs"
    using serve_calls [OF assms(1) r(4) assms(2,3) refl] by blast
  have "0 \<notin> set (pending_keys st')" "0 \<notin> set (concat (drop (keys_taken t) arr))"
    using s(2) assms(2) by (auto simp: machine_ok_def keyboard_pending_nonzero dest: in_set_dropD)
  then have "pending_keys st' @ concat (drop (keys_taken t) arr) = rest" using answers_keys r(5) s(3) by metis
  then show ?thesis using r s(1,2) by blast
qed

text \<open>
  A machine for the witnesses: the screen of the terminal, and a program whose page is mapped
  to itself.
\<close>

definition machine_ex :: kernel_state where
  "machine_ex = kernel_state_ex\<lparr>mem := screen_mem, tasks := [0x600 \<mapsto> (task_ex 0 0)\<lparr>page_directory := 0x9000, task_process := 0x700\<rparr>],
     current_task := 0x600, isr80h_commands := system_commands\<rparr>"

definition window_ex :: window where
  "window_ex = \<lparr>win_there = (\<lambda>v. if v \<in> region 0x10100 256 then Some v else None),
     win_back = (\<lambda>v. if v \<in> region 0x10100 256 then Some v else None), win_slot = 0x10000, win_frame = frame_ex 0x10000\<rparr>"

lemma page_ex:
  assumes "0x10000 \<le> v" "v < 0x11000"
  shows "paging_get_index v = (0, 16)" "mmu screen_mem 0xA000 v = Some v" "entry_cells screen_mem 0xA000 v = region 0xA000 4 \<union> region 0xB040 4"
proof -
  have u: "0x10000 \<le> unat v" "unat v < 0x11000" using assms by (simp_all add: word_le_nat_alt word_less_nat_alt)
  have "unat v mod 4194304 div 4096 = 16" "unat v div 4194304 = 0" using u by simp_all
  then show i: "paging_get_index v = (0, 16)" by (simp add: paging_get_index_def word_arith_nat_div word_arith_nat_mod unat_of_nat)
  have "unat v mod 4096 = unat v - 0x10000"
    using u mod_mult_self2 [of "unat v - 0x10000" 4096 16] by simp
  then have "unat (0x10000 + v mod 4096) = unat v" using u by (simp add: unat_word_ariths)
  then have "v = 0x10000 + v mod 4096" by (simp add: word_unat_eq_iff)
  then show "mmu screen_mem 0xA000 v = Some v"
    by (simp add: mmu_def get_page_def i read32_def screen_mem_def)
  show "entry_cells screen_mem 0xA000 v = region 0xA000 4 \<union> region 0xB040 4"
    by (simp add: entry_cells_def i read32_def screen_mem_def)
qed

lemma canvas_ex: "canvas screen_mem 0x6000 \<subseteq> region 0xE0000000 0x2000000"
proof
  fix a
  assume "a \<in> canvas screen_mem 0x6000"
  then obtain x y :: int and j :: nat where a: "a = 0xE0000000 + (of_int (y * 256 + x * 4) + of_nat j)"
    and b: "0 \<le> x" "x < 65544" "0 \<le> y" "y < 65552" "j < 3"
    by (auto simp: canvas_def screen_ex_values)
  have "a = 0xE0000000 + of_nat (nat (y * 256 + x * 4) + j)" unfolding a using b by simp
  also have "\<dots> \<in> region 0xE0000000 0x2000000" using b by (intro region_add) simp_all
  finally show "a \<in> region 0xE0000000 0x2000000" .
qed

lemma window_ex_bytes: "v \<in> win_bytes window_ex \<Longrightarrow> 0x10000 \<le> v \<and> v < 0x11000 \<and> win_phys window_ex v = v"
  by (auto simp: win_bytes_def win_phys_def window_ex_def frame_ex_def region_interval word_le_nat_alt word_less_nat_alt)

lemma machine_ex_ok: "machine_ok window_ex machine_ex" "pending_keys machine_ex = []" "keys_seen machine_ex = 0"
proof -
  have f: "processes machine_ex = [0x700 \<mapsto> zero_process]" "current_process machine_ex = 0x700" "font machine_ex = 0x6000"
    by (simp_all add: machine_ex_def kernel_state_ex_def screen_state_ex_def keyboard_state_ex_def screen_state.defs
      keyboard_state.defs process_state.defs)
  have g: "mem machine_ex = screen_mem" "tasks machine_ex = [0x600 \<mapsto> (task_ex 0 0)\<lparr>page_directory := 0x9000, task_process := 0x700\<rparr>]"
    "current_task machine_ex = 0x600" "isr80h_commands machine_ex = system_commands" by (simp_all add: machine_ex_def)
  have kb: "keyboard_ok machine_ex"
    using f g by (simp add: keyboard_ok_def zero_process_def kb_ok_def)
  show "pending_keys machine_ex = []" "keys_seen machine_ex = 0"
    using f by (simp_all add: pending_keys_def keys_seen_def current_buffer_def kb_keys_def zero_process_def)
  have pd: "read32 screen_mem 0x9000 = 0xA000" by (simp add: read32_def screen_mem_def)
  have uc: "user_cells window_ex = region 0x10100 256" by (auto simp: user_cells_def window_ex_def)
  have e: "(\<Union>v \<in> win_bytes window_ex. entry_cells screen_mem 0xA000 v) \<subseteq> region 0xA000 4 \<union> region 0xB040 4"
    using page_ex(3) window_ex_bytes by blast
  have sub: "region 0x5000 44 \<subseteq> region 0x5000 (0x7000 :: nat)" "region 0x6000 32 \<subseteq> region (0x5000 :: addr) 0x7000"
    "region 0x9000 4 \<subseteq> region (0x5000 :: addr) 0x7000" "region 0xA000 4 \<subseteq> region (0x5000 :: addr) 0x7000"
    "region 0xB040 4 \<subseteq> region (0x5000 :: addr) 0x7000"
    by (auto simp: region_interval)
  have kc: "kernel_cells window_ex 0x9000 0x6000 screen_mem \<subseteq> region 0x5000 0x7000"
    unfolding kernel_cells_def screen_setup_def pd using e sub by blast
  have dis: "region 0x5000 0x7000 \<inter> region (0xE0000000 :: addr) 0x2000000 = {}" "region 0x5000 0x7000 \<inter> region (0x10100 :: addr) 256 = {}"
    "region 0x5000 0x7000 \<inter> region (0x10000 :: addr) 4 = {}" "region 0x10100 256 \<inter> region (0xE0000000 :: addr) 0x2000000 = {}"
    "region 0x10100 256 \<inter> region (0x10000 :: addr) 4 = {}"
    by (auto simp: region_interval)
  have slot: "win_slot window_ex = 0x10000" by (simp add: window_ex_def)
  have "\<forall>v \<in> win_bytes window_ex. mmu screen_mem 0xA000 v = Some (win_phys window_ex v)"
    using window_ex_bytes page_ex(2) by force
  then have "space_ok window_ex 0x9000 0x6000 screen_mem"
    unfolding space_ok_def uc pd slot using kc canvas_ex dis by blast
  moreover have "window_ok window_ex" using dis(5) by (auto simp: window_ok_def window_ex_def frame_ex_def split: if_splits)
  ultimately show "machine_ok window_ex machine_ex" using kb f g by (simp add: machine_ok_def)
qed

theorem keys_are_conserved_witness:
  "\<exists>vs st'. run window_ex [KeyPressed 0x6C, SystemCall 3 None, KeyPressed 0x73, UserRuns (\<lambda>_. 7), SystemCall 2 (Some 0x6C)] machine_ex
     = Some (vs, st') \<and> keys_answered vs @ pending_keys st' = [0x6C, 0x73]"
proof -
  let ?es = "[KeyPressed 0x6C, SystemCall 3 None, KeyPressed 0x73, UserRuns (\<lambda>_. 7), SystemCall 2 (Some 0x6C)]"
  have "\<forall>e \<in> set ?es. console_event e" "keys_seen machine_ex + length (keys_typed ?es) < 1024"
    by (simp_all add: machine_ex_ok(3))
  from keys_are_conserved [OF machine_ex_ok(1) this] show ?thesis unfolding machine_ex_ok(2) by auto
qed

theorem read_line_on_kernel_witness:
  "\<exists>u :: user_state. \<exists>m' t. read_line 0x10100 8 True u = Some (u\<lparr>umem := m', calls := calls u @ t\<rparr>) \<and>
     cstr m' 0x10100 [0x6C, 0x73] \<and> shown t = [0x6C, 0x74, 8, 0x73]"
proof -
  let ?arr = "[[0x6C], [], [0x74, 8], [0x73, 13]] :: u8 list list" and ?ks = "[0x6C, 0x74, 8, 0x73] :: u8 list"
  define u where "u = (user_ex [] (\<lambda>_. 0))\<lparr>kernel := kernel_of window_ex ?arr machine_ex\<rparr>"
  have k: "kernel u = (\<lambda>h. kernel_of window_ex ?arr machine_ex (drop (length (calls u)) h))"
    by (simp add: u_def user_ex_def)
  have a: "0 \<notin> set (concat ?arr)" "keys_seen machine_ex + length (concat ?arr) < 1024"
    "pending_keys machine_ex @ concat ?arr = ?ks @ 13 # []" by (simp_all add: machine_ex_ok(2,3))
  have b: "13 \<notin> set ?ks" by simp
  have len: "length (typed (take i ?ks)) < 8" if "i \<le> length ?ks" for i
    using typed_length [of "take i ?ks"] by simp
  have n: "(8 :: nat) \<le> 2147483648" by simp
  have t: "typed ?ks = [0x6C, 0x73]" by (simp add: typed_def edit_def)
  from read_line_on_kernel [OF machine_ex_ok(1) a(1,2) k a(3) b len n, where buffer = "0x10100" and echo = True]
  show ?thesis unfolding t by (intro exI [of _ u]) auto
qed

end
