(* ===== verification/Zhios_Kernel.thy ===== *)
theory Zhios_Kernel
  imports Zhios_Interrupts
begin

text \<open>
  The descriptor table and task-state segment of \<^verbatim>\<open>src/src/gdt/gdt.c\<close>, and \<^verbatim>\<open>kernel_main\<close> of
  \<^verbatim>\<open>src/src/kernel.c\<close>, which runs the initialisers of all components in order and enters the
  first process.  The registers that the assembly loads (\<open>gdtr\<close>, \<open>task_register\<close>) are fields.
\<close>

section \<open>State\<close>

record GdtEntry =
  gdt_limit :: u16
  base_low :: u16
  base_middle :: u8
  gdt_access :: u8
  gdt_flags :: u8
  base_high :: u8

record GdtEntity =
  ent_limit :: u32
  ent_base :: u32
  ent_type :: u8

record TSS =
  tss_esp0 :: u32
  tss_ss0 :: u32

text \<open>
  Of the 27 words of the task-state segment the code sets two and clears the others; those
  are the fields of \<open>TSS\<close>.  \<open>lit_shell\<close> is the address of the name of the first program, \<open>x_var\<close>
  the global \<^verbatim>\<open>x\<close>.
\<close>

record main_state = kernel_state +
  gdt_table :: "GdtEntry list"
  gdt_entities :: "GdtEntity list"
  gdt_addr :: addr
  gdtr :: "u32 \<times> u16"
  tss :: TSS
  tss_addr :: addr
  task_register :: u16
  lit_shell :: addr
  x_var :: int

section \<open>gdt.c\<close>

definition encode_entity :: "GdtEntity \<Rightarrow> GdtEntry" where
  "encode_entity e =
     \<lparr>gdt_limit = ucast (ent_limit e AND 0xFFFF),
      base_low = ucast (ent_base e AND 0xFFFF),
      base_middle = ucast (drop_bit 16 (ent_base e) AND 0xFF),
      gdt_access = ent_type e,
      gdt_flags = ucast (drop_bit 16 (ent_limit e) AND 0x0F) OR 0xC0,
      base_high = ucast (drop_bit 24 (ent_base e) AND 0xFF)\<rparr>"

definition load_gdt :: "addr \<Rightarrow> u16 \<Rightarrow> 'a main_state_scheme \<Rightarrow> 'a main_state_scheme" where
  "load_gdt table_address sz st = st\<lparr>gdtr := (table_address, sz)\<rparr>"

text \<open>The loop replaces every entry of the table, one per entity.\<close>

definition load_entries :: "'a main_state_scheme \<Rightarrow> 'a main_state_scheme" where
  "load_entries st = load_gdt (gdt_addr st) (6 * 8 - 1) (st\<lparr>gdt_table := map encode_entity (gdt_entities st)\<rparr>)"

definition load_tss :: "u16 \<Rightarrow> 'a main_state_scheme \<Rightarrow> 'a main_state_scheme" where
  "load_tss segment st = st\<lparr>task_register := segment\<rparr>"

definition init_gdt :: "'a main_state_scheme \<Rightarrow> 'a main_state_scheme" where
  "init_gdt st =
     (let st1 = st\<lparr>gdt_entities :=
            [\<lparr>ent_limit = 0x00, ent_base = 0x00, ent_type = 0x00\<rparr>,
             \<lparr>ent_limit = 0xFFFFFFFF, ent_base = 0x00, ent_type = 0x9A\<rparr>,
             \<lparr>ent_limit = 0xFFFFFFFF, ent_base = 0x00, ent_type = 0x92\<rparr>,
             \<lparr>ent_limit = 0xFFFFFFFF, ent_base = 0x00, ent_type = 0xFA\<rparr>,
             \<lparr>ent_limit = 0xFFFFFFFF, ent_base = 0x00, ent_type = 0xF2\<rparr>,
             \<lparr>ent_limit = 108, ent_base = tss_addr st, ent_type = 0x89\<rparr>]\<rparr>;
          st2 = load_entries st1
      in load_tss 0x28 (st2\<lparr>tss := \<lparr>tss_esp0 = 0x600000, tss_ss0 = 0x10\<rparr>\<rparr>))"

section \<open>kernel.c\<close>

text \<open>The first part of \<^verbatim>\<open>kernel_main\<close>: the components are set up in this order.\<close>

definition kernel_setup :: "'a main_state_scheme \<Rightarrow> 'a main_state_scheme option" where
  "kernel_setup st = do {
     let s1 = init_gdt (st\<lparr>x_var := 10\<rparr>);
     let s2 = kheap_init s1;
     let s3 = fs_init s2;
     s4 \<leftarrow> disk_search_and_init s3;
     s5 \<leftarrow> init_interrupts s4;
     let (page, s6) = init_paging 7 s5;
     s7 \<leftarrow> register_system_commands (s6\<lparr>kernel_chunk := page\<rparr>);
     keyboard_init s7 }"

text \<open>After a failed load, and should \<^verbatim>\<open>run_first_task\<close> return, the kernel loops for ever.\<close>

definition kernel_main :: "'a main_state_scheme \<Rightarrow> (Registers \<times> 'a main_state_scheme) option" where
  "kernel_main st = do {
     s8 \<leftarrow> kernel_setup st;
     s9 \<leftarrow> init_terminal s8;
     (res, process, s10) \<leftarrow> process_load_and_switch (lit_shell s9) 0 s9;
     if res < 0 then None
     else do {
       (c, s11) \<leftarrow> run_first_task s10;
       case c of Returns _ \<Rightarrow> None | Enters r \<Rightarrow> Some (r, s11) } }"

section \<open>What the descriptors say\<close>

definition entry_base :: "GdtEntry \<Rightarrow> u32" where
  "entry_base e = ucast (base_low e) OR push_bit 16 (ucast (base_middle e)) OR push_bit 24 (ucast (base_high e))"

definition entry_limit :: "GdtEntry \<Rightarrow> u32" where
  "entry_limit e = ucast (gdt_limit e) OR push_bit 16 (ucast (gdt_flags e AND 0x0F))"

text \<open>
  Bit 7 of the flags makes the limit count pages.  A segment is flat when it spans the whole
  address space; \<open>segment_for\<close> says that the descriptor a selector chooses is a present, flat
  code or data segment whose privilege level is the one requested in the selector.
\<close>

definition segment_end :: "GdtEntry \<Rightarrow> nat" where
  "segment_end e = (if bit (gdt_flags e) 7 then unat (entry_limit e) * 4096 + 4095 else unat (entry_limit e))"

definition entry_ring :: "GdtEntry \<Rightarrow> nat" where
  "entry_ring e = unat (drop_bit 5 (gdt_access e) AND 3)"

definition segment_for :: "GdtEntry list \<Rightarrow> u16 \<Rightarrow> bool \<Rightarrow> bool" where
  "segment_for gdt sel code \<longleftrightarrow> unat sel div 8 < length gdt \<and>
     (let e = gdt ! (unat sel div 8)
      in bit (gdt_access e) 7 \<and> bit (gdt_access e) 4 \<and> bit (gdt_access e) 3 = code \<and>
         entry_ring e = unat sel mod 4 \<and> entry_base e = 0 \<and> segment_end e = 4294967295)"

lemma entry_base_encode: "entry_base (encode_entity e) = ent_base e"
proof (rule bit_word_eqI)
  fix n
  assume n: "n < LENGTH(32)"
  have m: "(0xFFFF :: u32) = mask 16" "(0xFF :: u32) = mask 8" by (simp_all add: mask_eq_exp_minus_1)
  consider "n < 16" | "16 \<le> n" "n < 24" | "24 \<le> n" "n < 32" using n by fastforce
  then show "bit (entry_base (encode_entity e)) n \<longleftrightarrow> bit (ent_base e) n"
    unfolding entry_base_def encode_entity_def m by cases (auto simp: bit_simps)
qed

lemma entry_limit_encode: "entry_limit (encode_entity e) = ent_limit e AND 0xFFFFF"
proof (rule bit_word_eqI)
  fix n
  assume n: "n < LENGTH(32)"
  have m: "(0xFFFF :: u32) = mask 16" "(0x0F :: u32) = mask 4" "(0x0F :: u8) = mask 4" "(0xFFFFF :: u32) = mask 20"
    by (simp_all add: mask_eq_exp_minus_1)
  have c: "\<not> bit (0xC0 :: u8) k" if "k < 4" for k
    using that by (auto simp: bit_simps less_Suc_eq numeral_eq_Suc)
  consider "n < 16" | "16 \<le> n" "n < 20" | "20 \<le> n" "n < 32" using n by fastforce
  then show "bit (entry_limit (encode_entity e)) n \<longleftrightarrow> bit (ent_limit e AND 0xFFFFF) n"
    unfolding entry_limit_def encode_entity_def m using c [of "n - 16"]
    by cases (auto simp: bit_simps)
qed

lemma encode_entity_access [simp]: "gdt_access (encode_entity e) = ent_type e"
  by (simp add: encode_entity_def)

lemma encode_entity_pages: "bit (gdt_flags (encode_entity e)) 7"
  by (simp add: encode_entity_def bit_simps bit_numeral_rec(1,2) numeral_eq_Suc)

lemma segment_end_encode: "segment_end (encode_entity e) = unat (ent_limit e AND 0xFFFFF) * 4096 + 4095"
  by (simp add: segment_end_def encode_entity_pages entry_limit_encode)


end
