(* ===== verification/Zhios_Mount.thy ===== *)
theory Zhios_Mount
  imports Zhios_File
begin

text \<open>
  Mounting a disk: what \<^verbatim>\<open>fat16_resolve\<close> of \<^verbatim>\<open>src/src/fs/fat/fat16.c\<close> leaves behind when it finds
  a FAT16 file system on the disk.  It reads the header and the root directory, opens the
  streams of the driver and counts the entries; the lemmas follow the functions it calls.
\<close>

section \<open>Streams\<close>

lemma kheap_disk_upd [simp]:
  "kheap_ok (st\<lparr>streams := a\<rparr>) = kheap_ok st" "kheap_live (st\<lparr>streams := a\<rparr>) = kheap_live st"
  "kheap_avail (st\<lparr>streams := a\<rparr>) = kheap_avail st"
  "kheap_ok (st\<lparr>io_log := b\<rparr>) = kheap_ok st" "kheap_live (st\<lparr>io_log := b\<rparr>) = kheap_live st"
  "kheap_avail (st\<lparr>io_log := b\<rparr>) = kheap_avail st"
  "kheap_ok (st\<lparr>disk := c\<rparr>) = kheap_ok st" "kheap_live (st\<lparr>disk := c\<rparr>) = kheap_live st"
  "kheap_avail (st\<lparr>disk := c\<rparr>) = kheap_avail st"
  by (simp_all add: kheap_defs)

lemma kheap_fat_upd [simp]:
  "kheap_ok (st\<lparr>fat_privates := a\<rparr>) = kheap_ok st" "kheap_live (st\<lparr>fat_privates := a\<rparr>) = kheap_live st"
  "kheap_avail (st\<lparr>fat_privates := a\<rparr>) = kheap_avail st"
  "kheap_ok (st\<lparr>directories := b\<rparr>) = kheap_ok st" "kheap_live (st\<lparr>directories := b\<rparr>) = kheap_live st"
  "kheap_avail (st\<lparr>directories := b\<rparr>) = kheap_avail st"
  by (simp_all add: kheap_defs)

lemma heap_keeps_disk_upd [simp]:
  "heap_keeps X st (st'\<lparr>streams := a\<rparr>) = heap_keeps X st st'" "heap_keeps X (st\<lparr>streams := a\<rparr>) st' = heap_keeps X st st'"
  "heap_keeps X st (st'\<lparr>io_log := b\<rparr>) = heap_keeps X st st'" "heap_keeps X (st\<lparr>io_log := b\<rparr>) st' = heap_keeps X st st'"
  "heap_keeps X st (st'\<lparr>disk := c\<rparr>) = heap_keeps X st st'" "heap_keeps X (st\<lparr>disk := c\<rparr>) st' = heap_keeps X st st'"
  by (simp_all add: heap_keeps_def kheap_arena_def kheap_reserved_def)

lemma heap_keeps_fat_upd [simp]:
  "heap_keeps X st (st'\<lparr>fat_privates := a\<rparr>) = heap_keeps X st st'" "heap_keeps X (st\<lparr>fat_privates := a\<rparr>) st' = heap_keeps X st st'"
  "heap_keeps X st (st'\<lparr>directories := b\<rparr>) = heap_keeps X st st'" "heap_keeps X (st\<lparr>directories := b\<rparr>) st' = heap_keeps X st st'"
  by (simp_all add: heap_keeps_def kheap_arena_def kheap_reserved_def)

lemma mem_upd_first:
  "st\<lparr>streams := a, mem := m\<rparr> = st\<lparr>mem := m, streams := a\<rparr>" "st\<lparr>io_log := b, mem := m\<rparr> = st\<lparr>mem := m, io_log := b\<rparr>"
  "st\<lparr>disk := c, mem := m\<rparr> = st\<lparr>mem := m, disk := c\<rparr>"
  by simp_all

lemma open_stream:
  fixes st :: "'a disk_state_scheme"
  assumes "kheap_ok st" "0 < kheap_avail st" "disk_addr st \<noteq> 0"
  obtains s m where "disk_stream_open 0 st =
      (s, st\<lparr>mem := m, streams := (streams st)(s \<mapsto> \<lparr>stream_pos = 0, stream_disk = disk_addr st\<rparr>)\<rparr>)" "s \<noteq> 0"
    "heap_keeps {} st (st\<lparr>mem := m\<rparr>)"
    "kheap_live (st\<lparr>mem := m\<rparr>) = insert (s, 4096) (kheap_live st)" "kheap_avail st = Suc (kheap_avail (st\<lparr>mem := m\<rparr>))"
    "\<And>q k. (q, k) \<in> kheap_live st \<Longrightarrow> q \<noteq> s"
proof -
  have sz: "0 < unat (8 :: u32)" "unat (8 :: u32) \<le> 4096" by simp_all
  show ?thesis
  proof (rule alloc_step [OF assms(1) sz assms(2)])
    fix s m
    assume "kzalloc 8 st = (s, st\<lparr>mem := m\<rparr>)"
    then have "disk_stream_open 0 st =
        (s, st\<lparr>mem := m, streams := (streams st)(s \<mapsto> \<lparr>stream_pos = 0, stream_disk = disk_addr st\<rparr>)\<rparr>)"
      using assms(3) by (simp add: disk_stream_open_def get_disk_def Let_def)
    then show "s \<noteq> 0 \<Longrightarrow> heap_keeps {} st (st\<lparr>mem := m\<rparr>) \<Longrightarrow>
        kheap_live (st\<lparr>mem := m\<rparr>) = insert (s, 4096) (kheap_live st) \<Longrightarrow>
        kheap_avail st = Suc (kheap_avail (st\<lparr>mem := m\<rparr>)) \<Longrightarrow> (\<And>q k. (q, k) \<in> kheap_live st \<Longrightarrow> q \<noteq> s) \<Longrightarrow> thesis"
      by (rule that)
  qed
qed

section \<open>Counting the entries of a directory\<close>

text \<open>
  \<open>entries_end img n k\<close>: the entries from position \<open>n\<close> of the disk on end at the \<open>k\<close>-th, the first
  whose name starts with a zero byte.
\<close>

definition entries_end :: "(nat \<Rightarrow> u8) \<Rightarrow> nat \<Rightarrow> nat \<Rightarrow> bool" where
  "entries_end img n k \<longleftrightarrow> img (n + 32 * k) = 0 \<and> (\<forall>j < k. img (n + 32 * j) \<noteq> 0)"

definition used_entries :: "(nat \<Rightarrow> u8) \<Rightarrow> nat \<Rightarrow> nat list \<Rightarrow> nat" where
  "used_entries img n js = length (filter (\<lambda>j. img (n + 32 * j) \<noteq> 0xE5) js)"

lemma entry_in_sector: "(512 * S + 32 * j) mod 512 + 32 \<le> (512 :: nat)"
proof -
  have "(512 * S + 32 * j) mod 512 = (32 * j) mod (32 * 16)" by simp
  also have "\<dots> = 32 * (j mod 16)" by (rule mult_mod_right [symmetric])
  finally show ?thesis using mod_less_divisor [of 16 j] by simp
qed

lemma read_entry:
  fixes st :: "'a fat_state_scheme"
  assumes "ata (dev st) img" "512 * S + 32 * Suc j < 2147483648"
    and "streams st s = Some \<lparr>stream_pos = int (512 * S + 32 * j), stream_disk = disk_addr st\<rparr>"
  shows "\<exists>log m. disk_stream_read s (entry_buf st) 32 st = Some (0, st\<lparr>io_log := log, mem := m,
        streams := (streams st)(s \<mapsto> \<lparr>stream_pos = int (512 * S + 32 * Suc j), stream_disk = disk_addr st\<rparr>)\<rparr>) \<and>
    m (entry_buf st) = img (512 * S + 32 * j) \<and> (\<forall>a. a \<notin> region (entry_buf st) 32 \<longrightarrow> m a = mem st a)"
proof -
  let ?n = "512 * S + 32 * j" and ?b = "entry_buf st"
  let ?m = "store (mem st) ?b (map (\<lambda>i. img (?n + i)) [0..<32])"
  have m: "?m a = (if a \<in> region ?b 32 then img (?n + unat (a - ?b)) else mem st a)" for a
    by (subst store_eq) (simp_all add: region_def)
  have "?n + 32 < 2147483648" "?n mod 512 = 0 \<or> ?n mod 512 + 32 \<le> 512" using assms(2) entry_in_sector by auto
  from disk_stream_read_spec [OF assms(1,3) this, of ?b] obtain log where
    "disk_stream_read s ?b (int 32) st = Some (0, st\<lparr>io_log := log, mem := ?m,
        streams := (streams st)(s \<mapsto> \<lparr>stream_pos = int (?n + 32), stream_disk = disk_addr st\<rparr>)\<rparr>)" by blast
  moreover have "?n + 32 = 512 * S + 32 * Suc j" by simp
  ultimately show ?thesis
    using m by (intro exI [of _ log] exI [of _ ?m]) (simp only: of_nat_numeral, simp)
qed

lemma total_entries_loop_spec:
  fixes st :: "'a fat_state_scheme"
  assumes "ata (dev st) img" "entries_end img (512 * S) k" "j \<le> k" "512 * S + 32 * Suc k < 2147483648"
    and "streams st s = Some \<lparr>stream_pos = int (512 * S + 32 * j), stream_disk = disk_addr st\<rparr>"
  shows "\<exists>log m n. total_entries_loop s c st = Some (c + int (used_entries img (512 * S) [j..<k]),
      st\<lparr>io_log := log, mem := m, streams := (streams st)(s \<mapsto> n)\<rparr>) \<and>
    (\<forall>a. a \<notin> region (entry_buf st) 32 \<longrightarrow> m a = mem st a)"
  using assms
proof (induction "k - j" arbitrary: j c st)
  case (0 j c st)
  then have j: "j = k" and b: "512 * S + 32 * Suc j < 2147483648" by simp_all
  obtain log m where r: "disk_stream_read s (entry_buf st) 32 st = Some (0, st\<lparr>io_log := log, mem := m,
        streams := (streams st)(s \<mapsto> \<lparr>stream_pos = int (512 * S + 32 * Suc j), stream_disk = disk_addr st\<rparr>)\<rparr>)"
    "m (entry_buf st) = img (512 * S + 32 * j)" "\<forall>a. a \<notin> region (entry_buf st) 32 \<longrightarrow> m a = mem st a"
    using read_entry [OF "0.prems"(1) b "0.prems"(5)] by (elim exE conjE) (rule that)
  have "img (512 * S + 32 * j) = 0" using "0.prems"(2) j by (simp add: entries_end_def)
  then show ?case
    using r j
    by (subst total_entries_loop.simps, intro exI [of _ log] exI [of _ m]
      exI [of _ "\<lparr>stream_pos = int (512 * S + 32 * Suc j), stream_disk = disk_addr st\<rparr>"]) (simp add: used_entries_def)
next
  case (Suc x j c st)
  then have j: "j < k" and b: "512 * S + 32 * Suc j < 2147483648" by simp_all
  let ?st = "\<lambda>log m. st\<lparr>io_log := log, mem := m,
        streams := (streams st)(s \<mapsto> \<lparr>stream_pos = int (512 * S + 32 * Suc j), stream_disk = disk_addr st\<rparr>)\<rparr>"
  obtain log m where r: "disk_stream_read s (entry_buf st) 32 st = Some (0, ?st log m)"
    "m (entry_buf st) = img (512 * S + 32 * j)" "\<forall>a. a \<notin> region (entry_buf st) 32 \<longrightarrow> m a = mem st a"
    using read_entry [OF Suc.prems(1) b Suc.prems(5)] by (elim exE conjE) (rule that)
  have nz: "img (512 * S + 32 * j) \<noteq> 0" using Suc.prems(2) j by (simp add: entries_end_def)
  let ?c = "if img (512 * S + 32 * j) = 0xE5 then c else c + 1"
  have u: "int (used_entries img (512 * S) [j..<k]) = (?c - c) + int (used_entries img (512 * S) [Suc j..<k])"
    using j by (simp add: used_entries_def upt_conv_Cons)
  have t: "total_entries_loop s c st = total_entries_loop s ?c (?st log m)"
    using r(1,2) nz by (subst total_entries_loop.simps) simp
  obtain log' m' n where i: "total_entries_loop s ?c (?st log m) = Some (?c + int (used_entries img (512 * S) [Suc j..<k]),
      (?st log m)\<lparr>io_log := log', mem := m', streams := (streams (?st log m))(s \<mapsto> n)\<rparr>)"
    "\<forall>a. a \<notin> region (entry_buf st) 32 \<longrightarrow> m' a = m a"
  proof -
    have x: "x = k - Suc j" "Suc j \<le> k" using Suc.hyps(2) j by simp_all
    have "ata (dev (?st log m)) img" "streams (?st log m) s =
        Some \<lparr>stream_pos = int (512 * S + 32 * Suc j), stream_disk = disk_addr (?st log m)\<rparr>"
      using Suc.prems(1) by simp_all
    from Suc.hyps(1) [OF x(1) this(1) Suc.prems(2) x(2) Suc.prems(4) this(2), of ?c]
    show thesis by (elim exE conjE) (rule that, assumption, simp)
  qed
  show ?case unfolding t u
    by (intro exI [of _ log'] exI [of _ m'] exI [of _ n]) (use i r(3) in simp)
qed

lemma get_total_entries_spec:
  fixes st :: "'a fat_state_scheme"
  assumes "kheap_ok st" "0 < kheap_avail st" "ata (dev st) img" "disk_addr st \<noteq> 0"
    and "disk_id (disk st) = 0" "sector_size (disk st) = 512"
    and "entries_end img (512 * S) k" "512 * S + 32 * Suc k < 2147483648" "region (entry_buf st) 32 \<inter> kheap_reserved st = {}"
  obtains s m n log where "get_total_entries_for_directory (disk_addr st) (of_nat S) st =
      Some (int (used_entries img (512 * S) [0..<k]), st\<lparr>io_log := log, mem := m, streams := (streams st)(s \<mapsto> n)\<rparr>)"
    "heap_keeps (region (entry_buf st) 32) st (st\<lparr>mem := m\<rparr>)" "kheap_live (st\<lparr>mem := m\<rparr>) = kheap_live st"
    "kheap_avail (st\<lparr>mem := m\<rparr>) = kheap_avail st" "\<And>q k. (q, k) \<in> kheap_live st \<Longrightarrow> q \<noteq> s"
proof -
  let ?B = "region (entry_buf st) 32"
  obtain s m1 where o: "disk_stream_open 0 st =
      (s, st\<lparr>mem := m1, streams := (streams st)(s \<mapsto> \<lparr>stream_pos = 0, stream_disk = disk_addr st\<rparr>)\<rparr>)" "s \<noteq> 0"
    "heap_keeps {} st (st\<lparr>mem := m1\<rparr>)"
    "kheap_live (st\<lparr>mem := m1\<rparr>) = insert (s, 4096) (kheap_live st)" "kheap_avail st = Suc (kheap_avail (st\<lparr>mem := m1\<rparr>))"
    "\<And>q k. (q, k) \<in> kheap_live st \<Longrightarrow> q \<noteq> s"
    by (rule open_stream [OF assms(1,2,4)]) (rule that)
  let ?m2 = "memset m1 (entry_buf st) 0 32"
  let ?st = "st\<lparr>mem := ?m2, streams := (streams st)(s \<mapsto> \<lparr>stream_pos = int (512 * S + 32 * 0), stream_disk = disk_addr st\<rparr>)\<rparr>"
  have "ata (dev ?st) img" "streams ?st s = Some \<lparr>stream_pos = int (512 * S + 32 * 0), stream_disk = disk_addr ?st\<rparr>"
    using assms(3) by simp_all
  from total_entries_loop_spec [OF this(1) assms(7) le0 assms(8) this(2), of 0]
  obtain log m3 n where t: "total_entries_loop s 0 ?st = Some (0 + int (used_entries img (512 * S) [0..<k]),
      ?st\<lparr>io_log := log, mem := m3, streams := (streams ?st)(s \<mapsto> n)\<rparr>)"
    and m3': "\<forall>a. a \<notin> region (entry_buf ?st) 32 \<longrightarrow> m3 a = mem ?st a" by (elim exE conjE) (rule that)
  have m3: "m3 a = m1 a" if "a \<notin> ?B" for a using m3' that by (simp add: memset_eq)
  have sp: "sint (of_nat S * of_int 512 :: u32) = int (512 * S + 32 * 0)"
    using sint_of_nat_small [of "512 * S"] assms(8) by (simp add: mult.commute)
  have ok1: "kheap_ok (st\<lparr>mem := m1\<rparr>)" using o(3) by (rule heap_keepsD)
  have r1: "?B \<inter> kheap_reserved (st\<lparr>mem := m1\<rparr>) = {}" using assms(9) by (simp add: kheap_reserved_def)
  have "m3 a = mem (st\<lparr>mem := m1\<rparr>) a" if "a \<notin> ?B" for a using m3 [OF that] by simp
  note p = put_heap_keeps [OF ok1 this r1, simplified]
  have k3: "heap_keeps ?B st (st\<lparr>mem := m3\<rparr>)" using heap_keeps_trans [OF o(3) p(1)] by simp
  have l3: "(s, 4096) \<in> kheap_live (st\<lparr>mem := m3\<rparr>)" "(s, 4096) \<notin> kheap_live st" using p(2) o(4,6) by auto
  let ?st3 = "?st\<lparr>io_log := log, mem := m3, streams := (streams ?st)(s \<mapsto> n)\<rparr>"
  have q: "heap_keeps ?B st ?st3" "(s, 4096) \<in> kheap_live ?st3" using k3 l3(1) by (simp_all add: heap_keeps_def kheap_defs)
  obtain m4 where f: "kfree s ?st3 = ?st3\<lparr>mem := m4\<rparr>"
    "heap_keeps ?B st (?st3\<lparr>mem := m4\<rparr>)" "kheap_live (?st3\<lparr>mem := m4\<rparr>) = kheap_live ?st3 - {(s, 4096)}"
    "kheap_avail (?st3\<lparr>mem := m4\<rparr>) = Suc (kheap_avail ?st3)"
    by (rule kfree_heap_keeps [OF q l3(2)]) (rule that)
  have "get_total_entries_for_directory (disk_addr st) (of_nat S) st =
      Some (int (used_entries img (512 * S) [0..<k]), st\<lparr>io_log := log, mem := m4, streams := (streams st)(s \<mapsto> n)\<rparr>)"
    using o(1) t f(1) sp assms(5,6)
    by (simp add: get_total_entries_for_directory_def disk_at_def disk_stream_seek_def disk_stream_close_def mem_upd_first)
  moreover have "heap_keeps ?B st (st\<lparr>mem := m4\<rparr>)" using f(2) by (simp add: heap_keeps_def kheap_defs)
  moreover have "kheap_live (st\<lparr>mem := m4\<rparr>) = kheap_live st"
    using f(3) p(2) o(4) l3(2) by (simp add: kheap_defs)
  moreover have "kheap_avail (st\<lparr>mem := m4\<rparr>) = kheap_avail st" using f(4) p(3) o(5) by (simp add: kheap_defs)
  ultimately show ?thesis using o(6) by (rule that)
qed

section \<open>The root directory\<close>

text \<open>
  \<open>root_record\<close> is what the driver knows of the root directory after mounting.
\<close>

definition root_record :: "(nat \<Rightarrow> u8) \<Rightarrow> nat \<Rightarrow> nat \<Rightarrow> nat \<Rightarrow> addr \<Rightarrow> Fat16Directory" where
  "root_record img S R k ents = \<lparr>directory_item = ents, dir_total = int (used_entries img (512 * S) [0..<k]),
     sector_pos = int S, ending_sector_pos = int (S + R div 16)\<rparr>"

definition disk_ready :: "'a disk_state_scheme \<Rightarrow> bool" where
  "disk_ready st \<longleftrightarrow> disk_addr st \<noteq> 0 \<and> disk_id (disk st) = 0 \<and> sector_size (disk st) = 512"

lemma disk_ready_upd [simp]:
  "disk_ready (st\<lparr>mem := m\<rparr>) = disk_ready st" "disk_ready (st\<lparr>streams := a\<rparr>) = disk_ready st"
  "disk_ready (st\<lparr>io_log := b\<rparr>) = disk_ready st"
  by (simp_all add: disk_ready_def)

text \<open>The entries go to a fresh page.\<close>

lemma read_root:
  fixes st :: "'a fat_state_scheme"
  assumes "kheap_ok st" "0 < kheap_avail st" "ata (dev st) img" "0 < R" "R \<le> 128" "512 * S + 32 * R < 2147483648"
    and "streams st s = Some \<lparr>stream_pos = n0, stream_disk = disk_addr st\<rparr>"
  obtains ents st1 st2 st' m log where "kzalloc (of_nat (32 * R)) st = (ents, st1)" "disk_stream_seek s (int S * 512) st1 = Some (0, st2)"
    "disk_stream_read s ents (int (32 * R)) st2 = Some (0, st')"
    "st' = st\<lparr>io_log := log, mem := m, streams := (streams st)(s \<mapsto> \<lparr>stream_pos = int (512 * S + 32 * R), stream_disk = disk_addr st\<rparr>)\<rparr>"
    "ents \<noteq> 0" "heap_keeps {} st st'" "kheap_live st' = insert (ents, 4096) (kheap_live st)" "kheap_avail st = Suc (kheap_avail st')"
    "\<And>i. i < 32 * R \<Longrightarrow> m (ents + of_nat i) = img (512 * S + i)" "\<And>q j. (q, j) \<in> kheap_live st \<Longrightarrow> q \<noteq> ents"
proof -
  let ?sz = "of_nat (32 * R) :: u32"
  have sz: "unat ?sz = 32 * R" using assms(5) by (intro unat_of_nat_small) simp
  then have sz': "0 < unat ?sz" "unat ?sz \<le> 4096" using assms(4,5) by simp_all
  obtain ents m1 where z: "kzalloc ?sz st = (ents, st\<lparr>mem := m1\<rparr>)" "ents \<noteq> 0" "heap_keeps {} st (st\<lparr>mem := m1\<rparr>)"
    "kheap_live (st\<lparr>mem := m1\<rparr>) = insert (ents, 4096) (kheap_live st)" "kheap_avail st = Suc (kheap_avail (st\<lparr>mem := m1\<rparr>))"
    "\<And>q k. (q, k) \<in> kheap_live st \<Longrightarrow> q \<noteq> ents" "unat ents mod 4096 = 0"
    "\<And>q k. (q, k) \<in> kheap_live st \<Longrightarrow> region ents 4096 \<inter> region q k = {}"
    by (rule alloc_step [OF assms(1) sz' assms(2)]) (rule that)
  let ?st1 = "st\<lparr>mem := m1, streams := (streams st)(s \<mapsto> \<lparr>stream_pos = int (512 * S), stream_disk = disk_addr st\<rparr>)\<rparr>"
  define m where "m = store m1 ents (map (\<lambda>i. img (512 * S + i)) [0..<32 * R])"
  have seek: "disk_stream_seek s (int S * 512) (st\<lparr>mem := m1\<rparr>) = Some (0, ?st1)"
    using assms(7) by (simp add: disk_stream_seek_def mult.commute)
  have "ata (dev ?st1) img" "streams ?st1 s = Some \<lparr>stream_pos = int (512 * S), stream_disk = disk_addr ?st1\<rparr>"
    "(512 * S) mod 512 = 0 \<or> (512 * S) mod 512 + 32 * R \<le> 512" using assms(3) by simp_all
  from disk_stream_read_spec [OF this(1,2) assms(6) this(3), of ents] obtain log where
    r: "disk_stream_read s ents (int (32 * R)) ?st1 = Some (0, st\<lparr>io_log := log, mem := m,
      streams := (streams st)(s \<mapsto> \<lparr>stream_pos = int (512 * S + 32 * R), stream_disk = disk_addr st\<rparr>)\<rparr>)"
    by (auto simp: m_def)
  have m: "m a = (if a \<in> region ents (32 * R) then img (512 * S + unat (a - ents)) else m1 a)" for a
    unfolding m_def using assms(5) by (subst store_eq) (simp_all add: region_def)
  have "region ents (32 * R) \<subseteq> region ents 4096" using assms(5) by (intro region_mono) simp
  then have "m a = m1 a" if "a \<notin> region ents 4096" for a using that by (auto simp: m)
  moreover have "(ents, 4096) \<in> kheap_live (st\<lparr>mem := m1\<rparr>)" using z(4) by simp
  ultimately have p: "heap_keeps {} st (st\<lparr>mem := m\<rparr>)" "kheap_live (st\<lparr>mem := m\<rparr>) = kheap_live (st\<lparr>mem := m1\<rparr>)"
    "kheap_avail (st\<lparr>mem := m\<rparr>) = kheap_avail (st\<lparr>mem := m1\<rparr>)"
    using alloc_filled [OF z(3) _ z(8), of m] by blast+
  have "m (ents + of_nat i) = img (512 * S + i)" if "i < 32 * R" for i
    using that region_add [of i "32 * R" ents] assms(5) by (simp add: m unat_of_nat_small)
  then show ?thesis
    by (intro that [OF z(1) seek r refl z(2)]) (use p z(4-6) in \<open>simp_all add: mem_upd_first\<close>)
qed

lemma init_root_directory_spec:
  fixes st :: "'a fat_state_scheme"
  assumes "kheap_ok st" "2 \<le> kheap_avail st" "ata (dev st) img" "disk_ready st"
    and "fat_privates st priv = Some p" "directories st (root_directory priv) = Some d0"
    and "streams st (directory_stream p) = Some \<lparr>stream_pos = n0, stream_disk = disk_addr st\<rparr>"
    and "reserved_sector_count (mem st) priv + number_of_fat (mem st) priv * sectors_per_fat (mem st) priv = int S"
    and "root_entry_count (mem st) priv = int R" "0 < R" "R \<le> 128" "512 * S + 32 * R < 2147483648"
    and "entries_end img (512 * S) k" "512 * S + 32 * Suc k < 2147483648"
    and "region (entry_buf st) 32 \<inter> (kheap_arena st \<union> kheap_reserved st) = {}"
  obtains ents m log f st' where "init_root_directory priv (disk_addr st) st = Some (0, st')"
    "st' = st\<lparr>io_log := log, mem := m, streams := f, directories := (directories st)(root_directory priv \<mapsto> root_record img S R k ents)\<rparr>"
    "heap_keeps (region (entry_buf st) 32) st st'" "kheap_live st' = insert (ents, 4096) (kheap_live st)"
    "kheap_avail st = Suc (kheap_avail st')" "\<And>i. i < 32 * R \<Longrightarrow> m (ents + of_nat i) = img (512 * S + i)"
    "\<And>q j. (q, j) \<in> kheap_live st \<Longrightarrow> q \<noteq> directory_stream p \<Longrightarrow> f q = streams st q"
    "\<And>q j. (q, j) \<in> kheap_live st \<Longrightarrow> q \<noteq> ents"
proof -
  let ?B = "region (entry_buf st) 32" and ?s = "directory_stream p" and ?u = "int (used_entries img (512 * S) [0..<k])"
  have a0: "0 < kheap_avail st" using assms(2) by simp
  obtain ents st1 st2 st3 m2 log2 where r: "kzalloc (of_nat (32 * R)) st = (ents, st1)"
    "disk_stream_seek ?s (int S * 512) st1 = Some (0, st2)" "disk_stream_read ?s ents (int (32 * R)) st2 = Some (0, st3)"
    "st3 = st\<lparr>io_log := log2, mem := m2, streams := (streams st)(?s \<mapsto> \<lparr>stream_pos = int (512 * S + 32 * R), stream_disk = disk_addr st\<rparr>)\<rparr>"
    "ents \<noteq> 0" "heap_keeps {} st st3" "kheap_live st3 = insert (ents, 4096) (kheap_live st)" "kheap_avail st = Suc (kheap_avail st3)"
    "\<And>i. i < 32 * R \<Longrightarrow> m2 (ents + of_nat i) = img (512 * S + i)" "\<And>q j. (q, j) \<in> kheap_live st \<Longrightarrow> q \<noteq> ents"
    by (rule read_root [OF assms(1) a0 assms(3,10-12,7)]) (rule that)
  define st4 where "st4 = st3\<lparr>directories := (directories st)(root_directory priv \<mapsto> d0\<lparr>directory_item := ents\<rparr>)\<rparr>"
  have s4: "kheap_ok st4" "0 < kheap_avail st4" "ata (dev st4) img" "disk_addr st4 \<noteq> 0" "disk_id (disk st4) = 0"
    "sector_size (disk st4) = 512" "region (entry_buf st4) 32 \<inter> kheap_reserved st4 = {}" "disk_addr st4 = disk_addr st"
    "entry_buf st4 = entry_buf st" "kheap_live st4 = kheap_live st3" "kheap_avail st4 = kheap_avail st3"
    using heap_keepsD(2) [OF r(6)] r(8) assms(2-4,15)
    by (auto simp: st4_def r(4) disk_ready_def kheap_reserved_def)
  obtain s m n log where t: "get_total_entries_for_directory (disk_addr st4) (of_nat S) st4 =
      Some (?u, st4\<lparr>io_log := log, mem := m, streams := (streams st4)(s \<mapsto> n)\<rparr>)"
    "heap_keeps (region (entry_buf st4) 32) st4 (st4\<lparr>mem := m\<rparr>)" "kheap_live (st4\<lparr>mem := m\<rparr>) = kheap_live st4"
    "kheap_avail (st4\<lparr>mem := m\<rparr>) = kheap_avail st4" "\<And>q k. (q, k) \<in> kheap_live st4 \<Longrightarrow> q \<noteq> s"
    by (rule get_total_entries_spec [OF s4(1-6) assms(13,14) s4(7)]) (rule that)
  let ?st5 = "st4\<lparr>io_log := log, mem := m, streams := (streams st4)(s \<mapsto> n)\<rparr>"
  let ?f = "(streams st)(?s \<mapsto> \<lparr>stream_pos = int (512 * S + 32 * R), stream_disk = disk_addr st\<rparr>, s \<mapsto> n)"
  let ?st' = "st\<lparr>io_log := log, mem := m, streams := ?f, directories := (directories st)(root_directory priv \<mapsto> root_record img S R k ents)\<rparr>"
  have st': "kheap_live ?st' = kheap_live (st4\<lparr>mem := m\<rparr>)" "kheap_avail ?st' = kheap_avail (st4\<lparr>mem := m\<rparr>)"
    by (simp_all add: st4_def r(4) kheap_defs)
  have u1: "upd_directory (\<lambda>x. x\<lparr>directory_item := ents\<rparr>) (root_directory priv) st3 = Some st4"
    using assms(6) by (simp add: upd_directory_def st4_def r(4))
  have u2: "upd_directory (\<lambda>x. x\<lparr>dir_total := ?u, sector_pos := int S,
      ending_sector_pos := int S + (int R * 32) sdiv 512\<rparr>) (root_directory priv) ?st5 = Some ?st'"
    using sdiv_smod_nat(1) [of "32 * R"]
    by (cases d0) (simp add: upd_directory_def st4_def r(4) root_record_def mult.commute)
  show ?thesis
  proof (rule that [OF _ refl])
    have d: "disk_at (disk_addr st) st = Some (disk st)" "sector_size (disk st) = 512"
      using assms(4) by (simp_all add: disk_at_def disk_ready_def)
    have sz: "of_int (int R * 32) = (of_nat (32 * R) :: u32)" "int (32 * R) = int R * 32" by simp_all
    note steps = Option.bind.bind_lunit prod.case r(2) r(3) [unfolded sz(2)] u1 of_int_of_nat_eq t(1) [unfolded s4(8)] u2
    show "init_root_directory priv (disk_addr st) st = Some (0, ?st')"
      using r(5) unfolding init_root_directory_def d assms(5,8,9) Option.bind.bind_lunit Let_def sz(1) r(1) prod.case
      by (simp only: if_False if_True simp_thms steps)
    have "heap_keeps {} st st4" using r(6) by (simp add: st4_def)
    from heap_keeps_trans [OF this t(2)] show "heap_keeps ?B st ?st'"
      by (simp add: s4(9) st4_def r(4) heap_keeps_def kheap_defs)
    show "kheap_live ?st' = insert (ents, 4096) (kheap_live st)" "kheap_avail st = Suc (kheap_avail ?st')"
      using st' t(3,4) s4(10,11) r(7,8) by simp_all
    show "m (ents + of_nat i) = img (512 * S + i)" if "i < 32 * R" for i
    proof -
      have a: "ents + of_nat i \<in> region ents 4096" using that assms(11) by (intro region_add) simp_all
      have live: "(ents, 4096) \<in> kheap_live st4" using s4(10) r(7) by simp
      have "ents + of_nat i \<in> kheap_arena st"
        using kheap_live_arena [OF s4(1) live] a by (auto simp: st4_def r(4) kheap_arena_def)
      then have "ents + of_nat i \<notin> region (entry_buf st4) 32" using assms(15) unfolding s4(9) by (auto simp: disjoint_iff)
      then show ?thesis using heap_keepsD(4) [OF t(2) live a] r(9) [OF that] by (simp add: st4_def r(4))
    qed
    show "?f q = streams st q" if "(q, j) \<in> kheap_live st" "q \<noteq> ?s" for q j
      using that t(5) [of q j] s4(10) r(7) by simp
  qed (rule r(10))
qed

section \<open>Mounting\<close>

abbreviation (input) new_stream :: "'a disk_state_scheme \<Rightarrow> DiskStream" where
  "new_stream st \<equiv> \<lparr>stream_pos = 0, stream_disk = disk_addr st\<rparr>"

lemma open_into:
  fixes st :: "'a fat_state_scheme"
  assumes "kheap_ok st" "0 < kheap_avail st" "disk_addr st \<noteq> 0" "fat_privates st priv = Some p"
  obtains s m st1 st' where "disk_stream_open 0 st = (s, st1)" "upd_private (g s) priv st1 = Some st'"
    "st' = st\<lparr>mem := m, streams := (streams st)(s \<mapsto> new_stream st), fat_privates := (fat_privates st)(priv \<mapsto> g s p)\<rparr>"
    "s \<noteq> 0" "heap_keeps {} st st'" "kheap_live st' = insert (s, 4096) (kheap_live st)" "kheap_avail st = Suc (kheap_avail st')"
    "\<And>q k. (q, k) \<in> kheap_live st \<Longrightarrow> q \<noteq> s"
proof -
  obtain s m where o: "disk_stream_open 0 st = (s, st\<lparr>mem := m, streams := (streams st)(s \<mapsto> new_stream st)\<rparr>)"
    "s \<noteq> 0" "heap_keeps {} st (st\<lparr>mem := m\<rparr>)"
    "kheap_live (st\<lparr>mem := m\<rparr>) = insert (s, 4096) (kheap_live st)" "kheap_avail st = Suc (kheap_avail (st\<lparr>mem := m\<rparr>))"
    "\<And>q k. (q, k) \<in> kheap_live st \<Longrightarrow> q \<noteq> s"
    by (rule open_stream [OF assms(1-3)]) (rule that)
  show ?thesis by (rule that [OF o(1) _ refl o(2)]) (use o(3-6) assms(4) in \<open>simp_all add: upd_private_def\<close>)
qed

lemma init_fat16_private_spec:
  fixes st :: "'a fat_state_scheme"
  assumes "kheap_ok st" "3 \<le> kheap_avail st" "disk_ready st" "fat_privates st priv = Some p0"
  obtains s1 s2 s3 m st' where "init_fat16_private priv (disk_addr st) st = Some (0, st')" "st' = st\<lparr>mem := m,
      streams := (streams st)(s1 \<mapsto> new_stream st, s2 \<mapsto> new_stream st, s3 \<mapsto> new_stream st),
      fat_privates := (fat_privates st)(priv \<mapsto>
        \<lparr>cluster_read_stream = s1, fat_read_stream = s2, directory_stream = s3\<rparr>)\<rparr>"
    "heap_keeps {} st st'" "kheap_live st' = {(s1, 4096), (s2, 4096), (s3, 4096)} \<union> kheap_live st"
    "kheap_avail st = kheap_avail st' + 3" "distinct [s1, s2, s3]" "0 \<notin> {s1, s2, s3}"
    "\<And>q k. (q, k) \<in> kheap_live st \<Longrightarrow> q \<notin> {s1, s2, s3}"
proof -
  let ?g1 = "\<lambda>s p. p\<lparr>cluster_read_stream := s\<rparr>" and ?g2 = "\<lambda>s p. p\<lparr>fat_read_stream := s\<rparr>" and ?g3 = "\<lambda>s p. p\<lparr>directory_stream := s\<rparr>"
  have d: "disk_addr st \<noteq> 0" "disk_at (disk_addr st) st = Some (disk st)" "disk_id (disk st) = 0"
    using assms(3) by (simp_all add: disk_ready_def disk_at_def)
  have a0: "0 < kheap_avail st" using assms(2) by simp
  obtain s1 m1 t1 st1 where o1: "disk_stream_open 0 st = (s1, t1)" "upd_private (?g1 s1) priv t1 = Some st1"
    "st1 = st\<lparr>mem := m1, streams := (streams st)(s1 \<mapsto> new_stream st), fat_privates := (fat_privates st)(priv \<mapsto> ?g1 s1 p0)\<rparr>"
    "s1 \<noteq> 0" "heap_keeps {} st st1" "kheap_live st1 = insert (s1, 4096) (kheap_live st)" "kheap_avail st = Suc (kheap_avail st1)"
    "\<And>q k. (q, k) \<in> kheap_live st \<Longrightarrow> q \<noteq> s1"
    by (rule open_into [OF assms(1) a0 d(1) assms(4), of ?g1]) (rule that)
  have e1: "kheap_ok st1" "0 < kheap_avail st1" "disk_addr st1 \<noteq> 0" "fat_privates st1 priv = Some (?g1 s1 p0)"
    using heap_keepsD(2) [OF o1(5)] o1(3,7) assms(2) d(1) by simp_all
  obtain s2 m2 t2 st2 where o2: "disk_stream_open 0 st1 = (s2, t2)" "upd_private (?g2 s2) priv t2 = Some st2"
    "st2 = st1\<lparr>mem := m2, streams := (streams st1)(s2 \<mapsto> new_stream st1), fat_privates := (fat_privates st1)(priv \<mapsto> ?g2 s2 (?g1 s1 p0))\<rparr>"
    "s2 \<noteq> 0" "heap_keeps {} st1 st2" "kheap_live st2 = insert (s2, 4096) (kheap_live st1)" "kheap_avail st1 = Suc (kheap_avail st2)"
    "\<And>q k. (q, k) \<in> kheap_live st1 \<Longrightarrow> q \<noteq> s2"
    by (rule open_into [OF e1, of ?g2]) (rule that)
  have e2: "kheap_ok st2" "0 < kheap_avail st2" "disk_addr st2 \<noteq> 0" "fat_privates st2 priv = Some (?g2 s2 (?g1 s1 p0))"
    using heap_keepsD(2) [OF o2(5)] o2(3,7) o1(7) assms(2) e1(3) by simp_all
  obtain s3 m3 t3 st3 where o3: "disk_stream_open 0 st2 = (s3, t3)" "upd_private (?g3 s3) priv t3 = Some st3"
    "st3 = st2\<lparr>mem := m3, streams := (streams st2)(s3 \<mapsto> new_stream st2), fat_privates := (fat_privates st2)(priv \<mapsto> ?g3 s3 (?g2 s2 (?g1 s1 p0)))\<rparr>"
    "s3 \<noteq> 0" "heap_keeps {} st2 st3" "kheap_live st3 = insert (s3, 4096) (kheap_live st2)" "kheap_avail st2 = Suc (kheap_avail st3)"
    "\<And>q k. (q, k) \<in> kheap_live st2 \<Longrightarrow> q \<noteq> s3"
    by (rule open_into [OF e2, of ?g3]) (rule that)
  show ?thesis
  proof (rule that)
    show "init_fat16_private priv (disk_addr st) st = Some (0, st3)"
      unfolding init_fat16_private_def d(2,3) Option.bind.bind_lunit o1(1,2) Let_def prod.case o2(1,2) o3(1,2)
      using o1(4) o2(4) o3(4) by simp
    show "st3 = st\<lparr>mem := m3,
      streams := (streams st)(s1 \<mapsto> new_stream st, s2 \<mapsto> new_stream st, s3 \<mapsto> new_stream st),
      fat_privates := (fat_privates st)(priv \<mapsto>
        \<lparr>cluster_read_stream = s1, fat_read_stream = s2, directory_stream = s3\<rparr>)\<rparr>"
      unfolding o3(3) o2(3) o1(3) by (cases p0) simp
    show "heap_keeps {} st st3" using heap_keeps_trans [OF heap_keeps_trans [OF o1(5) o2(5)] o3(5)] by simp
    show "kheap_live st3 = {(s1, 4096), (s2, 4096), (s3, 4096)} \<union> kheap_live st" unfolding o3(6) o2(6) o1(6) by auto
    show "kheap_avail st = kheap_avail st3 + 3" using o1(7) o2(7) o3(7) by simp
    have "s1 \<noteq> s2" "s1 \<noteq> s3" "s2 \<noteq> s3"
      using o2(8) [of s1 4096] o3(8) [of s1 4096] o3(8) [of s2 4096] o1(6) o2(6) by simp_all
    then show "distinct [s1, s2, s3]" "0 \<notin> {s1, s2, s3}" using o1(4) o2(4) o3(4) by auto
    show "q \<notin> {s1, s2, s3}" if "(q, k) \<in> kheap_live st" for q k
      using that o1(6,8) o2(6,8) o3(8) by auto
  qed
qed

text \<open>
  What the disk has to hold: the signature, the sector \<open>S\<close> at which the root directory starts and
  the number \<open>R\<close> of its entries, as the header gives them, and the entry \<open>k\<close> at which it ends.
\<close>

definition fat16_image :: "(nat \<Rightarrow> u8) \<Rightarrow> nat \<Rightarrow> nat \<Rightarrow> nat \<Rightarrow> bool" where
  "fat16_image img S R k \<longleftrightarrow> img 38 = 0x29 \<and>
     S = unat (word_of (img 14) (img 15)) + unat (img 16) * unat (word_of (img 22) (img 23)) \<and>
     R = unat (word_of (img 17) (img 18)) \<and> 0 < R \<and> R \<le> 128 \<and> 512 * S + 32 * R < 2147483648 \<and>
     entries_end img (512 * S) k \<and> 512 * S + 32 * Suc k < 2147483648"

lemma header_fields:
  assumes "\<And>i. i < 62 \<Longrightarrow> m (priv + of_nat i) = img i" "fat16_image img S R k"
  shows "verify_signature m priv = 0" "root_entry_count m priv = int R"
    "reserved_sector_count m priv + number_of_fat m priv * sectors_per_fat m priv = int S"
proof -
  have h: "m (priv + 14) = img 14" "m (priv + 15) = img 15" "m (priv + 16) = img 16" "m (priv + 17) = img 17"
    "m (priv + 18) = img 18" "m (priv + 22) = img 22" "m (priv + 23) = img 23" "m (priv + 38) = img 38"
    using assms(1) [of 14] assms(1) [of 15] assms(1) [of 16] assms(1) [of 17] assms(1) [of 18] assms(1) [of 22]
      assms(1) [of 23] assms(1) [of 38] by simp_all
  then show "verify_signature m priv = 0"
    using assms(2) by (simp add: verify_signature_def boot_signature_def fat16_image_def)
  have e: "priv + 14 + 1 = priv + 15" "priv + 17 + 1 = priv + 18" "priv + 22 + 1 = priv + 23" by simp_all
  have r: "read16 m (priv + 14) = word_of (img 14) (img 15)" "read16 m (priv + 17) = word_of (img 17) (img 18)"
    "read16 m (priv + 22) = word_of (img 22) (img 23)"
    unfolding read16_def e h word_of_def by simp_all
  then show "root_entry_count m priv = int R" using assms(2) by (simp add: root_entry_count_def fat16_image_def)
  show "reserved_sector_count m priv + number_of_fat m priv * sectors_per_fat m priv = int S"
    using h(3) r assms(2) by (simp add: reserved_sector_count_def number_of_fat_def sectors_per_fat_def fat16_image_def)
qed

text \<open>The header goes to a fresh page.\<close>

lemma read_header:
  fixes st :: "'a fat_state_scheme"
  assumes "kheap_ok st" "ata (dev st) img" "(priv, 4096) \<in> kheap_live st" "streams st s = Some (new_stream st)"
  obtains st' m log n where "disk_stream_read s priv 62 st = Some (0, st')"
    "st' = st\<lparr>io_log := log, mem := m, streams := (streams st)(s \<mapsto> n)\<rparr>"
    "heap_keeps (region priv 62) st st'" "kheap_live st' = kheap_live st" "kheap_avail st' = kheap_avail st"
    "\<And>i. i < 62 \<Longrightarrow> m (priv + of_nat i) = img i"
proof -
  let ?m = "store (mem st) priv (map (\<lambda>i. img (0 + i)) [0..<62])"
  have m: "?m a = (if a \<in> region priv 62 then img (unat (a - priv)) else mem st a)" for a
    by (subst store_eq) (simp_all add: region_def)
  have s: "streams st s = Some \<lparr>stream_pos = int 0, stream_disk = disk_addr st\<rparr>" using assms(4) by simp
  obtain log where r: "disk_stream_read s priv (int 62) st = Some (0, st\<lparr>io_log := log, mem := ?m,
      streams := (streams st)(s \<mapsto> \<lparr>stream_pos = int (0 + 62), stream_disk = disk_addr st\<rparr>)\<rparr>)"
    using disk_stream_read_spec [OF assms(2) s, of 62 priv] by auto
  have "region priv 62 \<inter> kheap_reserved st = {}"
    using kh.live_region [OF assms(1,3)] region_mono [of 62 4096 priv] by auto
  moreover have "?m a = mem st a" if "a \<notin> region priv 62" for a using that by (simp only: m if_False)
  ultimately have k: "heap_keeps (region priv 62) st (st\<lparr>mem := ?m\<rparr>)" "kheap_live (st\<lparr>mem := ?m\<rparr>) = kheap_live st"
    "kheap_avail (st\<lparr>mem := ?m\<rparr>) = kheap_avail st"
    using put_heap_keeps [OF assms(1), of "region priv 62" ?m] by blast+
  show ?thesis
  proof (rule that [OF _ refl])
    show "disk_stream_read s priv 62 st = Some (0, st\<lparr>io_log := log, mem := ?m,
      streams := (streams st)(s \<mapsto> \<lparr>stream_pos = int (0 + 62), stream_disk = disk_addr st\<rparr>)\<rparr>)" using r by simp
    show "?m (priv + of_nat i) = img i" if "i < 62" for i
      using that region_add [of i 62 priv] unfolding m by (simp add: unat_of_nat_small)
  qed (use k in \<open>simp_all add: mem_upd_first [symmetric] kheap_defs heap_keeps_def\<close>)
qed

text \<open>The second half of \<^verbatim>\<open>fat16_resolve\<close>: from the private structure with its streams to the end.\<close>

lemma mount_rest:
  fixes st :: "'a fat_state_scheme"
  assumes "kheap_ok st" "3 \<le> kheap_avail st" "ata (dev st) img" "disk_ready st" "fat16_image img S R k"
    and "fat_privates st priv = Some p" "directories st (root_directory priv) = Some d0" "(priv, 4096) \<in> kheap_live st"
    and "streams st (directory_stream p) = Some (new_stream st)" "(directory_stream p, 4096) \<in> kheap_live st"
    and "region (entry_buf st) 32 \<inter> (kheap_arena st \<union> kheap_reserved st) = {}"
  obtains s st4 st5 st6 ents m log f st' where "disk_stream_open 0 st = (s, st4)" "s \<noteq> 0"
    "disk_stream_read s priv 62 st4 = Some (0, st5)" "verify_signature (mem st5) priv = 0"
    "init_root_directory priv (disk_addr st) st5 = Some (0, st6)" "disk_stream_close s st6 = st'"
    "st' = st\<lparr>io_log := log, mem := m, streams := f, directories := (directories st)(root_directory priv \<mapsto> root_record img S R k ents)\<rparr>"
    "heap_keeps (region (entry_buf st) 32 \<union> region priv 62) st st'" "kheap_live st' = insert (ents, 4096) (kheap_live st)"
    "kheap_avail st = Suc (kheap_avail st')" "\<And>i. i < 62 \<Longrightarrow> m (priv + of_nat i) = img i"
    "\<And>i. i < 32 * R \<Longrightarrow> m (ents + of_nat i) = img (512 * S + i)"
    "\<And>q j. (q, j) \<in> kheap_live st \<Longrightarrow> q \<noteq> directory_stream p \<Longrightarrow> f q = streams st q"
proof -
  let ?B = "region (entry_buf st) 32"
  have a0: "0 < kheap_avail st" "disk_addr st \<noteq> 0" using assms(2,4) by (simp_all add: disk_ready_def)
  obtain s m4 where o: "disk_stream_open 0 st = (s, st\<lparr>mem := m4, streams := (streams st)(s \<mapsto> new_stream st)\<rparr>)"
    "s \<noteq> 0" "heap_keeps {} st (st\<lparr>mem := m4\<rparr>)"
    "kheap_live (st\<lparr>mem := m4\<rparr>) = insert (s, 4096) (kheap_live st)" "kheap_avail st = Suc (kheap_avail (st\<lparr>mem := m4\<rparr>))"
    "\<And>q k. (q, k) \<in> kheap_live st \<Longrightarrow> q \<noteq> s"
    by (rule open_stream [OF assms(1) a0]) (rule that)
  define st4 where "st4 = st\<lparr>mem := m4, streams := (streams st)(s \<mapsto> new_stream st)\<rparr>"
  have s4: "kheap_ok st4" "ata (dev st4) img" "(priv, 4096) \<in> kheap_live st4" "streams st4 s = Some (new_stream st4)"
    using heap_keepsD(2) [OF o(3)] assms(3,8) o(4) by (simp_all add: st4_def)
  obtain st5 m5 log5 n5 where h: "disk_stream_read s priv 62 st4 = Some (0, st5)"
    "st5 = st4\<lparr>io_log := log5, mem := m5, streams := (streams st4)(s \<mapsto> n5)\<rparr>"
    "heap_keeps (region priv 62) st4 st5" "kheap_live st5 = kheap_live st4" "kheap_avail st5 = kheap_avail st4"
    "\<And>i. i < 62 \<Longrightarrow> m5 (priv + of_nat i) = img i"
    by (rule read_header [OF s4]) (rule that)
  have m5: "mem st5 = m5" by (simp add: h(2))
  have hf: "verify_signature (mem st5) priv = 0" "root_entry_count (mem st5) priv = int R"
    "reserved_sector_count (mem st5) priv + number_of_fat (mem st5) priv * sectors_per_fat (mem st5) priv = int S"
    using header_fields [of m5 priv img, OF _ assms(5)] h(6) unfolding m5 by blast+
  have ds: "directory_stream p \<noteq> s" using o(6) assms(10) by blast
  have s5: "kheap_ok st5" "2 \<le> kheap_avail st5" "ata (dev st5) img" "disk_ready st5"
    "fat_privates st5 priv = Some p" "directories st5 (root_directory priv) = Some d0"
    "streams st5 (directory_stream p) = Some \<lparr>stream_pos = 0, stream_disk = disk_addr st5\<rparr>"
    using heap_keepsD(2) [OF h(3)] h(5) o(5) assms(2-4,6,7,9) ds by (simp_all add: h(2) st4_def kheap_defs)
  have i5: "0 < R" "R \<le> 128" "512 * S + 32 * R < 2147483648" "entries_end img (512 * S) k" "512 * S + 32 * Suc k < 2147483648"
    using assms(5) unfolding fat16_image_def by blast+
  have e5: "entry_buf st5 = entry_buf st" "disk_addr st5 = disk_addr st" "directories st5 = directories st"
    "kheap_arena st5 = kheap_arena st" "kheap_reserved st5 = kheap_reserved st"
    by (simp_all add: h(2) st4_def kheap_arena_def kheap_reserved_def)
  have b5: "region (entry_buf st5) 32 \<inter> (kheap_arena st5 \<union> kheap_reserved st5) = {}" using assms(11) unfolding e5 .
  obtain ents m6 log6 f st6 where r: "init_root_directory priv (disk_addr st5) st5 = Some (0, st6)"
    "st6 = st5\<lparr>io_log := log6, mem := m6, streams := f, directories := (directories st5)(root_directory priv \<mapsto> root_record img S R k ents)\<rparr>"
    "heap_keeps (region (entry_buf st5) 32) st5 st6" "kheap_live st6 = insert (ents, 4096) (kheap_live st5)"
    "kheap_avail st5 = Suc (kheap_avail st6)" "\<And>i. i < 32 * R \<Longrightarrow> m6 (ents + of_nat i) = img (512 * S + i)"
    "\<And>q j. (q, j) \<in> kheap_live st5 \<Longrightarrow> q \<noteq> directory_stream p \<Longrightarrow> f q = streams st5 q"
    "\<And>q j. (q, j) \<in> kheap_live st5 \<Longrightarrow> q \<noteq> ents"
    by (rule init_root_directory_spec [OF s5 hf(3,2) i5 b5]) (rule that)
  have l6: "kheap_live st6 = {(ents, 4096), (s, 4096)} \<union> kheap_live st" "kheap_avail st = kheap_avail st6 + 2"
    using r(4,5) h(4,5) o(4,5) by (auto simp: st4_def)
  have "heap_keeps {} st st4" using o(3) by (simp add: st4_def)
  from heap_keeps_trans [OF heap_keeps_trans [OF this h(3)] r(3)]
  have k6: "heap_keeps (?B \<union> region priv 62) st st6" by (simp add: Un_commute e5)
  have f6: "(s, 4096) \<in> kheap_live st6" "(s, 4096) \<notin> kheap_live st" using l6(1) o(6) by auto
  obtain m7 where c: "kfree s st6 = st6\<lparr>mem := m7\<rparr>" "heap_keeps (?B \<union> region priv 62) st (st6\<lparr>mem := m7\<rparr>)"
    "kheap_live (st6\<lparr>mem := m7\<rparr>) = kheap_live st6 - {(s, 4096)}"
    "kheap_avail (st6\<lparr>mem := m7\<rparr>) = Suc (kheap_avail st6)" "\<And>a. a \<notin> kheap_reserved st \<Longrightarrow> m7 a = mem st6 a"
    by (rule kfree_heap_keeps [OF k6 f6]) (rule that)
  have m7: "m7 (q + of_nat i) = m6 (q + of_nat i)" if "(q, 4096) \<in> kheap_live st6" "i < 4096" for q i
  proof -
    have "q + of_nat i \<in> region q 4096" using that(2) by (intro region_add) simp_all
    then have "q + of_nat i \<notin> kheap_reserved st"
      using kh.live_region [OF heap_keepsD(2) [OF k6] that(1)] heap_keepsD(7) [OF k6] by (auto simp: disjoint_iff)
    then show ?thesis using c(5) r(2) by simp
  qed
  show ?thesis
  proof (rule that)
    show "disk_stream_open 0 st = (s, st4)" "disk_stream_read s priv 62 st4 = Some (0, st5)" "s \<noteq> 0"
      using o(1,2) h(1) by (simp_all add: st4_def)
    show "verify_signature (mem st5) priv = 0" by (rule hf(1))
    show "init_root_directory priv (disk_addr st) st5 = Some (0, st6)" using r(1) by (simp add: e5)
    show "disk_stream_close s st6 = st6\<lparr>mem := m7\<rparr>" using c(1) by (simp add: disk_stream_close_def)
    show "st6\<lparr>mem := m7\<rparr> = st\<lparr>io_log := log6, mem := m7, streams := f,
        directories := (directories st)(root_directory priv \<mapsto> root_record img S R k ents)\<rparr>"
      by (simp add: r(2) h(2) st4_def)
    show "heap_keeps (?B \<union> region priv 62) st (st6\<lparr>mem := m7\<rparr>)" by (rule c(2))
    show "kheap_live (st6\<lparr>mem := m7\<rparr>) = insert (ents, 4096) (kheap_live st)"
      using c(3) l6(1) f6(2) r(8) [of s 4096] h(4) o(4) by (auto simp: st4_def)
    show "kheap_avail st = Suc (kheap_avail (st6\<lparr>mem := m7\<rparr>))" using c(4) l6(2) by simp
    show "m7 (priv + of_nat i) = img i" if "i < 62" for i
    proof -
      have a: "priv + of_nat i \<in> region priv 4096" using that by (intro region_add) simp_all
      have "priv + of_nat i \<in> kheap_arena st" using kheap_live_arena [OF assms(1,8)] a by blast
      then have b: "priv + of_nat i \<notin> region (entry_buf st5) 32" using assms(11) unfolding e5 by (auto simp: disjoint_iff)
      have "m6 (priv + of_nat i) = m5 (priv + of_nat i)"
        using heap_keepsD(4) [OF r(3) _ a b] s4(3) h(4) m5 r(2) by simp
      then show ?thesis using m7 [of priv i] h(6) [OF that] that l6(1) assms(8) by simp
    qed
    show "m7 (ents + of_nat i) = img (512 * S + i)" if "i < 32 * R" for i
      using m7 [of ents i] r(6) [OF that] that i5(2) l6(1) by simp
    show "f q = streams st q" if "(q, j) \<in> kheap_live st" "q \<noteq> directory_stream p" for q j
      using r(7) [of q j] that o(6) [OF that(1)] h(4) o(4) by (simp add: st4_def h(2))
  qed
qed

text \<open>
  All that a mount leaves: the header and the entries are in memory as they are on the disk,
  and only the structures of the driver have changed.
\<close>

lemma fat16_resolve_spec:
  fixes st :: "'a fat_state_scheme"
  assumes "kheap_ok st" "7 \<le> kheap_avail st" "ata (dev st) img" "disk_ready st" "fat16_image img S R k"
    and "region (entry_buf st) 32 \<inter> (kheap_arena st \<union> kheap_reserved st) = {}"
  obtains priv p ents m log f pr dirs st' where "fat16_resolve (disk_addr st) st = Some (0, st')"
    "st' = st\<lparr>io_log := log, mem := m, streams := f, fat_privates := pr, directories := dirs,
       disk := (disk st)\<lparr>fs_private := priv, disk_fs := fat16_fs st\<rparr>\<rparr>"
    "mounted (disk_addr st) priv p st'" "dirs (root_directory priv) = Some (root_record img S R k ents)"
    "\<And>i. i < 62 \<Longrightarrow> m (priv + of_nat i) = img i" "\<And>i. i < 32 * R \<Longrightarrow> m (ents + of_nat i) = img (512 * S + i)"
    "heap_keeps (region (entry_buf st) 32) st st'" "kheap_avail st = kheap_avail st' + 5"
    "{(priv, 4096), (ents, 4096)} \<subseteq> kheap_live st'"
proof -
  let ?B = "region (entry_buf st) 32"
  have sz: "0 < unat (92 :: u32)" "unat (92 :: u32) \<le> 4096" "0 < kheap_avail st" using assms(2) by simp_all
  obtain priv m1 where z: "kzalloc 92 st = (priv, st\<lparr>mem := m1\<rparr>)" "priv \<noteq> 0" "heap_keeps {} st (st\<lparr>mem := m1\<rparr>)"
    "kheap_live (st\<lparr>mem := m1\<rparr>) = insert (priv, 4096) (kheap_live st)" "kheap_avail st = Suc (kheap_avail (st\<lparr>mem := m1\<rparr>))"
    "\<And>q k. (q, k) \<in> kheap_live st \<Longrightarrow> q \<noteq> priv" "unat priv mod 4096 = 0"
    "\<And>q k. (q, k) \<in> kheap_live st \<Longrightarrow> region priv 4096 \<inter> region q k = {}"
    by (rule alloc_step [OF assms(1) sz]) (rule that)
  let ?none = "\<lparr>cluster_read_stream = 0, fat_read_stream = 0, directory_stream = 0\<rparr>"
  let ?nodir = "\<lparr>directory_item = 0, dir_total = 0, sector_pos = 0, ending_sector_pos = 0\<rparr>"
  define st1 where "st1 = st\<lparr>mem := m1, fat_privates := (fat_privates st)(priv \<mapsto> ?none),
    directories := (directories st)(root_directory priv \<mapsto> ?nodir)\<rparr>"
  have s1: "kheap_ok st1" "3 \<le> kheap_avail st1" "disk_ready st1" "fat_privates st1 priv = Some ?none"
    using heap_keepsD(2) [OF z(3)] z(5) assms(2,4) by (simp_all add: st1_def disk_ready_def)
  obtain s1 s2 s3 m2 st2 where i: "init_fat16_private priv (disk_addr st1) st1 = Some (0, st2)" "st2 = st1\<lparr>mem := m2,
      streams := (streams st1)(s1 \<mapsto> new_stream st1, s2 \<mapsto> new_stream st1, s3 \<mapsto> new_stream st1),
      fat_privates := (fat_privates st1)(priv \<mapsto>
        \<lparr>cluster_read_stream = s1, fat_read_stream = s2, directory_stream = s3\<rparr>)\<rparr>"
    "heap_keeps {} st1 st2" "kheap_live st2 = {(s1, 4096), (s2, 4096), (s3, 4096)} \<union> kheap_live st1"
    "kheap_avail st1 = kheap_avail st2 + 3" "distinct [s1, s2, s3]" "0 \<notin> {s1, s2, s3}"
    "\<And>q k. (q, k) \<in> kheap_live st1 \<Longrightarrow> q \<notin> {s1, s2, s3}"
    by (rule init_fat16_private_spec [OF s1]) (rule that)
  let ?p = "\<lparr>cluster_read_stream = s1, fat_read_stream = s2, directory_stream = s3\<rparr>"
  define st3 where "st3 = st2\<lparr>disk := (disk st2)\<lparr>fs_private := priv, disk_fs := fat16_fs st2\<rparr>\<rparr>"
  have s3: "kheap_ok st3" "3 \<le> kheap_avail st3" "ata (dev st3) img" "disk_ready st3" "fat_privates st3 priv = Some ?p"
    "directories st3 (root_directory priv) = Some ?nodir" "(priv, 4096) \<in> kheap_live st3"
    "streams st3 (directory_stream ?p) = Some (new_stream st3)" "(directory_stream ?p, 4096) \<in> kheap_live st3"
    "region (entry_buf st3) 32 \<inter> (kheap_arena st3 \<union> kheap_reserved st3) = {}"
    using heap_keepsD(2) [OF i(3)] i(4-6) z(4,5) assms(2-4,6)
    by (simp_all add: st3_def i(2) st1_def disk_ready_def kheap_arena_def kheap_reserved_def)
  show ?thesis
  proof (rule mount_rest [OF s3(1-4) assms(5) s3(5-10)])
    fix s st4 st5 st6 ents m log f st'
    assume r: "disk_stream_open 0 st3 = (s, st4)" "s \<noteq> 0"
    "disk_stream_read s priv 62 st4 = Some (0, st5)" "verify_signature (mem st5) priv = 0"
    "init_root_directory priv (disk_addr st3) st5 = Some (0, st6)" "disk_stream_close s st6 = st'"
    "st' = st3\<lparr>io_log := log, mem := m, streams := f, directories := (directories st3)(root_directory priv \<mapsto> root_record img S R k ents)\<rparr>"
    "heap_keeps (region (entry_buf st3) 32 \<union> region priv 62) st3 st'" "kheap_live st' = insert (ents, 4096) (kheap_live st3)"
    "kheap_avail st3 = Suc (kheap_avail st')" "\<And>i. i < 62 \<Longrightarrow> m (priv + of_nat i) = img i"
    "\<And>i. i < 32 * R \<Longrightarrow> m (ents + of_nat i) = img (512 * S + i)"
    "\<And>q j. (q, j) \<in> kheap_live st3 \<Longrightarrow> q \<noteq> directory_stream ?p \<Longrightarrow> f q = streams st3 q"
    have eqs: "disk_addr st1 = disk_addr st" "disk_addr st3 = disk_addr st" "disk_at (disk_addr st) st1 = Some (disk st)"
      "disk_at (disk_addr st) st2 = Some (disk st)" "disk_id (disk st) = 0" "disk st2 = disk st" "fat16_fs st2 = fat16_fs st"
      "entry_buf st3 = entry_buf st"
      using assms(4) by (simp_all add: st3_def i(2) st1_def disk_at_def disk_ready_def)
    have res: "fat16_resolve (disk_addr st) st = Some (0, st')"
    proof -
      have n: "st\<lparr>mem := m1, fat_privates := (fat_privates (st\<lparr>mem := m1\<rparr>))(priv \<mapsto> ?none),
          directories := (directories (st\<lparr>mem := m1\<rparr>))(root_directory priv \<mapsto> ?nodir)\<rparr> = st1" by (simp add: st1_def)
      show ?thesis
        unfolding fat16_resolve_def z(1) Let_def prod.case n
        by (simp add: i(1) [unfolded eqs] eqs st3_def [symmetric, unfolded eqs] r(1-6) [unfolded eqs])
    qed
    have k1: "heap_keeps {} st st1" using z(3) by (simp add: st1_def)
    have k3: "heap_keeps {} st1 st3" using i(3) by (simp add: st3_def)
    from heap_keeps_trans [OF heap_keeps_trans [OF k1 k3] r(8)]
    have k: "heap_keeps (?B \<union> region priv 62) st st'" by (simp add: eqs)
    have pa: "region priv 62 \<subseteq> region priv 4096" by (rule region_mono) simp
    have "(priv, 4096) \<in> kheap_live st1" using z(4) by (simp add: st1_def)
    then have "region priv 4096 \<subseteq> kheap_arena st" using kheap_live_arena [OF s1(1)] by (simp add: st1_def kheap_arena_def)
    then have keep: "heap_keeps ?B st st'" using k z(8) pa by (intro heap_keeps_fresh [OF k]) blast+
    show thesis
    proof (rule that [OF res])
      show "st' = st\<lparr>io_log := log, mem := m, streams := f, fat_privates := (fat_privates st)(priv \<mapsto> ?p),
        directories := (directories st)(root_directory priv \<mapsto> root_record img S R k ents),
        disk := (disk st)\<lparr>fs_private := priv, disk_fs := fat16_fs st\<rparr>\<rparr>"
        unfolding r(7) st3_def i(2) st1_def by simp
      have "f s1 = Some (new_stream st)" "f s2 = Some (new_stream st)"
        using r(13) [of s1 4096] r(13) [of s2 4096] i(4,6) by (simp_all add: st3_def i(2) st1_def)
      then show "mounted (disk_addr st) priv ?p st'"
        using i(7) assms(4) by (simp add: mounted_def r(7) st3_def i(2) st1_def disk_ready_def)
      show "((directories st)(root_directory priv \<mapsto> root_record img S R k ents)) (root_directory priv) = Some (root_record img S R k ents)"
        by simp
      show "m (priv + of_nat i) = img i" if "i < 62" for i using that by (rule r(11))
      show "m (ents + of_nat i) = img (512 * S + i)" if "i < 32 * R" for i using that by (rule r(12))
      show "heap_keeps ?B st st'" by (rule keep)
      show "kheap_avail st = kheap_avail st' + 5"
        using r(10) i(5) z(5) by (simp add: st3_def st1_def)
      show "{(priv, 4096), (ents, 4096)} \<subseteq> kheap_live st'" using r(9) s3(7) by simp
    qed
  qed
qed

section \<open>Properties\<close>

text \<open>
  C9: mounting.  On a device that holds a FAT16 image with at most 128 root entries,
  \<^verbatim>\<open>fat16_resolve\<close> returns 0 and leaves the disk structure pointing to the driver and its
  private data, three open streams, the header of the disk and all its root entries in memory,
  and the record of the root directory: how many entries are in use, where the directory lies
  and where the data begins.  The heap stays well-formed, keeps every region that was allocated
  before, and loses five blocks; outside the heap only the buffer for one entry changes.
\<close>

theorem fat16_resolve_mounts:
  assumes "kheap_ok st" "7 \<le> kheap_avail st" "ata (dev st) img" "disk_ready st" "fat16_image img S R k"
    and "region (entry_buf st) 32 \<inter> (kheap_arena st \<union> kheap_reserved st) = {}"
  shows "\<exists>st' priv p ents. fat16_resolve (disk_addr st) st = Some (0, st') \<and> mounted (disk_addr st) priv p st' \<and>
    disk_fs (disk st') = fat16_fs st \<and> directories st' (root_directory priv) = Some (root_record img S R k ents) \<and>
    (\<forall>i < 62. mem st' (priv + of_nat i) = img i) \<and> (\<forall>i < 32 * R. mem st' (ents + of_nat i) = img (512 * S + i)) \<and>
    {(priv, 4096), (ents, 4096)} \<subseteq> kheap_live st' \<and> heap_keeps (region (entry_buf st) 32) st st' \<and>
    kheap_avail st = kheap_avail st' + 5"
proof -
  obtain priv p ents m log f pr dirs st' where r: "fat16_resolve (disk_addr st) st = Some (0, st')"
    "st' = st\<lparr>io_log := log, mem := m, streams := f, fat_privates := pr, directories := dirs,
       disk := (disk st)\<lparr>fs_private := priv, disk_fs := fat16_fs st\<rparr>\<rparr>"
    "mounted (disk_addr st) priv p st'" "dirs (root_directory priv) = Some (root_record img S R k ents)"
    "\<And>i. i < 62 \<Longrightarrow> m (priv + of_nat i) = img i" "\<And>i. i < 32 * R \<Longrightarrow> m (ents + of_nat i) = img (512 * S + i)"
    "heap_keeps (region (entry_buf st) 32) st st'" "kheap_avail st = kheap_avail st' + 5"
    "{(priv, 4096), (ents, 4096)} \<subseteq> kheap_live st'"
    by (rule fat16_resolve_spec [OF assms]) (rule that)
  have "mem st' = m" "directories st' = dirs" "disk_fs (disk st') = fat16_fs st" by (simp_all add: r(2))
  then show ?thesis using r(1,3-9) by (intro exI [of _ st'] exI [of _ priv] exI [of _ p] exI [of _ ents]) simp
qed

text \<open>
  A device whose sectors all hold the same bytes: one reserved sector, a root directory of 16
  entries behind it, of which the first is used and the second is the end.
\<close>

definition sector_dev :: "(nat \<Rightarrow> u8) \<Rightarrow> port_op list \<Rightarrow> u16" where
  "sector_dev pat log = (case length (takeWhile (\<lambda>x. x = Insw 0x1F0) log) of 0 \<Rightarrow> 0x08
     | Suc n \<Rightarrow> word_of (pat (2 * n)) (pat (2 * n + 1)))"

lemma sector_ata: "ata (sector_dev pat) (\<lambda>n. pat (n mod 512))"
proof -
  have "takeWhile (\<lambda>x. x = Insw 0x1F0) (replicate (Suc n) (Insw 0x1F0) @ replicate (Suc 0) (Insb 0x1F7) @ log) =
      replicate (Suc n) (Insw 0x1F0)" for n log
    by (subst takeWhile_append2) auto
  note w = this
  show ?thesis
    unfolding ata_def
  proof (intro allI impI exI [of _ 0] conjI)
    fix lba :: u32 and log and k :: nat
    assume "k < 256"
    then show "sector_dev pat (replicate (Suc k) (Insw 0x1F0) @ replicate (Suc 0) (Insb 0x1F7) @ ata_command lba log) =
        word_of (pat ((512 * unat lba + 2 * k) mod 512)) (pat ((512 * unat lba + 2 * k + 1) mod 512))"
      unfolding sector_dev_def w by simp
  qed (simp_all add: sector_dev_def ready_def)
qed

definition fat_sector :: "nat \<Rightarrow> u8" where
  "fat_sector n = (if n = 0 then 0x41 else if n = 14 then 1 else if n = 17 then 16 else if n = 38 then 0x29 else 0)"

lemma fat_sector_image: "fat16_image (\<lambda>n. fat_sector (n mod 512)) 1 16 1"
  by (simp add: fat16_image_def fat_sector_def word_of_def entries_end_def)

theorem fat16_resolve_mounts_witness:
  "\<exists>st' priv p. fat16_resolve 0x9000 (kheap_init (fat_state_ex\<lparr>dev := sector_dev fat_sector\<rparr>)) = Some (0, st') \<and>
     mounted 0x9000 priv p st' \<and> mem st' (priv + 38) = 0x29 \<and> map_option dir_total (directories st' (root_directory priv)) = Some 1"
proof -
  let ?s = "fat_state_ex\<lparr>dev := sector_dev fat_sector\<rparr>"
  let ?st = "kheap_init ?s" and ?img = "\<lambda>n. fat_sector (n mod 512)"
  have a: "7 \<le> kheap_avail ?st" using kheap_init_ok(3) [of ?s] by simp
  have b: "ata (dev ?st) ?img" "disk_ready ?st" "disk_addr ?st = 0x9000" "entry_buf ?st = 0x7400"
    using sector_ata by (simp_all add: kheap_init_eq fat_state_ex_def disk_ready_def)
  have "region 0x7400 32 \<inter> region 0x01000000 (4096 * 25600) = {}" "region 0x7400 32 \<inter> region 0x7E00 25600 = {}"
    by (rule region_disjoint; simp)+
  then have "region (entry_buf ?st) 32 \<inter> (kheap_arena ?st \<union> kheap_reserved ?st) = {}"
    unfolding b(4) by (simp add: kheap_arena_def kheap_reserved_def kheap_init_eq Int_Un_distrib)
  from fat16_resolve_mounts [OF kheap_init_ok(1) a b(1,2) fat_sector_image this]
  obtain st' priv p ents where r: "fat16_resolve 0x9000 ?st = Some (0, st')" "mounted 0x9000 priv p st'"
    "directories st' (root_directory priv) = Some (root_record ?img 1 16 1 ents)" "\<forall>i < 62. mem st' (priv + of_nat i) = ?img i"
    unfolding b(3) by (elim exE conjE) (rule that)
  have "mem st' (priv + 38) = 0x29" using r(4) [rule_format, of 38] by (simp add: fat_sector_def)
  moreover have "used_entries ?img 512 [0..<1] = 1" by (simp add: used_entries_def fat_sector_def)
  ultimately show ?thesis using r(1-3) by (intro exI [of _ st'] exI [of _ priv] exI [of _ p]) (simp add: root_record_def)
qed

end
