(* ===== verification/Zhios_Boot.thy ===== *)
theory Zhios_Boot
  imports Zhios_Kernel Zhios_Mount
begin

text \<open>
  Booting: the first part of \<^verbatim>\<open>kernel_main\<close> of \<^verbatim>\<open>src/src/kernel.c\<close>, \<open>kernel_setup\<close>, over the lemmas of all
  components it initialises.
\<close>

section \<open>The initialisers in order\<close>

lemma fs_init_eq:
  "fs_init st = st\<lparr>file_systems := fat16_fs st # replicate 11 0, file_descriptors := replicate 256 0\<rparr>"
proof -
  have "replicate 12 (0 :: addr) = 0 # replicate 11 0" by (simp add: numeral_eq_Suc)
  then show ?thesis
    by (simp add: fs_init_def fs_load_static_def insert_file_system_def get_free_filesystem_def fat16_init_def)
qed

lemma kheap_file_upd [simp]:
  "kheap_ok (st\<lparr>file_systems := a\<rparr>) = kheap_ok st" "kheap_avail (st\<lparr>file_systems := a\<rparr>) = kheap_avail st"
  "kheap_ok (st\<lparr>file_descriptors := b\<rparr>) = kheap_ok st" "kheap_avail (st\<lparr>file_descriptors := b\<rparr>) = kheap_avail st"
  by (simp_all add: kheap_defs)

lemma disk_search_and_init_spec:
  fixes st :: "'a file_state_scheme"
  assumes "kheap_ok st" "7 \<le> kheap_avail st" "ata (dev st) img" "disk_addr st \<noteq> 0" "fat16_image img S R k"
    and "region (entry_buf st) 32 \<inter> (kheap_arena st \<union> kheap_reserved st) = {}"
    and "file_systems st = fat16_fs st # fs" "fat16_fs st \<noteq> 0"
  obtains priv p ents m log f pr dirs st' where "disk_search_and_init st = Some st'"
    "st' = st\<lparr>io_log := log, mem := m, streams := f, fat_privates := pr, directories := dirs,
       disk := \<lparr>disk_id = 0, disk_type = 0, sector_size = 512, disk_fs = fat16_fs st, fs_private = priv\<rparr>\<rparr>"
    "mounted (disk_addr st) priv p st'" "dirs (root_directory priv) = Some (root_record img S R k ents)"
    "\<And>i. i < 62 \<Longrightarrow> m (priv + of_nat i) = img i" "\<And>i. i < 32 * R \<Longrightarrow> m (ents + of_nat i) = img (512 * S + i)"
    "kheap_ok st'" "kheap_avail st = kheap_avail st' + 5" "{(priv, 4096), (ents, 4096)} \<subseteq> kheap_live st'"
proof -
  let ?d = "\<lparr>disk_id = 0, disk_type = 0, sector_size = 512, disk_fs = 0, fs_private = 0\<rparr>"
  let ?st = "st\<lparr>disk := ?d\<rparr>"
  have s: "kheap_ok ?st" "7 \<le> kheap_avail ?st" "ata (dev ?st) img" "disk_ready ?st"
    "region (entry_buf ?st) 32 \<inter> (kheap_arena ?st \<union> kheap_reserved ?st) = {}"
    using assms(1-4,6) by (simp_all add: disk_ready_def kheap_arena_def kheap_reserved_def)
  obtain priv p ents m log f pr dirs st' where r: "fat16_resolve (disk_addr ?st) ?st = Some (0, st')"
    "st' = ?st\<lparr>io_log := log, mem := m, streams := f, fat_privates := pr, directories := dirs,
       disk := (disk ?st)\<lparr>fs_private := priv, disk_fs := fat16_fs ?st\<rparr>\<rparr>"
    "mounted (disk_addr ?st) priv p st'" "dirs (root_directory priv) = Some (root_record img S R k ents)"
    "\<And>i. i < 62 \<Longrightarrow> m (priv + of_nat i) = img i" "\<And>i. i < 32 * R \<Longrightarrow> m (ents + of_nat i) = img (512 * S + i)"
    "heap_keeps (region (entry_buf ?st) 32) ?st st'" "kheap_avail ?st = kheap_avail st' + 5"
    "{(priv, 4096), (ents, 4096)} \<subseteq> kheap_live st'"
    by (rule fat16_resolve_spec [OF s(1-4) assms(5) s(5)]) (rule that)
  show ?thesis
  proof (rule that)
    show "disk_search_and_init st = Some st'"
      using r(1,2) assms(7,8) by (simp add: disk_search_and_init_def fs_resolve_def fs_ops_def fat16_ops_def)
    show "st' = st\<lparr>io_log := log, mem := m, streams := f, fat_privates := pr, directories := dirs,
       disk := \<lparr>disk_id = 0, disk_type = 0, sector_size = 512, disk_fs = fat16_fs st, fs_private = priv\<rparr>\<rparr>"
      using r(2) by simp
    show "mounted (disk_addr st) priv p st'" using r(3) by simp
    show "kheap_ok st'" using r(7) by (rule heap_keepsD)
    show "kheap_avail st = kheap_avail st' + 5" using r(8) by simp
    show "dirs (root_directory priv) = Some (root_record img S R k ents)" "{(priv, 4096), (ents, 4096)} \<subseteq> kheap_live st'"
      by (rule r(4), rule r(9))
  qed (rule r(5,6); assumption)+
qed

lemma keyboard_init_spec:
  assumes "keyboards st (classic st) = Some kb" "kbd_init kb = Some ClassicKeyboardInit" "keyboard_tail st = 0"
    and "length (service_routines st) = 512"
  shows "keyboard_init st = Some (st\<lparr>keyboard_tail := classic st, keyboard_head := classic st,
    service_routines := (service_routines st)[0x21 := Some ClassicKeyboardHandler], io_log := Outb 0x64 0xAE # io_log st\<rparr>)"
  using assms by (simp add: keyboard_init_def keyboard_insert_def get_classic_keyboard_def classic_keyboard_init_def
    register_service_routine_def outb_def)

lemma init_paging_spec:
  fixes st :: "'a pstate_scheme"
  assumes "kheap_ok st" "1026 \<le> kheap_avail st"
  obtains page m st' where "init_paging flags st = (page, st')"
    "st' = st\<lparr>mem := m, cr3 := read32 m page, current_directory := read32 m page, cr0 := cr0 st OR 0x80000000\<rparr>"
    "kheap_ok st'" "kheap_avail st = kheap_avail st' + 1026" "page_ok m page" "kheap_live st \<subseteq> kheap_live st'"
    "\<And>v. paging_get_physical_address m page v = v"
    "\<And>q k a. (q, k) \<in> kheap_live st \<Longrightarrow> a \<in> region q k \<Longrightarrow> m a = mem st a"
proof -
  obtain page st1 where c: "paging_new_chunk flags st = (page, st1)" by (rule prod.exhaust)
  note sp = paging_new_chunk_spec [OF assms c]
  obtain m where m: "st1 = st\<lparr>mem := m\<rparr>" using paging_new_chunk_put [of flags st] c by auto
  have id: "paging_get_physical_address m page v = v" for v
    using identity_physical_address [OF sp(7) flags_below_page] by (simp add: m)
  let ?st = "st\<lparr>mem := m, cr3 := read32 m page, current_directory := read32 m page, cr0 := cr0 st OR 0x80000000\<rparr>"
  have i: "init_paging flags st = (page, ?st)"
    using c by (simp add: init_paging_def enable_paging_def paging_switch_def page_load_directory_def Let_def m)
  have k: "kheap_ok ?st = kheap_ok st1" "kheap_avail ?st = kheap_avail st1" "kheap_live ?st = kheap_live st1"
    by (simp_all add: m kheap_defs)
  show ?thesis by (rule that [OF i refl, unfolded k]) (use sp(1-4,8) id m in auto)
qed

text \<open>From the interrupts to the keyboard.\<close>

lemma setup_rest:
  fixes st :: "'a kernel_state_scheme"
  assumes "kheap_ok st" "1026 \<le> kheap_avail st" "length (service_routines st) = 512" "isr80h_commands st = replicate 1024 None"
    and "keyboards st (classic st) = Some kb" "kbd_init kb = Some ClassicKeyboardInit" "keyboard_tail st = 0"
  obtains g r page m s5 s6 s7 st' where "init_interrupts st = Some s5" "init_paging 7 s5 = (page, s6)"
    "register_system_commands (s6\<lparr>kernel_chunk := page\<rparr>) = Some s7" "keyboard_init s7 = Some st'"
    "st' = st\<lparr>interrupt_entries := g, service_routines := r, idtr := (4095, interrupt_entries_addr st), mem := m,
      cr3 := read32 m page, current_directory := read32 m page, cr0 := cr0 st OR 0x80000000, kernel_chunk := page,
      isr80h_commands := system_commands, keyboard_tail := classic st, keyboard_head := classic st, io_log := Outb 0x64 0xAE # io_log st\<rparr>"
    "kheap_ok st'" "kheap_avail st = kheap_avail st' + 1026" "page_ok m page" "\<And>v. paging_get_physical_address m page v = v"
    "\<And>q k a. (q, k) \<in> kheap_live st \<Longrightarrow> a \<in> region q k \<Longrightarrow> m a = mem st a"
    "\<And>v. v < 512 \<Longrightarrow> gate_ok (g ! v) (if v = 0 then int0h st else if v = 0x80 then isr80h st else isr_pointer_table st ! v)"
    "\<And>v. v < 512 \<Longrightarrow> r ! v = (if v < 32 then Some HandleExceptions
       else if v = 0x21 then Some ClassicKeyboardHandler else service_routines st ! v)"
proof -
  obtain g r where t: "init_interrupts st = Some (st\<lparr>interrupt_entries := g, service_routines := r,
      idtr := (4095, interrupt_entries_addr st)\<rparr>)" "length g = 512" "length r = 512"
    "\<And>v. v < 512 \<Longrightarrow> gate_ok (g ! v) (if v = 0 then int0h st else if v = 0x80 then isr80h st else isr_pointer_table st ! v)"
    "\<And>v. r ! v = (if v < 32 then Some HandleExceptions else service_routines st ! v)"
    by (rule init_interrupts_spec [OF assms(3)]) (rule that)
  define s5 where "s5 = st\<lparr>interrupt_entries := g, service_routines := r, idtr := (4095, interrupt_entries_addr st)\<rparr>"
  have k5: "kheap_ok s5" "1026 \<le> kheap_avail s5" "kheap_avail s5 = kheap_avail st" "kheap_live s5 = kheap_live st" "mem s5 = mem st"
    using assms(1,2) by (simp_all add: s5_def kheap_defs)
  obtain page m s6 where q: "init_paging 7 s5 = (page, s6)"
    "s6 = s5\<lparr>mem := m, cr3 := read32 m page, current_directory := read32 m page, cr0 := cr0 s5 OR 0x80000000\<rparr>"
    "kheap_ok s6" "kheap_avail s5 = kheap_avail s6 + 1026" "page_ok m page" "kheap_live s5 \<subseteq> kheap_live s6"
    "\<And>v. paging_get_physical_address m page v = v"
    "\<And>q k a. (q, k) \<in> kheap_live s5 \<Longrightarrow> a \<in> region q k \<Longrightarrow> m a = mem s5 a"
    by (rule init_paging_spec [OF k5(1,2)]) (rule that)
  define s7 where "s7 = s6\<lparr>kernel_chunk := page, isr80h_commands := system_commands\<rparr>"
  have c: "register_system_commands (s6\<lparr>kernel_chunk := page\<rparr>) = Some s7"
    using assms(4) register_system_commands_table [of "s6\<lparr>kernel_chunk := page\<rparr>"] by (simp add: s7_def q(2) s5_def)
  have "keyboards s7 (classic s7) = Some kb" "keyboard_tail s7 = 0" "length (service_routines s7) = 512"
    using assms(5,7) t(3) by (simp_all add: s7_def q(2) s5_def)
  note kb = keyboard_init_spec [OF this(1) assms(6) this(2,3)]
  let ?r = "r[0x21 := Some ClassicKeyboardHandler]"
  have "s7\<lparr>keyboard_tail := classic s7, keyboard_head := classic s7, service_routines := (service_routines s7)[0x21 := Some ClassicKeyboardHandler],
      io_log := Outb 0x64 0xAE # io_log s7\<rparr> =
    st\<lparr>interrupt_entries := g, service_routines := ?r, idtr := (4095, interrupt_entries_addr st), mem := m,
      cr3 := read32 m page, current_directory := read32 m page, cr0 := cr0 st OR 0x80000000, kernel_chunk := page,
      isr80h_commands := system_commands, keyboard_tail := classic st, keyboard_head := classic st, io_log := Outb 0x64 0xAE # io_log st\<rparr>"
    (is "_ = ?st'")
    by (simp add: s7_def q(2) s5_def)
  note k = kb [unfolded this]
  have h: "kheap_ok ?st' = kheap_ok s6" "kheap_avail ?st' = kheap_avail s6" by (simp_all add: q(2) s5_def kheap_defs)
  show ?thesis
  proof (rule that [OF t(1) [folded s5_def] q(1) c k refl, unfolded h])
    show "?r ! v = (if v < 32 then Some HandleExceptions
       else if v = 0x21 then Some ClassicKeyboardHandler else service_routines st ! v)" if "v < 512" for v
      using t(3,5) that by (simp add: nth_list_update)
    show "m a = mem st a" if "(q, k) \<in> kheap_live st" "a \<in> region q k" for q k a using q(8) k5(4,5) that by simp
  qed (use q(3-5,7) k5(3) t(4) in simp_all)
qed

section \<open>Properties\<close>

definition boot_ready :: "'a main_state_scheme \<Rightarrow> bool" where
  "boot_ready st \<longleftrightarrow> disk_addr st \<noteq> 0 \<and> fat16_fs st \<noteq> 0 \<and>
     region (entry_buf st) 32 \<inter> (region HEAP_ADDRESS ZHIOS_HEAP_SIZE_BYTES \<union> region HEAP_TABLE_ADDRESS 25600) = {} \<and>
     length (service_routines st) = 512 \<and> isr80h_commands st = replicate 1024 None \<and> keyboard_tail st = 0 \<and>
     (case keyboards st (classic st) of None \<Rightarrow> False | Some kb \<Rightarrow> kbd_init kb = Some ClassicKeyboardInit)"

lemmas setup_defs = init_gdt_def load_tss_def load_entries_def load_gdt_def Let_def

lemma heap_start:
  fixes st :: "'a main_state_scheme"
  assumes "boot_ready st" "s3 = fs_init (kheap_init (init_gdt (st\<lparr>x_var := 10\<rparr>)))"
  shows "kheap_ok s3" "kheap_avail s3 = 25600" "dev s3 = dev st" "disk_addr s3 = disk_addr st" "fat16_fs s3 = fat16_fs st"
    "file_systems s3 = fat16_fs s3 # replicate 11 0" "region (entry_buf s3) 32 \<inter> (kheap_arena s3 \<union> kheap_reserved s3) = {}"
proof -
  let ?g = "init_gdt (st\<lparr>x_var := 10\<rparr>)"
  have s3: "s3 = (kheap_init ?g)\<lparr>file_systems := fat16_fs st # replicate 11 0, file_descriptors := replicate 256 0\<rparr>"
    unfolding assms(2) fs_init_eq by (simp add: kheap_init_eq setup_defs)
  show "kheap_ok s3" "kheap_avail s3 = 25600" using kheap_init_ok(1,3) [of ?g] by (simp_all add: s3)
  show "dev s3 = dev st" "disk_addr s3 = disk_addr st" "fat16_fs s3 = fat16_fs st" "file_systems s3 = fat16_fs s3 # replicate 11 0"
    by (simp_all add: s3 kheap_init_eq setup_defs)
  have "entry_buf s3 = entry_buf st" "kheap_arena s3 = region HEAP_ADDRESS ZHIOS_HEAP_SIZE_BYTES"
    "kheap_reserved s3 = region HEAP_TABLE_ADDRESS 25600"
    by (simp_all add: s3 kheap_init_eq setup_defs kheap_arena_def kheap_reserved_def)
  then show "region (entry_buf s3) 32 \<inter> (kheap_arena s3 \<union> kheap_reserved s3) = {}"
    using assms(1) by (simp add: boot_ready_def)
qed

text \<open>
  C6: booting.  From any contents of memory, with a FAT16 disk attached and the static data as the
  linker leaves it, the first part of \<^verbatim>\<open>kernel_main\<close> runs to its end.  Then the heap is well-formed
  with 24569 free blocks; the disk is mounted, with its header and root directory in memory;
  the address space of the kernel is the identity, loaded and switched on; every gate leads to
  its stub, the exceptions and the keyboard have their service routines; the eight system calls
  are registered; and the processor has the descriptor table of \<^verbatim>\<open>init_gdt\<close>.
\<close>

theorem kernel_setup_boots:
  assumes "boot_ready st" "ata (dev st) img" "fat16_image img S R k"
  shows "\<exists>st' priv p ents. kernel_setup st = Some st' \<and> kheap_ok st' \<and> kheap_avail st' = 24569 \<and>
    mounted (disk_addr st) priv p st' \<and> disk_fs (disk st') = fat16_fs st \<and>
    directories st' (root_directory priv) = Some (root_record img S R k ents) \<and>
    (\<forall>i < 62. mem st' (priv + of_nat i) = img i) \<and> (\<forall>i < 32 * R. mem st' (ents + of_nat i) = img (512 * S + i)) \<and>
    page_ok (mem st') (kernel_chunk st') \<and> (\<forall>v. paging_get_physical_address (mem st') (kernel_chunk st') v = v) \<and>
    cr3 st' = read32 (mem st') (kernel_chunk st') \<and> bit (cr0 st') 31 \<and>
    (\<forall>v < 512. gate_ok (interrupt_entries st' ! v)
       (if v = 0 then int0h st else if v = 0x80 then isr80h st else isr_pointer_table st ! v)) \<and>
    (\<forall>v < 512. service_routines st' ! v = (if v < 32 then Some HandleExceptions
       else if v = 0x21 then Some ClassicKeyboardHandler else service_routines st ! v)) \<and>
    idtr st' = (4095, interrupt_entries_addr st) \<and> isr80h_commands st' = system_commands \<and>
    gdt_table st' = gdt_table (init_gdt st) \<and> gdtr st' = gdtr (init_gdt st)"
proof -
  define s3 where "s3 = fs_init (kheap_init (init_gdt (st\<lparr>x_var := 10\<rparr>)))"
  note h = heap_start [OF assms(1) s3_def]
  have i3: "7 \<le> kheap_avail s3" "ata (dev s3) img" "disk_addr s3 \<noteq> 0" "fat16_fs s3 \<noteq> 0"
    using h(2-5) assms(1,2) by (simp_all add: boot_ready_def)
  obtain priv p ents m4 log f pr dirs s4 where d: "disk_search_and_init s3 = Some s4"
    "s4 = s3\<lparr>io_log := log, mem := m4, streams := f, fat_privates := pr, directories := dirs,
       disk := \<lparr>disk_id = 0, disk_type = 0, sector_size = 512, disk_fs = fat16_fs s3, fs_private = priv\<rparr>\<rparr>"
    "mounted (disk_addr s3) priv p s4" "dirs (root_directory priv) = Some (root_record img S R k ents)"
    "\<And>i. i < 62 \<Longrightarrow> m4 (priv + of_nat i) = img i" "\<And>i. i < 32 * R \<Longrightarrow> m4 (ents + of_nat i) = img (512 * S + i)"
    "kheap_ok s4" "kheap_avail s3 = kheap_avail s4 + 5" "{(priv, 4096), (ents, 4096)} \<subseteq> kheap_live s4"
    by (rule disk_search_and_init_spec [OF h(1) i3(1-3) assms(3) h(7,6) i3(4)]) (rule that)
  obtain kb where kb: "keyboards st (classic st) = Some kb" "kbd_init kb = Some ClassicKeyboardInit"
    using assms(1) by (auto simp: boot_ready_def split: option.splits)
  have s4: "length (service_routines s4) = 512" "isr80h_commands s4 = replicate 1024 None" "keyboards s4 (classic s4) = Some kb"
    "keyboard_tail s4 = 0" "1026 \<le> kheap_avail s4" "int0h s4 = int0h st" "isr80h s4 = isr80h st" "service_routines s4 = service_routines st"
    "isr_pointer_table s4 = isr_pointer_table st" "interrupt_entries_addr s4 = interrupt_entries_addr st"
    "gdt_table s4 = gdt_table (init_gdt st)" "gdtr s4 = gdtr (init_gdt st)"
    using kb(1) assms(1) d(8) h(2) by (simp_all add: boot_ready_def d(2) s3_def fs_init_eq kheap_init_eq setup_defs)
  obtain g r page m s5 s6 s7 st' where t: "init_interrupts s4 = Some s5" "init_paging 7 s5 = (page, s6)"
    "register_system_commands (s6\<lparr>kernel_chunk := page\<rparr>) = Some s7" "keyboard_init s7 = Some st'"
    "st' = s4\<lparr>interrupt_entries := g, service_routines := r, idtr := (4095, interrupt_entries_addr s4), mem := m,
      cr3 := read32 m page, current_directory := read32 m page, cr0 := cr0 s4 OR 0x80000000, kernel_chunk := page,
      isr80h_commands := system_commands, keyboard_tail := classic s4, keyboard_head := classic s4, io_log := Outb 0x64 0xAE # io_log s4\<rparr>"
    "kheap_ok st'" "kheap_avail s4 = kheap_avail st' + 1026" "page_ok m page" "\<And>v. paging_get_physical_address m page v = v"
    "\<And>q k a. (q, k) \<in> kheap_live s4 \<Longrightarrow> a \<in> region q k \<Longrightarrow> m a = mem s4 a"
    "\<And>v. v < 512 \<Longrightarrow> gate_ok (g ! v) (if v = 0 then int0h s4 else if v = 0x80 then isr80h s4 else isr_pointer_table s4 ! v)"
    "\<And>v. v < 512 \<Longrightarrow> r ! v = (if v < 32 then Some HandleExceptions
       else if v = 0x21 then Some ClassicKeyboardHandler else service_routines s4 ! v)"
    by (rule setup_rest [OF d(7) s4(5,1-3) kb(2) s4(4)]) (rule that)
  have run: "kernel_setup st = Some st'"
    unfolding kernel_setup_def Let_def s3_def [symmetric] d(1) t(1-4) Option.bind.bind_lunit prod.case ..
  have R: "R \<le> 128" using assms(3) by (simp add: fat16_image_def)
  have hd: "m (priv + of_nat i) = img i" if "i < 62" for i
    using t(10) [of priv 4096 "priv + of_nat i"] d(5) [OF that] d(9) region_add [of i 4096 priv] that by (simp add: d(2))
  have en: "m (ents + of_nat i) = img (512 * S + i)" if "i < 32 * R" for i
    using t(10) [of ents 4096 "ents + of_nat i"] d(6) [OF that] d(9) region_add [of i 4096 ents] that R by (simp add: d(2))
  have "mounted (disk_addr st) priv p st' = mounted (disk_addr st) priv p s4" by (simp add: mounted_def t(5))
  then have mnt: "mounted (disk_addr st) priv p st'" using d(3) h(4) by simp
  have fields: "mem st' = m" "kernel_chunk st' = page" "directories st' = dirs" "disk_fs (disk st') = fat16_fs st"
    "cr3 st' = read32 m page" "cr0 st' = cr0 s4 OR 0x80000000" "interrupt_entries st' = g" "service_routines st' = r"
    "idtr st' = (4095, interrupt_entries_addr st)" "isr80h_commands st' = system_commands"
    "gdt_table st' = gdt_table (init_gdt st)" "gdtr st' = gdtr (init_gdt st)"
    unfolding t(5) by (simp_all add: s4) (simp add: d(2) h(5))+
  have a: "kheap_avail st' = 24569" "bit (cr0 s4 OR 0x80000000) 31" using t(7) d(8) h(2) by (simp_all add: bit_simps)
  show ?thesis
    by (rule exI [of _ st'], rule exI [of _ priv], rule exI [of _ p], rule exI [of _ ents])
      (use a run t(6,8,9) t(11,12) [unfolded s4] d(4) hd en mnt in \<open>simp add: fields\<close>)
qed

text \<open>A machine at power on, with the disk of the witness for mounting.\<close>

definition power_on :: main_state where
  "power_on = kernel_state.extend
     (kernel_state_ex\<lparr>dev := sector_dev fat_sector, disk_addr := 0x9000, fat16_fs := 0x500, entry_buf := 0x7400,
        service_routines := replicate 512 None, isr80h_commands := replicate 1024 None, keyboard_tail := 0, classic := 0x900,
        keyboards := [0x900 \<mapsto> \<lparr>kbd_name = ''Classic'', kbd_init = Some ClassicKeyboardInit, capslock_on = False, kbd_next = 0\<rparr>]\<rparr>)
     (main_state.fields [] [] 0x100 (0, 0) \<lparr>tss_esp0 = 0, tss_ss0 = 0\<rparr> 0x200 0 0x300 5)"

theorem kernel_setup_boots_witness:
  "\<exists>st'. kernel_setup power_on = Some st' \<and> kheap_avail st' = 24569 \<and> disk_fs (disk st') = 0x500 \<and>
     service_routines st' ! 0x21 = Some ClassicKeyboardHandler \<and> isr80h_commands st' ! 4 = Some MallocCommand"
proof -
  have "region 0x7400 32 \<inter> region 0x01000000 104857600 = {}" "region 0x7400 32 \<inter> region 0x7E00 25600 = {}"
    by (rule region_disjoint; simp)+
  then have r: "boot_ready power_on" "fat16_fs power_on = 0x500"
    by (simp_all add: boot_ready_def power_on_def kernel_state.defs Int_Un_distrib)
  have "ata (dev power_on) (\<lambda>n. fat_sector (n mod 512))" using sector_ata by (simp add: power_on_def kernel_state.defs)
  from kernel_setup_boots [OF r(1) this fat_sector_image]
  obtain st' where st': "kernel_setup power_on = Some st'" "kheap_avail st' = 24569" "disk_fs (disk st') = 0x500"
    "\<forall>v < 512. service_routines st' ! v = (if v < 32 then Some HandleExceptions
       else if v = 0x21 then Some ClassicKeyboardHandler else service_routines power_on ! v)"
    "isr80h_commands st' = system_commands" unfolding r(2) by (elim exE conjE) (rule that)
  then show ?thesis by (intro exI [of _ st']) (simp add: system_commands_def)
qed

end
