(* ===== verification/Zhios_Read.thy ===== *)
theory Zhios_Read
  imports Zhios_Mount
begin

text \<open>
  Reading files of any length, \<^verbatim>\<open>fat16_read\<close> of \<^verbatim>\<open>src/src/fs/fat/fat16.c\<close>: the chain of clusters as
  the driver follows it through the allocation table, and the bytes of the disk that a read
  delivers.
\<close>

section \<open>The chain of clusters\<close>

text \<open>
  The table starts at sector \<open>F\<close>.  The driver looks for the successor of a cluster in the slot
  before the cluster's own, and stops at the marks for free, bad, reserved and last clusters.
\<close>

definition fat_next :: "(nat \<Rightarrow> u8) \<Rightarrow> nat \<Rightarrow> int \<Rightarrow> int" where
  "fat_next img F c = (let n = 512 * F + 2 * nat (c - 1) in uint (word_of (img n) (img (n + 1))))"

fun fat_chain :: "(nat \<Rightarrow> u8) \<Rightarrow> nat \<Rightarrow> int \<Rightarrow> nat \<Rightarrow> int option" where
  "fat_chain img F c 0 = Some c"
| "fat_chain img F c (Suc n) =
     (let e = fat_next img F c
      in if e \<in> {0xFFF8, 0xFFFF, 0xFF7, 0xFF0, 0xFF6, 0} then None else fat_chain img F e n)"

definition table_sector :: "memory \<Rightarrow> addr \<Rightarrow> nat" where
  "table_sector m priv = nat (reserved_sector_count m priv)"

lemma get_fat_entry_reads:
  fixes st :: "'a fat_state_scheme"
  assumes "ata (dev st) img" "mounted dp priv p st" "1 \<le> c" "c \<le> 65535"
  shows "\<exists>log m n. get_fat_entry dp c st = Some (fat_next img (table_sector (mem st) priv) c,
      st\<lparr>io_log := log, mem := m, streams := (streams st)(fat_read_stream p \<mapsto> \<lparr>stream_pos = n, stream_disk = dp\<rparr>)\<rparr>) \<and>
    (\<forall>a. a \<notin> region (result_buf st) 2 \<longrightarrow> m a = mem st a)"
proof -
  let ?s = "fat_read_stream p" and ?R = "reserved_sector_count (mem st) priv"
  define n where "n = 512 * table_sector (mem st) priv + 2 * nat (c - 1)"
  let ?st1 = "st\<lparr>streams := (streams st)(?s \<mapsto> \<lparr>stream_pos = int n, stream_disk = dp\<rparr>),
      mem := (mem st)(result_buf st := 0, result_buf st + 1 := 0)\<rparr>"
  obtain n0 where s: "streams st ?s = Some \<lparr>stream_pos = n0, stream_disk = dp\<rparr>"
    using assms(2) by (auto simp: mounted_def)
  have R: "0 \<le> ?R" "?R < 65536" using uint_lt2p [of "read16 (mem st) (priv + 14)"] by (simp_all add: reserved_sector_count_def)
  then have small: "n + 2 < 2147483648" using assms(3,4) by (simp add: n_def table_sector_def)
  have "of_int (?R * 512) + of_int ((c - 1) * 2) = (of_nat n :: u32)"
    using assms(3) R by (simp add: of_nat_nat n_def table_sector_def)
  then have sp: "sint (of_int (?R * 512) + of_int ((c - 1) * 2) :: u32) = int n"
    using sint_of_nat_small [of n] small by simp
  have "n = 2 * (256 * nat ?R + nat (c - 1))" by (simp add: n_def table_sector_def)
  then have "n mod 512 = 2 * ((256 * nat ?R + nat (c - 1)) mod 256)"
    using mult_mod_right [of 2 "256 * nat ?R + nat (c - 1)" 256] by simp
  then have "n mod 512 + 2 \<le> 512" using mod_less_divisor [of 256 "256 * nat ?R + nat (c - 1)"] by simp
  then obtain log where r: "disk_stream_read ?s (result_buf st) (int 2) ?st1 = Some (0,
      ?st1\<lparr>io_log := log, mem := store (mem ?st1) (result_buf st) (map (\<lambda>i. img (n + i)) [0..<2]),
        streams := (streams ?st1)(?s \<mapsto> \<lparr>stream_pos = int (n + 2), stream_disk = dp\<rparr>)\<rparr>)"
    using disk_stream_read_spec [of ?st1 img ?s n 2 "result_buf st"] assms(1,2) small
    by (auto simp: mounted_def)
  let ?m = "store (mem ?st1) (result_buf st) [img n, img (n + 1)]"
  have m: "map (\<lambda>i. img (n + i)) [0..<2] = [img n, img (n + 1)]" by (simp add: upt_rec)
  have v: "uint (read16 ?m (result_buf st)) = fat_next img (table_sector (mem st) priv) c"
    by (simp add: read16_def word_of_def fat_next_def n_def Let_def)
  have fr: "?m a = mem st a" if "a \<notin> region (result_buf st) 2" for a
  proof -
    have "result_buf st \<in> region (result_buf st) 2" "result_buf st + 1 \<in> region (result_buf st) 2"
      by (simp_all add: region_def)
    then have "a \<noteq> result_buf st" "a \<noteq> result_buf st + 1" using that by auto
    then show ?thesis by simp
  qed
  have d: "disk_at dp st = Some (disk st)" using assms(2) by (simp add: mounted_def disk_at_def)
  have "get_fat_entry dp c st = Some (uint (read16 ?m (result_buf st)), st\<lparr>io_log := log, mem := ?m,
        streams := (streams st)(?s \<mapsto> \<lparr>stream_pos = int (n + 2), stream_disk = dp\<rparr>)\<rparr>)"
    using d s r sp assms(2) unfolding m
    by (simp add: get_fat_entry_def mounted_def disk_stream_seek_def Let_def)
  then show ?thesis using fr unfolding v by blast
qed

text \<open>
  What a read keeps: the state changes in the streams, the log and the memory, and the memory
  only at the addresses in \<open>X\<close>; the disk stays mounted.
\<close>

definition read_keeps :: "addr set \<Rightarrow> addr \<Rightarrow> addr \<Rightarrow> Fat16Private \<Rightarrow> 'a fat_state_scheme \<Rightarrow> 'a fat_state_scheme \<Rightarrow> bool" where
  "read_keeps X dp priv p st st' \<longleftrightarrow> (\<exists>log m f. st' = st\<lparr>io_log := log, mem := m, streams := f\<rparr>) \<and>
     mounted dp priv p st' \<and> (\<forall>a. a \<notin> X \<longrightarrow> mem st' a = mem st a)"

lemma read_keepsD:
  assumes "read_keeps X dp priv p st st'"
  shows "mounted dp priv p st'" "dev st' = dev st" "directories st' = directories st" "result_buf st' = result_buf st"
    "disk st' = disk st" "fat_descriptors st' = fat_descriptors st" "a \<notin> X \<Longrightarrow> mem st' a = mem st a"
  using assms by (auto simp: read_keeps_def)

lemma read_keeps_refl: "mounted dp priv p st \<Longrightarrow> read_keeps X dp priv p st st"
  by (auto simp: read_keeps_def intro!: exI [of _ "io_log st"] exI [of _ "mem st"] exI [of _ "streams st"])

lemma read_keeps_trans:
  assumes "read_keeps X dp priv p st st'" "read_keeps Y dp priv p st' st''" "X \<union> Y \<subseteq> Z"
  shows "read_keeps Z dp priv p st st''"
proof -
  obtain log m f log' m' f' where "st' = st\<lparr>io_log := log, mem := m, streams := f\<rparr>" "st'' = st'\<lparr>io_log := log', mem := m', streams := f'\<rparr>"
    using assms(1,2) unfolding read_keeps_def by blast
  then have "st'' = st\<lparr>io_log := log', mem := m', streams := f'\<rparr>" by simp
  moreover have "mem st'' a = mem st a" if "a \<notin> Z" for a
  proof -
    have "a \<notin> X" "a \<notin> Y" using assms(3) that by auto
    then show ?thesis using read_keepsD(7) [OF assms(1)] read_keepsD(7) [OF assms(2)] by simp
  qed
  ultimately show ?thesis using read_keepsD(1) [OF assms(2)] unfolding read_keeps_def by blast
qed

lemma header_bytes:
  assumes "\<And>i. i < 62 \<Longrightarrow> m' (priv + of_nat i) = m (priv + of_nat i)"
  shows "sectors_per_cluster m' priv = sectors_per_cluster m priv" "table_sector m' priv = table_sector m priv"
proof -
  have h: "m' (priv + 13) = m (priv + 13)" "m' (priv + 14) = m (priv + 14)" "m' (priv + 15) = m (priv + 15)"
    using assms [of 13] assms [of 14] assms [of 15] by simp_all
  have e: "priv + 14 + 1 = priv + 15" by simp
  show "sectors_per_cluster m' priv = sectors_per_cluster m priv" using h(1) by (simp add: sectors_per_cluster_def)
  show "table_sector m' priv = table_sector m priv"
    unfolding table_sector_def reserved_sector_count_def read16_def e h ..
qed

lemma header_kept:
  assumes "read_keeps X dp priv p st st'" "region priv 62 \<inter> X = {}"
  shows "sectors_per_cluster (mem st') priv = sectors_per_cluster (mem st) priv"
    "table_sector (mem st') priv = table_sector (mem st) priv"
proof -
  have "mem st' (priv + of_nat i) = mem st (priv + of_nat i)" if "i < 62" for i
    using region_add [OF that, of priv] assms(2) by (intro read_keepsD(7) [OF assms(1)]) auto
  from header_bytes [of "mem st'" priv "mem st", OF this]
  show "sectors_per_cluster (mem st') priv = sectors_per_cluster (mem st) priv"
    "table_sector (mem st') priv = table_sector (mem st) priv" by simp_all
qed

lemma cluster_chain_follows:
  fixes st :: "'a fat_state_scheme"
  assumes "ata (dev st) img" "mounted dp priv p st" "1 \<le> c" "c \<le> 65535" "region priv 62 \<inter> region (result_buf st) 2 = {}"
    and "fat_chain img (table_sector (mem st) priv) c n = Some c'"
  shows "\<exists>st'. cluster_chain dp c n st = Some (c', st') \<and> read_keeps (region (result_buf st) 2) dp priv p st st'"
  using assms
proof (induction n arbitrary: c st)
  case 0
  then show ?case using read_keeps_refl by auto
next
  case (Suc n)
  let ?e = "fat_next img (table_sector (mem st) priv) c"
  obtain log m k where g: "get_fat_entry dp c st = Some (?e,
      st\<lparr>io_log := log, mem := m, streams := (streams st)(fat_read_stream p \<mapsto> \<lparr>stream_pos = k, stream_disk = dp\<rparr>)\<rparr>)"
    "\<forall>a. a \<notin> region (result_buf st) 2 \<longrightarrow> m a = mem st a"
    using get_fat_entry_reads [OF Suc.prems(1-4)] by blast
  define st1 where "st1 = st\<lparr>io_log := log, mem := m, streams := (streams st)(fat_read_stream p \<mapsto> \<lparr>stream_pos = k, stream_disk = dp\<rparr>)\<rparr>"
  have "mounted dp priv p st1" using Suc.prems(2) by (auto simp: mounted_def st1_def)
  then have k1: "read_keeps (region (result_buf st) 2) dp priv p st st1"
    using g(2) unfolding read_keeps_def by (auto simp: st1_def)
  note d = read_keepsD [OF k1]
  have e: "?e \<notin> {0xFFF8, 0xFFFF, 0xFF7, 0xFF0, 0xFF6, 0}" "fat_chain img (table_sector (mem st) priv) ?e n = Some c'"
    using Suc.prems(6) by (auto simp: Let_def split: if_splits)
  have "0 \<le> ?e" "?e < 65536" using uint_lt2p [of "word_of _ _"] by (simp_all add: fat_next_def Let_def)
  then have b: "1 \<le> ?e" "?e \<le> 65535" using e(1) by auto
  have i: "ata (dev st1) img" "region priv 62 \<inter> region (result_buf st1) 2 = {}"
    "fat_chain img (table_sector (mem st1) priv) ?e n = Some c'"
    using Suc.prems(1,5) d(2,4) e(2) header_kept(2) [OF k1 Suc.prems(5)] by simp_all
  obtain st' where st': "cluster_chain dp ?e n st1 = Some (c', st')" "read_keeps (region (result_buf st1) 2) dp priv p st1 st'"
    using Suc.IH [OF i(1) d(1) b i(2,3)] by blast
  have "cluster_chain dp c (Suc n) st = Some (c', st')" using g(1) e(1) st'(1) by (simp add: st1_def)
  moreover have "read_keeps (region (result_buf st) 2) dp priv p st st'" using read_keeps_trans [OF k1 st'(2)] d(4) by simp
  ultimately show ?case by blast
qed

section \<open>The bytes of a file\<close>

lemma sdiv_smod_of_nat:
  "int a sdiv int b = int (a div b)" "int a smod int b = int (a mod b)"
proof -
  show "int a sdiv int b = int (a div b)"
    by (cases "a = 0"; cases "b = 0") (simp_all add: signed_divide_int_def zdiv_int)
  show "int a smod int b = int (a mod b)"
    by (cases "a = 0"; cases "b = 0") (simp_all add: signed_modulo_int_def zmod_int)
qed

text \<open>One round of \<^verbatim>\<open>read_entries\<close>: the \<open>j\<close>-th cluster of the chain, which lies at sector \<open>k\<close>.\<close>

lemma read_entries_round:
  fixes st :: "'a fat_state_scheme"
  assumes "ata (dev st) img" "mounted dp priv p st" "1 \<le> c" "c \<le> 65535" "region priv 62 \<inter> region (result_buf st) 2 = {}"
    and "directories st (root_directory priv) = Some rd" "sectors_per_cluster (mem st) priv * 512 = int B" "0 < B" "0 < t"
    and "fat_chain img (table_sector (mem st) priv) c j = Some c'"
    and "ending_sector_pos rd + (c' - 2) * sectors_per_cluster (mem st) priv = int k" "512 * k + B < 2147483648" "B \<le> 4294967296"
  obtains st' where "read_entries dp (cluster_read_stream p) c (int (j * B)) (int t) out_ptr st =
      (if t \<le> B then Some (int t, st')
       else Option.bind (read_entries dp (cluster_read_stream p) c (int (Suc j * B)) (int (t - B)) (out_ptr + of_nat B) st')
         (\<lambda>(n, st4). Some (int B + n, st4)))"
    "read_keeps (region out_ptr (min t B) \<union> region (result_buf st) 2) dp priv p st st'"
    "\<And>i. i < min t B \<Longrightarrow> mem st' (out_ptr + of_nat i) = img (512 * k + i)"
proof -
  let ?s = "cluster_read_stream p" and ?n = "min t B"
  obtain st1 where c: "cluster_chain dp c j st = Some (c', st1)" "read_keeps (region (result_buf st) 2) dp priv p st st1"
    using cluster_chain_follows [OF assms(1-5,10)] by blast
  note d1 = read_keepsD [OF c(2)] and h1 = header_kept [OF c(2) assms(5)]
  have d: "disk_at dp st = Some (disk st)" "fs_private (disk st) = priv" "sector_size (disk st) = 512" "fat_privates st priv = Some p"
    "disk_addr st1 = dp"
    using assms(2) d1(1) by (simp_all add: mounted_def disk_at_def)
  obtain n0 where s: "streams st1 ?s = Some \<lparr>stream_pos = n0, stream_disk = dp\<rparr>" using d1(1) by (auto simp: mounted_def)
  let ?st2 = "st1\<lparr>streams := (streams st1)(?s \<mapsto> \<lparr>stream_pos = int (512 * k), stream_disk = dp\<rparr>)\<rparr>"
  have g: "get_cluster_for_offset dp c (int (j * B)) st = Some (c', st1)"
    using d assms(7,8) c(1) by (simp add: get_cluster_for_offset_def Let_def sdiv_smod_of_nat del: of_nat_mult)
  have cs: "cluster_to_sector priv c' st1 = Some (int k)"
    using assms(6,11) d1(3) h1(1) by (simp add: cluster_to_sector_def)
  have "ata (dev ?st2) img" "streams ?st2 ?s = Some \<lparr>stream_pos = int (512 * k), stream_disk = disk_addr ?st2\<rparr>"
    "512 * k + ?n < 2147483648" "(512 * k) mod 512 = 0 \<or> (512 * k) mod 512 + ?n \<le> 512"
    using assms(1,12) d1(2) d(5) by simp_all
  from disk_stream_read_spec [OF this, of out_ptr] obtain log where
    r: "disk_stream_read ?s out_ptr (int ?n) ?st2 = Some (0, ?st2\<lparr>io_log := log,
      mem := store (mem ?st2) out_ptr (map (\<lambda>i. img (512 * k + i)) [0..<?n]),
      streams := (streams ?st2)(?s \<mapsto> \<lparr>stream_pos = int (512 * k + ?n), stream_disk = disk_addr ?st2\<rparr>)\<rparr>)" by blast
  define m where "m = store (mem st1) out_ptr (map (\<lambda>i. img (512 * k + i)) [0..<?n])"
  define st3 where "st3 = st1\<lparr>io_log := log, mem := m, streams := (streams st1)(?s \<mapsto> \<lparr>stream_pos = int (512 * k + ?n), stream_disk = dp\<rparr>)\<rparr>"
  have r': "disk_stream_read ?s out_ptr (int ?n) ?st2 = Some (0, st3)" using r d(5) by (simp add: st3_def m_def)
  have m: "m a = (if a \<in> region out_ptr ?n then img (512 * k + unat (a - out_ptr)) else mem st1 a)" for a
    unfolding m_def using assms(12) by (subst store_eq) (simp_all add: region_def)
  have "mounted dp priv p st3" using d1(1) by (auto simp: mounted_def st3_def)
  then have "read_keeps (region out_ptr ?n) dp priv p st1 st3" unfolding read_keeps_def by (auto simp: st3_def m)
  then have k3: "read_keeps (region out_ptr ?n \<union> region (result_buf st) 2) dp priv p st st3" using read_keeps_trans [OF c(2)] by blast
  have seek: "disk_stream_seek ?s (int k * 512 + 0) st1 = Some (0, ?st2)" using s by (simp add: disk_stream_seek_def mult.commute)
  have z: "int (j * B) smod int B = 0" unfolding sdiv_smod_of_nat by simp
  have tr: "(if int t > int B then int B else int t) = int ?n" by simp
  have "read_entries dp ?s c (int (j * B)) (int t) out_ptr st =
      (if int t - int ?n > 0 then Option.bind (read_entries dp ?s c (int (j * B) + int ?n) (int t - int ?n) (out_ptr + of_int (int ?n)) st3)
         (\<lambda>(n, st4). Some (int ?n + n, st4))
       else Some (int ?n, st3))"
    by (subst read_entries.simps) (simp only: d(1) g cs bind.bind_lunit d(2,3) assms(7) z tr Let_def seek r' prod.case less_irrefl if_False)
  also have "\<dots> = (if t \<le> B then Some (int t, st3)
       else Option.bind (read_entries dp ?s c (int (Suc j * B)) (int (t - B)) (out_ptr + of_nat B) st3)
         (\<lambda>(n, st4). Some (int B + n, st4)))"
    by (cases "t \<le> B") (simp_all add: of_nat_diff algebra_simps)
  finally show ?thesis
    using k3 by (rule that) (use m assms(13) region_add in \<open>simp add: st3_def unat_of_nat_small\<close>)
qed

text \<open>
  Where the \<open>i\<close>-th byte of a file that starts at cluster \<open>c\<close> lies on the disk, for clusters of
  \<open>spc\<close> sectors, and that the first \<open>n\<close> clusters of its chain exist and can be reached.
\<close>

definition cluster_sector :: "Fat16Directory \<Rightarrow> int \<Rightarrow> int \<Rightarrow> int" where
  "cluster_sector rd spc c = ending_sector_pos rd + (c - 2) * spc"

definition chain_ok :: "(nat \<Rightarrow> u8) \<Rightarrow> nat \<Rightarrow> Fat16Directory \<Rightarrow> int \<Rightarrow> int \<Rightarrow> nat \<Rightarrow> bool" where
  "chain_ok img F rd spc c n \<longleftrightarrow> (\<forall>j < n. case fat_chain img F c j of None \<Rightarrow> False
     | Some c' \<Rightarrow> 0 \<le> cluster_sector rd spc c' \<and> cluster_sector rd spc c' * 512 + spc * 512 < 2147483648)"

definition file_pos :: "(nat \<Rightarrow> u8) \<Rightarrow> nat \<Rightarrow> Fat16Directory \<Rightarrow> int \<Rightarrow> int \<Rightarrow> nat \<Rightarrow> nat" where
  "file_pos img F rd spc c i = (let B = nat (spc * 512)
     in 512 * nat (cluster_sector rd spc (the (fat_chain img F c (i div B)))) + i mod B)"

lemma read_entries_chain:
  fixes st :: "'a fat_state_scheme"
  assumes "ata (dev st) img" "mounted dp priv p st" "1 \<le> c" "c \<le> 65535" "directories st (root_directory priv) = Some rd"
    and "sectors_per_cluster (mem st) priv = spc" "table_sector (mem st) priv = F" "spc * 512 = int B" "0 < B"
    and "chain_ok img F rd spc c n" "j * B + t \<le> n * B" "0 < t" "t \<le> 2147483648"
    and "region priv 62 \<inter> (region out_ptr t \<union> region (result_buf st) 2) = {}" "region out_ptr t \<inter> region (result_buf st) 2 = {}"
  shows "\<exists>st'. read_entries dp (cluster_read_stream p) c (int (j * B)) (int t) out_ptr st = Some (int t, st') \<and>
    read_keeps (region out_ptr t \<union> region (result_buf st) 2) dp priv p st st' \<and>
    (\<forall>i < t. mem st' (out_ptr + of_nat i) = img (file_pos img F rd spc c (j * B + i)))"
  using assms(1,2,5-7,11-15)
proof (induction t arbitrary: j out_ptr st rule: less_induct)
  case (less t)
  have "j * B < n * B" using less.prems(6,7) by linarith
  then have "j < n" by simp
  then obtain c' where c': "fat_chain img F c j = Some c'" "0 \<le> cluster_sector rd spc c'" "cluster_sector rd spc c' * 512 + spc * 512 < 2147483648"
    using assms(10) by (auto simp: chain_ok_def split: option.splits)
  define k where "k = nat (cluster_sector rd spc c')"
  have k: "cluster_sector rd spc c' = int k" "512 * k + B < 2147483648" using c'(2,3) assms(8) by (simp_all add: k_def)
  have pos: "file_pos img F rd spc c (j * B + i) = 512 * k + i" if "i < B" for i
    using that c'(1) assms(8) by (simp add: file_pos_def k_def Let_def)
  have h: "region priv 62 \<inter> region (result_buf st) 2 = {}" "sectors_per_cluster (mem st) priv * 512 = int B"
    "fat_chain img (table_sector (mem st) priv) c j = Some c'"
    "ending_sector_pos rd + (c' - 2) * sectors_per_cluster (mem st) priv = int k" "B \<le> 4294967296"
    using less.prems(4,5,9) assms(8) c'(1) k by (auto simp: cluster_sector_def)
  obtain st1 where r: "read_entries dp (cluster_read_stream p) c (int (j * B)) (int t) out_ptr st =
      (if t \<le> B then Some (int t, st1)
       else Option.bind (read_entries dp (cluster_read_stream p) c (int (Suc j * B)) (int (t - B)) (out_ptr + of_nat B) st1)
         (\<lambda>(n, st4). Some (int B + n, st4)))"
    "read_keeps (region out_ptr (min t B) \<union> region (result_buf st) 2) dp priv p st st1"
    "\<And>i. i < min t B \<Longrightarrow> mem st1 (out_ptr + of_nat i) = img (512 * k + i)"
    by (rule read_entries_round [OF less.prems(1,2) assms(3,4) h(1) less.prems(3) h(2) assms(9) less.prems(7) h(3,4) k(2) h(5)]) (rule that)
  show ?case
  proof (cases "t \<le> B")
    case True
    then show ?thesis using r pos by (intro exI [of _ st1]) (auto simp: min_def)
  next
    case False
    let ?o = "out_ptr + of_nat B" and ?X = "region out_ptr t \<union> region (result_buf st) 2"
    have B: "min t B = B" "t - B < t" "0 < t - B" "t - B \<le> 2147483648" "Suc j * B + (t - B) \<le> n * B"
      using False assms(9) less.prems(6,8) by auto
    have sub: "region ?o (t - B) \<subseteq> region out_ptr t" "region out_ptr B \<subseteq> region out_ptr t"
      using region_shift_subset [of B "t - B" t out_ptr] region_mono [of B t out_ptr] False less.prems(8) by simp_all
    have dis: "region out_ptr B \<inter> region ?o (t - B) = {}"
      using region_shift_disjoint [of 0 B B "t - B" out_ptr] False less.prems(8) by simp
    note k1 = r(2) [unfolded B(1)] and d1 = read_keepsD [OF r(2) [unfolded B(1)]]
    have "region priv 62 \<inter> (region out_ptr B \<union> region (result_buf st) 2) = {}" using less.prems(9) sub(2) by blast
    note h1 = header_kept [OF k1 this]
    have "ata (dev st1) img" "directories st1 (root_directory priv) = Some rd" "sectors_per_cluster (mem st1) priv = spc"
      "table_sector (mem st1) priv = F" "region priv 62 \<inter> (region ?o (t - B) \<union> region (result_buf st1) 2) = {}"
      "region ?o (t - B) \<inter> region (result_buf st1) 2 = {}"
      using less.prems(1,3-5,9,10) d1(2-4) h1 sub(1) by (simp_all, blast+)
    note i1 = this
    obtain st2 where st2: "read_entries dp (cluster_read_stream p) c (int (Suc j * B)) (int (t - B)) ?o st1 = Some (int (t - B), st2)"
      "read_keeps (region ?o (t - B) \<union> region (result_buf st1) 2) dp priv p st1 st2"
      "\<forall>i < t - B. mem st2 (?o + of_nat i) = img (file_pos img F rd spc c (Suc j * B + i))"
      using less.IH [OF B(2) i1(1) d1(1) i1(2-4) B(5,3,4) i1(5,6)] by blast
    have "read_keeps ?X dp priv p st st2"
      using sub by (intro read_keeps_trans [OF k1 st2(2)]) (auto simp: d1(4))
    moreover have "mem st2 (out_ptr + of_nat i) = img (file_pos img F rd spc c (j * B + i))" if "i < t" for i
    proof (cases "i < B")
      case True
      then have a: "out_ptr + of_nat i \<in> region out_ptr B" using h(5) by (rule region_add)
      then have "out_ptr + of_nat i \<notin> region ?o (t - B) \<union> region (result_buf st1) 2"
        using dis sub(2) less.prems(10) d1(4) by (auto simp: disjoint_iff)
      then show ?thesis using read_keepsD(7) [OF st2(2)] r(3) [of i] True False pos by simp
    next
      case False
      then have e: "out_ptr + of_nat i = ?o + of_nat (i - B)" "j * B + i = Suc j * B + (i - B)" and l: "i - B < t - B"
        using that by (simp_all add: of_nat_diff)
      from st2(3) [rule_format, OF l] show ?thesis by (simp only: e)
    qed
    ultimately show ?thesis using r(1) st2(1) False by (intro exI [of _ st2]) simp
  qed
qed

lemma fat16_read_spec:
  assumes "ata (dev st) img" "mounted dp priv p st" "directories st (root_directory priv) = Some rd"
    and "fat_descriptors st fd = Some \<lparr>desc_item = item, desc_pos = 0\<rparr>" "fat_items st item = Some it"
    and "sectors_per_cluster (mem st) priv = spc" "0 < spc" "table_sector (mem st) priv = F"
    and "sint (get_first_cluster (mem st) (item_ptr it)) = c" "1 \<le> c" "c \<le> 65535"
    and "0 < t" "t \<le> 2147483648" "int t \<le> int n * (spc * 512)" "chain_ok img F rd spc c n"
    and "region priv 62 \<inter> (region out_ptr t \<union> region (result_buf st) 2) = {}" "region out_ptr t \<inter> region (result_buf st) 2 = {}"
  shows "\<exists>st'. fat16_read dp fd (int t) out_ptr st = Some (int t, st') \<and>
    (\<forall>i < t. mem st' (out_ptr + of_nat i) = img (file_pos img F rd spc c i)) \<and>
    (\<forall>a. a \<notin> region out_ptr t \<union> region (result_buf st) 2 \<longrightarrow> mem st' a = mem st a) \<and>
    fat_descriptors st' fd = Some \<lparr>desc_item = item, desc_pos = of_nat t\<rparr> \<and> mounted dp priv p st'"
proof -
  define B where "B = nat (spc * 512)"
  have "spc * 512 = int B" using assms(7) by (simp add: B_def)
  moreover from this have "int t \<le> int (n * B)" using assms(14) by simp
  ultimately have B: "spc * 512 = int B" "0 < B" "0 * B + t \<le> n * B" using assms(7) by linarith+
  obtain st1 where r: "read_entries dp (cluster_read_stream p) c (int (0 * B)) (int t) out_ptr st = Some (int t, st1)"
    "read_keeps (region out_ptr t \<union> region (result_buf st) 2) dp priv p st st1"
    "\<forall>i < t. mem st1 (out_ptr + of_nat i) = img (file_pos img F rd spc c (0 * B + i))"
    using read_entries_chain [OF assms(1,2,10,11,3,6,8) B(1,2) assms(15) B(3) assms(12,13,16,17)] by blast
  note d = read_keepsD [OF r(2)]
  have l: "load_entries_from_cluster dp c 0 (int t) out_ptr st = Some (int t, st1)"
    using assms(2) r(1) by (simp add: load_entries_from_cluster_def mounted_def disk_at_def)
  let ?st = "st1\<lparr>fat_descriptors := (fat_descriptors st1)(fd \<mapsto> \<lparr>desc_item = item, desc_pos = of_nat t\<rparr>)\<rparr>"
  have "fat16_read dp fd (int t) out_ptr st = Some (int t, ?st)"
    using assms(4,5,9) l d(6) by (simp add: fat16_read_def upd_descriptor_def)
  moreover have "mounted dp priv p ?st = mounted dp priv p st1" by (simp add: mounted_def)
  ultimately show ?thesis using r(3) d(1,7) by (intro exI [of _ ?st]) simp
qed

section \<open>Properties\<close>


text \<open>A file of two clusters on a disk whose sectors are all alike.\<close>

definition chain_sector :: "nat \<Rightarrow> u8" where
  "chain_sector n = (if n = 2 then 3 else if n = 3 then 0 else 7)"

definition chain_state_ex :: fat_state where
  "chain_state_ex = fat_state_ex\<lparr>dev := sector_dev chain_sector, mem := (mem fat_state_ex)(0x721A := 2)\<rparr>"


end
