(* ===== verification/Zhios_Open.thy ===== *)
theory Zhios_Open
  imports Zhios_Read
begin

text \<open>
  Opening files: \<^verbatim>\<open>find_item_in_directory\<close> and \<^verbatim>\<open>fat16_open\<close> of \<^verbatim>\<open>src/src/fs/fat/fat16.c\<close>.  The scan of a
  directory finds the first entry whose name is the one in the path, up to the case of letters;
  it gets an item with a copy of that entry and a descriptor of the driver.
\<close>

section \<open>Scanning a directory\<close>

text \<open>
  An entry is a string of at least 8 and at most 31 bytes (name, extension, attribute and what
  follows up to a zero); names are equal up to the case of letters.
\<close>

definition dir_entry :: "memory \<Rightarrow> addr \<Rightarrow> u8 list \<Rightarrow> bool" where
  "dir_entry m a s \<longleftrightarrow> cstr m a s \<and> 8 \<le> length s \<and> length s \<le> 31"

lemma dir_entry_cong:
  assumes "dir_entry m a s" "\<And>x. x \<in> region a 32 \<Longrightarrow> m' x = m x"
  shows "dir_entry m' a s"
proof -
  have s: "cstr m a s" "8 \<le> length s" "length s \<le> 31" using assms(1) by (simp_all add: dir_entry_def)
  have "region a (Suc (length s)) \<subseteq> region a 32" using s(3) by (intro region_mono) simp
  then have "m' x = m x" if "x \<in> region a (Suc (length s))" for x using that by (intro assms(2)) (rule subsetD)
  then show ?thesis using s cstr_cong [OF s(1)] by (simp add: dir_entry_def)
qed

lemma dir_entry_copy:
  assumes "dir_entry m a s" "\<And>i. i < 32 \<Longrightarrow> m' (b + of_nat i) = m (a + of_nat i)"
  shows "dir_entry m' b s"
  using assms by (auto simp: dir_entry_def cstr_iff)

definition names :: "u8 list \<Rightarrow> u8 list \<Rightarrow> bool" where
  "names s name \<longleftrightarrow> map to_lower_char (fat_name s) = map to_lower_char name"

definition dot_ok :: "'a fat_state_scheme \<Rightarrow> bool" where
  "dot_ok st \<longleftrightarrow> cstr (mem st) (dot_lit st) [0x2E] \<and> region (dot_lit st) 2 \<inter> region (filename_buf st) 100 = {}"

lemma dot_ok_cong:
  assumes "dot_ok st" "\<And>a. a \<in> region (dot_lit st) 2 \<Longrightarrow> m a = mem st a"
  shows "dot_ok (st\<lparr>mem := m\<rparr>)"
proof -
  have l: "Suc (length [0x2E :: u8]) = 2" by simp
  have "cstr (mem st) (dot_lit st) [0x2E]" using assms(1) by (simp add: dot_ok_def)
  then have "cstr m (dot_lit st) [0x2E]" using assms(2) by (rule cstr_cong [where s = "[0x2E]", unfolded l])
  then show ?thesis using assms(1) by (simp add: dot_ok_def)
qed

lemma filename_step:
  fixes st :: "'a fat_state_scheme"
  assumes "dir_entry (mem st) entry s" "region entry 32 \<inter> region (filename_buf st) 100 = {}" "dot_ok st"
  obtains m where "get_fat16_filename entry (filename_buf st) (st\<lparr>mem := memset (mem st) (filename_buf st) 0 100\<rparr>) = Some (st\<lparr>mem := m\<rparr>)"
    "cstr m (filename_buf st) (fat_name s)" "\<And>a. a \<notin> region (filename_buf st) 100 \<Longrightarrow> m a = mem st a"
proof -
  let ?f = "filename_buf st" and ?st = "st\<lparr>mem := memset (mem st) (filename_buf st) 0 100\<rparr>"
  have s: "8 \<le> length s" "length s \<le> 31" "cstr (mem st) entry s" using assms(1) by (simp_all add: dir_entry_def)
  have fr: "mem ?st a = mem st a" if "a \<notin> region ?f 100" for a using that by (simp add: memset_eq)
  have sub: "region entry (Suc (length s)) \<subseteq> region entry 32" using s(2) by (intro region_mono) simp
  have d: "region entry (Suc (length s)) \<inter> region ?f 100 = {}" using sub assms(2) by blast
  have dot: "region (dot_lit st) 2 \<inter> region ?f 100 = {}" using assms(3) by (simp add: dot_ok_def)
  have "cstr (mem ?st) entry s" by (rule cstr_cong [OF s(3)]) (use d fr in blast)
  moreover have "dot_ok ?st" using dot fr by (intro dot_ok_cong [OF assms(3)]) auto
  then have "cstr (mem ?st) (dot_lit ?st) [0x2E]" by (simp only: dot_ok_def)
  ultimately have "\<exists>m. get_fat16_filename entry ?f ?st = Some (?st\<lparr>mem := m\<rparr>) \<and> cstr m ?f (fat_name s) \<and>
      (\<forall>a. a \<notin> region ?f 100 \<longrightarrow> m a = mem ?st a)"
    using s(1,2) d dot by (intro get_fat16_filename_spec) simp_all
  then obtain m where "get_fat16_filename entry ?f ?st = Some (?st\<lparr>mem := m\<rparr>)" "cstr m ?f (fat_name s)"
    "\<forall>a. a \<notin> region ?f 100 \<longrightarrow> m a = mem ?st a" by blast
  then show ?thesis using fr by (intro that [of m]) simp_all
qed

lemma names_match:
  assumes "cstr m f (fat_name s)" "cstr m q name"
  shows "length (fat_name s) = length name \<and> istrncmp m f q (int (length (fat_name s))) = 0 \<longleftrightarrow> names s name"
proof -
  have "istrncmp m f q (int (length (fat_name s))) = 0 \<longleftrightarrow> names s name" if "length (fat_name s) = length name"
    using istrncmp_loop_cstr [OF assms] that by (simp add: istrncmp_def names_def)
  moreover have "length (fat_name s) = length name" if "names s name" using that unfolding names_def by (metis length_map)
  ultimately show ?thesis by blast
qed

text \<open>The frame of the scan: nothing but the buffer for file names changes.\<close>

lemma scan_directory_finds:
  fixes st :: "'a fat_state_scheme"
  assumes "\<And>k. i \<le> k \<Longrightarrow> k \<le> j \<Longrightarrow> dir_entry (mem st) (items + 32 * of_nat k) (ss k) \<and>
      region (items + 32 * of_nat k) 32 \<inter> region (filename_buf st) 100 = {}"
    and "cstr (mem st) q name" "region q (Suc (length name)) \<inter> region (filename_buf st) 100 = {}" "dot_ok st"
    and "i \<le> j" "j < i + n" "names (ss j) name" "\<And>k. i \<le> k \<Longrightarrow> k < j \<Longrightarrow> \<not> names (ss k) name"
  shows "\<exists>m. scan_directory dp items q i n st = new_fat16_item dp (items + 32 * of_nat j) (st\<lparr>mem := m\<rparr>) \<and>
    (\<forall>a. a \<notin> region (filename_buf st) 100 \<longrightarrow> m a = mem st a)"
  using assms
proof (induction n arbitrary: i st)
  case 0
  then show ?case by simp
next
  case (Suc n)
  let ?e = "items + 32 * of_nat i" and ?f = "filename_buf st"
  have e: "dir_entry (mem st) ?e (ss i)" "region ?e 32 \<inter> region ?f 100 = {}" using Suc.prems(1) [of i] Suc.prems(5) by simp_all
  obtain m where m: "get_fat16_filename ?e ?f (st\<lparr>mem := memset (mem st) ?f 0 100\<rparr>) = Some (st\<lparr>mem := m\<rparr>)"
    "cstr m ?f (fat_name (ss i))" "\<And>a. a \<notin> region ?f 100 \<Longrightarrow> m a = mem st a"
    by (rule filename_step [OF e Suc.prems(4)]) (rule that)
  have q: "cstr m q name" using Suc.prems(3) m(3) by (intro cstr_cong [OF Suc.prems(2)]) blast
  have step: "scan_directory dp items q i (Suc n) st =
      (if names (ss i) name then new_fat16_item dp ?e (st\<lparr>mem := m\<rparr>) else scan_directory dp items q (Suc i) n (st\<lparr>mem := m\<rparr>))"
    using m(1,2) q names_match [OF m(2) q] by auto
  show ?case
  proof (cases "i = j")
    case True
    then show ?thesis using step Suc.prems(7) m(3) by (intro exI [of _ m]) simp
  next
    case False
    let ?st = "st\<lparr>mem := m\<rparr>"
    have "dir_entry (mem ?st) (items + 32 * of_nat k) (ss k) \<and> region (items + 32 * of_nat k) 32 \<inter> region (filename_buf ?st) 100 = {}"
      if "Suc i \<le> k" "k \<le> j" for k
    proof -
      have k: "dir_entry (mem st) (items + 32 * of_nat k) (ss k)" "region (items + 32 * of_nat k) 32 \<inter> region ?f 100 = {}"
        using Suc.prems(1) [of k] that by simp_all
      have "m x = mem st x" if "x \<in> region (items + 32 * of_nat k) 32" for x using k(2) that by (intro m(3)) auto
      from dir_entry_cong [OF k(1) this] show ?thesis using k(2) by simp
    qed
    moreover have "dot_ok ?st" using Suc.prems(4) m(3) by (intro dot_ok_cong) (auto simp: dot_ok_def)
    ultimately have "\<exists>m'. scan_directory dp items q (Suc i) n ?st = new_fat16_item dp (items + 32 * of_nat j) (?st\<lparr>mem := m'\<rparr>) \<and>
        (\<forall>a. a \<notin> region (filename_buf ?st) 100 \<longrightarrow> m' a = mem ?st a)"
      using Suc.prems(3,5-8) q False by (intro Suc.IH) simp_all
    moreover have "\<not> names (ss i) name" using Suc.prems(5,8) False by simp
    ultimately show ?thesis using step m(3) by auto
  qed
qed

section \<open>Opening\<close>

text \<open>A file: the item gets a copy of the entry in a page of its own.\<close>

lemma new_fat16_item_file:
  fixes st :: "'a fat_state_scheme"
  assumes "kheap_ok st" "2 \<le> kheap_avail st" "entry_attribute (mem st) entry AND 0x10 = 0"
    and "(items, 4096) \<in> kheap_live st" "region entry 32 \<subseteq> region items 4096"
  obtains item copy m st' where "new_fat16_item dp entry st = Some (item, st')" "item \<noteq> 0"
    "st' = st\<lparr>mem := m, fat_items := (fat_items st)(item \<mapsto> \<lparr>item_ptr = copy, item_type = 1\<rparr>)\<rparr>"
    "heap_keeps {} st (st\<lparr>mem := m\<rparr>)" "(copy, 4096) \<in> kheap_live (st\<lparr>mem := m\<rparr>)"
    "\<And>i. i < 32 \<Longrightarrow> m (copy + of_nat i) = mem st (entry + of_nat i)" "kheap_avail st = kheap_avail (st\<lparr>mem := m\<rparr>) + 2"
proof -
  have sz: "0 < unat (8 :: u32)" "unat (8 :: u32) \<le> 4096" "0 < unat (32 :: u32)" "unat (32 :: u32) \<le> 4096" "0 < kheap_avail st"
    using assms(2) by simp_all
  obtain item m1 where a: "kzalloc 8 st = (item, st\<lparr>mem := m1\<rparr>)" "item \<noteq> 0" "heap_keeps {} st (st\<lparr>mem := m1\<rparr>)"
    "kheap_live (st\<lparr>mem := m1\<rparr>) = insert (item, 4096) (kheap_live st)" "kheap_avail st = Suc (kheap_avail (st\<lparr>mem := m1\<rparr>))"
    "\<And>q k. (q, k) \<in> kheap_live st \<Longrightarrow> q \<noteq> item" "unat item mod 4096 = 0"
    "\<And>q k. (q, k) \<in> kheap_live st \<Longrightarrow> region item 4096 \<inter> region q k = {}"
    by (rule alloc_step [OF assms(1) sz(1,2,5)]) (rule that)
  define st1 where "st1 = st\<lparr>mem := m1, fat_items := (fat_items st)(item \<mapsto> \<lparr>item_ptr = 0, item_type = 1\<rparr>)\<rparr>"
  have k1: "kheap_ok st1" "0 < kheap_avail st1" "kheap_live st1 = insert (item, 4096) (kheap_live st)"
    using heap_keepsD(2) [OF a(3)] a(4,5) assms(2) by (simp_all add: st1_def kheap_defs)
  obtain copy m2 where b: "kzalloc 32 st1 = (copy, st1\<lparr>mem := m2\<rparr>)" "copy \<noteq> 0" "heap_keeps {} st1 (st1\<lparr>mem := m2\<rparr>)"
    "kheap_live (st1\<lparr>mem := m2\<rparr>) = insert (copy, 4096) (kheap_live st1)" "kheap_avail st1 = Suc (kheap_avail (st1\<lparr>mem := m2\<rparr>))"
    "\<And>q k. (q, k) \<in> kheap_live st1 \<Longrightarrow> q \<noteq> copy" "unat copy mod 4096 = 0"
    "\<And>q k. (q, k) \<in> kheap_live st1 \<Longrightarrow> region copy 4096 \<inter> region q k = {}"
    by (rule alloc_step [OF k1(1) sz(3,4) k1(2)]) (rule that)
  have items1: "(items, 4096) \<in> kheap_live st1" using k1(3) assms(4) by simp
  have sub: "region copy 32 \<subseteq> region copy 4096" by (rule region_mono) simp
  have dis: "region entry (nat 32) \<inter> region copy (nat 32) = {}" using b(8) [OF items1] assms(5) sub by auto
  define m where "m = memcpy m2 entry copy 32"
  have m: "m x = (if x \<in> region copy 32 then m2 (entry + (x - copy)) else m2 x)" for x
    unfolding m_def using memcpy_disjoint [OF dis] by simp
  have "m x = m2 x" if "x \<notin> region copy 4096" for x using that sub by (auto simp: m)
  moreover have "(copy, 4096) \<in> kheap_live (st1\<lparr>mem := m2\<rparr>)" using b(4) by simp
  ultimately have f: "heap_keeps {} st1 (st1\<lparr>mem := m\<rparr>)" "kheap_live (st1\<lparr>mem := m\<rparr>) = insert (copy, 4096) (kheap_live st1)"
    "kheap_avail st1 = Suc (kheap_avail (st1\<lparr>mem := m\<rparr>))"
    using alloc_filled [OF b(3) _ b(8), of m] b(4,5) by auto
  have e: "m1 x = mem st x" "m2 x = mem st x" if "x \<in> region entry 32" for x
  proof -
    have x: "x \<in> region items 4096" using that assms(5) by blast
    show "m1 x = mem st x" using heap_keepsD(4) [OF a(3) assms(4) x] by simp
    then show "m2 x = mem st x" using heap_keepsD(4) [OF b(3) items1 x] by (simp add: st1_def)
  qed
  show ?thesis
  proof (rule that [OF _ a(2) refl])
    have at: "entry_attribute m1 entry AND 0x10 = 0"
      using assms(3) e(1) region_add [of 11 32 entry] by (simp add: entry_attribute_def)
    have c: "fat16_clone_directory_item entry 32 st1 = (copy, st1\<lparr>mem := m\<rparr>)"
      using b(1,2) by (simp add: fat16_clone_directory_item_def m_def)
    show "new_fat16_item dp entry st = Some (item, st\<lparr>mem := m, fat_items := (fat_items st)(item \<mapsto> \<lparr>item_ptr = copy, item_type = 1\<rparr>)\<rparr>)"
      using a(1,2) at c by (simp add: new_fat16_item_def upd_item_def st1_def)
    have "heap_keeps {} st st1" "heap_keeps {} st1 (st\<lparr>mem := m\<rparr>)"
      using a(3) f(1) by (simp_all add: st1_def heap_keeps_def kheap_defs kheap_arena_def)
    from heap_keeps_trans [OF this] show "heap_keeps {} st (st\<lparr>mem := m\<rparr>)" by simp
    show "(copy, 4096) \<in> kheap_live (st\<lparr>mem := m\<rparr>)" using f(2) by (simp add: st1_def kheap_defs)
    have "kheap_avail st1 = kheap_avail (st\<lparr>mem := m1\<rparr>)" "kheap_avail (st1\<lparr>mem := m\<rparr>) = kheap_avail (st\<lparr>mem := m\<rparr>)"
      by (simp_all add: st1_def kheap_avail_def)
    then show "kheap_avail st = kheap_avail (st\<lparr>mem := m\<rparr>) + 2" using a(5) f(3) by simp
    show "m (copy + of_nat i) = mem st (entry + of_nat i)" if "i < 32" for i
      using region_add [OF that, of copy] region_add [OF that, of entry] e(2) by (simp add: m)
  qed
qed

text \<open>
  What \<^verbatim>\<open>fat16_open\<close> relies on: its buffer and the literal lie outside the heap, and the \<open>j\<close>-th entry of
  the directory is the first one of the given name, and not a directory.
\<close>

definition open_ready :: "'a fat_state_scheme \<Rightarrow> bool" where
  "open_ready st \<longleftrightarrow> dot_ok st \<and>
     (region (filename_buf st) 100 \<union> region (dot_lit st) 2) \<inter> (kheap_arena st \<union> kheap_reserved st) = {}"

definition lists_file :: "memory \<Rightarrow> addr \<Rightarrow> (nat \<Rightarrow> u8 list) \<Rightarrow> nat \<Rightarrow> u8 list \<Rightarrow> bool" where
  "lists_file m items ss j name \<longleftrightarrow> (\<forall>k \<le> j. dir_entry m (items + 32 * of_nat k) (ss k)) \<and>
     names (ss j) name \<and> (\<forall>k < j. \<not> names (ss k) name) \<and> entry_attribute m (items + 32 * of_nat j) AND 0x10 = 0"

lemma entry_region:
  assumes "k < 128"
  shows "region (items + 32 * of_nat k) 32 \<subseteq> region items 4096"
  using region_shift_subset [of "32 * k" 32 4096 items] assms by simp

lemma lists_file_cong:
  assumes "lists_file m items ss j name" "j < 128" "\<And>x. x \<in> region items 4096 \<Longrightarrow> m' x = m x"
  shows "lists_file m' items ss j name"
proof -
  have e: "m' x = m x" if "k \<le> j" "x \<in> region (items + 32 * of_nat k) 32" for k x
  proof -
    have "k < 128" using that(1) assms(2) by simp
    from subsetD [OF entry_region [OF this] that(2)] show ?thesis by (rule assms(3))
  qed
  have "dir_entry m' (items + 32 * of_nat k) (ss k)" if "k \<le> j" for k
  proof -
    have "dir_entry m (items + 32 * of_nat k) (ss k)" using assms(1) that by (simp add: lists_file_def)
    then show ?thesis using e [OF that] by (rule dir_entry_cong)
  qed
  moreover have "m' (items + 32 * of_nat j + 11) = m (items + 32 * of_nat j + 11)"
    using e [of j] region_add [of 11 32 "items + 32 * of_nat j"] by simp
  ultimately show ?thesis using assms(1) by (simp add: lists_file_def entry_attribute_def)
qed

lemma open_ready_cong:
  assumes "open_ready st" "kernel_heap st' = kernel_heap st" "filename_buf st' = filename_buf st" "dot_lit st' = dot_lit st"
    and "\<And>a. a \<in> region (dot_lit st) 2 \<Longrightarrow> mem st' a = mem st a"
  shows "open_ready st'"
proof -
  have "dot_ok (st\<lparr>mem := mem st'\<rparr>)" using assms(1,5) by (intro dot_ok_cong) (auto simp: open_ready_def)
  then show ?thesis using assms(1-4) by (simp add: open_ready_def dot_ok_def kheap_arena_def kheap_reserved_def)
qed

text \<open>The search in the root directory.\<close>

lemma find_file:
  fixes st :: "'a fat_state_scheme"
  assumes "kheap_ok st" "2 \<le> kheap_avail st" "open_ready st" "directories st dir = Some rd" "(directory_item rd, 4096) \<in> kheap_live st"
    and "lists_file (mem st) (directory_item rd) ss j name" "int j < dir_total rd" "j < 128"
    and "path_nodes st path = Some \<lparr>path_name = q, path_next = 0\<rparr>" "string_in q name st"
  obtains item copy m where "find_item_in_directory dp dir path st = Some (item,
      st\<lparr>mem := m, fat_items := (fat_items st)(item \<mapsto> \<lparr>item_ptr = copy, item_type = 1\<rparr>)\<rparr>)" "item \<noteq> 0"
    "heap_keeps (region (filename_buf st) 100) st (st\<lparr>mem := m\<rparr>)" "(copy, 4096) \<in> kheap_live (st\<lparr>mem := m\<rparr>)"
    "\<And>i. i < 32 \<Longrightarrow> m (copy + of_nat i) = mem st (directory_item rd + 32 * of_nat j + of_nat i)"
    "kheap_avail st = kheap_avail (st\<lparr>mem := m\<rparr>) + 2"
proof -
  let ?f = "region (filename_buf st) 100" and ?items = "directory_item rd"
  have fb: "?f \<inter> kheap_arena st = {}" "?f \<inter> kheap_reserved st = {}" "dot_ok st" using assms(3) by (auto simp: open_ready_def)
  have live: "region q' k \<inter> ?f = {}" if "(q', k) \<in> kheap_live st" for q' k using kheap_live_arena [OF assms(1) that] fb(1) by blast
  have ent: "dir_entry (mem st) (?items + 32 * of_nat k) (ss k) \<and> region (?items + 32 * of_nat k) 32 \<inter> ?f = {}" if "k \<le> j" for k
    using that assms(6,8) entry_region [of k ?items] live [OF assms(5)] by (auto simp: lists_file_def)
  have q: "cstr (mem st) q name" "region q (Suc (length name)) \<inter> ?f = {}" using assms(10) live by (auto simp: string_in_def)
  have n: "names (ss j) name" "\<And>k. k < j \<Longrightarrow> \<not> names (ss k) name" using assms(6) by (auto simp: lists_file_def)
  have "\<exists>m. scan_directory dp ?items q 0 (nat (dir_total rd)) st = new_fat16_item dp (?items + 32 * of_nat j) (st\<lparr>mem := m\<rparr>) \<and>
      (\<forall>a. a \<notin> ?f \<longrightarrow> m a = mem st a)"
    by (rule scan_directory_finds [of 0 j]) (use ent q fb(3) n assms(7) in auto)
  then obtain m1 where sc: "scan_directory dp ?items q 0 (nat (dir_total rd)) st = new_fat16_item dp (?items + 32 * of_nat j) (st\<lparr>mem := m1\<rparr>)"
    "\<And>a. a \<notin> ?f \<Longrightarrow> m1 a = mem st a" by blast
  note p = put_heap_keeps [OF assms(1) sc(2) fb(2)]
  have same: "m1 x = mem st x" if "x \<in> region ?items 4096" for x using that live [OF assms(5)] by (intro sc(2)) auto
  have l1: "lists_file m1 ?items ss j name" by (rule lists_file_cong [OF assms(6,8) same])
  have s1: "kheap_ok (st\<lparr>mem := m1\<rparr>)" "2 \<le> kheap_avail (st\<lparr>mem := m1\<rparr>)"
    "entry_attribute (mem (st\<lparr>mem := m1\<rparr>)) (?items + 32 * of_nat j) AND 0x10 = 0" "(?items, 4096) \<in> kheap_live (st\<lparr>mem := m1\<rparr>)"
    using heap_keepsD(2) [OF p(1)] p(2,3) assms(2,5) l1 by (simp_all add: lists_file_def)
  obtain item copy m st' where i: "new_fat16_item dp (?items + 32 * of_nat j) (st\<lparr>mem := m1\<rparr>) = Some (item, st')" "item \<noteq> 0"
    "st' = (st\<lparr>mem := m1\<rparr>)\<lparr>mem := m, fat_items := (fat_items (st\<lparr>mem := m1\<rparr>))(item \<mapsto> \<lparr>item_ptr = copy, item_type = 1\<rparr>)\<rparr>"
    "heap_keeps {} (st\<lparr>mem := m1\<rparr>) (st\<lparr>mem := m1, mem := m\<rparr>)" "(copy, 4096) \<in> kheap_live (st\<lparr>mem := m1, mem := m\<rparr>)"
    "\<And>i. i < 32 \<Longrightarrow> m (copy + of_nat i) = mem (st\<lparr>mem := m1\<rparr>) (?items + 32 * of_nat j + of_nat i)"
    "kheap_avail (st\<lparr>mem := m1\<rparr>) = kheap_avail (st\<lparr>mem := m1, mem := m\<rparr>) + 2"
    by (rule new_fat16_item_file [OF s1 entry_region [OF assms(8)]]) (rule that)
  show ?thesis
  proof (rule that [OF _ i(2)])
    show "find_item_in_directory dp dir path st = Some (item,
        st\<lparr>mem := m, fat_items := (fat_items st)(item \<mapsto> \<lparr>item_ptr = copy, item_type = 1\<rparr>)\<rparr>)"
      using assms(4,9) sc(1) i(1,3) by (subst find_item_in_directory.simps) simp
    show "heap_keeps ?f st (st\<lparr>mem := m\<rparr>)" using heap_keeps_trans [OF p(1) i(4)] by simp
    show "(copy, 4096) \<in> kheap_live (st\<lparr>mem := m\<rparr>)" using i(5) by simp
    show "kheap_avail st = kheap_avail (st\<lparr>mem := m\<rparr>) + 2" using i(7) p(3) by simp
    show "m (copy + of_nat k) = mem st (?items + 32 * of_nat j + of_nat k)" if "k < 32" for k
      using i(6) [OF that] same subsetD [OF entry_region [OF assms(8)] region_add [OF that]] by simp
  qed
qed

text \<open>The last step of \<^verbatim>\<open>fat16_open\<close> computes the name of the file from the copy of the entry.\<close>

lemma filename_of_copy:
  fixes st :: "'a fat_state_scheme"
  assumes "open_ready st" "heap_keeps (region (filename_buf st) 100) st (st\<lparr>mem := m2\<rparr>)"
    and "(copy, 4096) \<in> kheap_live (st\<lparr>mem := m2\<rparr>)" "dir_entry m2 copy s"
    and "mem st3 = m2" "filename_buf st3 = filename_buf st" "dot_lit st3 = dot_lit st"
  obtains m where "get_fat16_filename copy (filename_buf st) st3 = Some (st3\<lparr>mem := m\<rparr>)"
    "heap_keeps (region (filename_buf st) 100) st (st\<lparr>mem := m\<rparr>)" "\<And>i. i < 32 \<Longrightarrow> m (copy + of_nat i) = m2 (copy + of_nat i)"
    "kheap_live (st\<lparr>mem := m\<rparr>) = kheap_live (st\<lparr>mem := m2\<rparr>)" "kheap_avail (st\<lparr>mem := m\<rparr>) = kheap_avail (st\<lparr>mem := m2\<rparr>)"
proof -
  let ?f = "region (filename_buf st) 100"
  note d2 = heap_keepsD [OF assms(2)]
  have fb: "?f \<inter> (kheap_arena st \<union> kheap_reserved st) = {}" "region (dot_lit st) 2 \<inter> (kheap_arena st \<union> kheap_reserved st) = {}" "dot_ok st"
    using assms(1) by (auto simp: open_ready_def)
  have "region copy 4096 \<subseteq> kheap_arena st" using kheap_live_arena [OF d2(2) assms(3)] d2(6) by simp
  then have cf: "region copy 32 \<inter> ?f = {}" using fb(1) region_mono [of 32 4096 copy] by auto
  have "m2 x = mem st x" if "x \<in> region (dot_lit st) 2" for x
    using d2(5) [of x] fb(2,3) that by (auto simp: dot_ok_def)
  from dot_ok_cong [OF fb(3) this] have dot: "dot_ok (st\<lparr>mem := m2\<rparr>)" .
  have l: "8 \<le> length s" "length s \<le> 31" "cstr (mem st3) copy s" using assms(4,5) by (simp_all add: dir_entry_def)
  have "region copy (Suc (length s)) \<subseteq> region copy 32" using l(2) by (intro region_mono) simp
  then have g1: "region copy (Suc (length s)) \<inter> ?f = {}" using cf by blast
  have g2: "2 * length s + 2 \<le> 100" "cstr (mem st3) (dot_lit st3) [0x2E]" "region (dot_lit st3) 2 \<inter> ?f = {}"
    using l(2) dot assms(5,7) by (simp_all add: dot_ok_def)
  from get_fat16_filename_spec [OF l(3,1) g2(1,2) g1 g2(3)] obtain m where
    g: "get_fat16_filename copy (filename_buf st) st3 = Some (st3\<lparr>mem := m\<rparr>)" "\<forall>a. a \<notin> ?f \<longrightarrow> m a = mem st3 a" by blast
  have m: "m x = mem (st\<lparr>mem := m2\<rparr>) x" if "x \<notin> ?f" for x using g(2) that assms(5) by simp
  have "?f \<inter> kheap_reserved (st\<lparr>mem := m2\<rparr>) = {}" using fb(1) d2(7) by auto
  note k3 = put_heap_keeps [OF d2(2) m this]
  show ?thesis
  proof (rule that [OF g(1)])
    show "heap_keeps ?f st (st\<lparr>mem := m\<rparr>)" using heap_keeps_trans [OF assms(2) k3(1)] by simp
    show "m (copy + of_nat i) = m2 (copy + of_nat i)" if "i < 32" for i
      using m [of "copy + of_nat i"] region_add [OF that, of copy] cf by auto
    show "kheap_live (st\<lparr>mem := m\<rparr>) = kheap_live (st\<lparr>mem := m2\<rparr>)" "kheap_avail (st\<lparr>mem := m\<rparr>) = kheap_avail (st\<lparr>mem := m2\<rparr>)"
      using k3(2,3) by simp_all
  qed
qed

lemma fat16_open_spec:
  fixes st :: "'a fat_state_scheme"
  assumes "kheap_ok st" "3 \<le> kheap_avail st" "open_ready st" "mounted dp priv p st"
    and "directories st (root_directory priv) = Some rd" "(directory_item rd, 4096) \<in> kheap_live st"
    and "lists_file (mem st) (directory_item rd) ss j name" "int j < dir_total rd" "j < 128"
    and "path_nodes st path = Some \<lparr>path_name = q, path_next = 0\<rparr>" "string_in q name st"
  obtains desc item copy m where "fat16_open dp path 0 st = Some (desc, st\<lparr>mem := m,
      fat_items := (fat_items st)(item \<mapsto> \<lparr>item_ptr = copy, item_type = 1\<rparr>),
      fat_descriptors := (fat_descriptors st)(desc \<mapsto> \<lparr>desc_item = item, desc_pos = 0\<rparr>)\<rparr>)" "desc \<noteq> 0"
    "heap_keeps (region (filename_buf st) 100) st (st\<lparr>mem := m\<rparr>)"
    "\<And>i. i < 32 \<Longrightarrow> m (copy + of_nat i) = mem st (directory_item rd + 32 * of_nat j + of_nat i)"
    "(copy, 4096) \<in> kheap_live (st\<lparr>mem := m\<rparr>)" "kheap_avail st = kheap_avail (st\<lparr>mem := m\<rparr>) + 3"
proof -
  let ?f = "region (filename_buf st) 100" and ?items = "directory_item rd"
  have sz: "0 < unat (8 :: u32)" "unat (8 :: u32) \<le> 4096" "0 < kheap_avail st" using assms(2) by simp_all
  obtain desc m1 where a: "kzalloc 8 st = (desc, st\<lparr>mem := m1\<rparr>)" "desc \<noteq> 0" "heap_keeps {} st (st\<lparr>mem := m1\<rparr>)"
    "kheap_live (st\<lparr>mem := m1\<rparr>) = insert (desc, 4096) (kheap_live st)" "kheap_avail st = Suc (kheap_avail (st\<lparr>mem := m1\<rparr>))"
    "\<And>q k. (q, k) \<in> kheap_live st \<Longrightarrow> q \<noteq> desc" "unat desc mod 4096 = 0"
    "\<And>q k. (q, k) \<in> kheap_live st \<Longrightarrow> region desc 4096 \<inter> region q k = {}"
    by (rule alloc_step [OF assms(1) sz]) (rule that)
  let ?st1 = "st\<lparr>mem := m1\<rparr>"
  note k1 = heap_keepsD [OF a(3)]
  have dots: "m1 x = mem st x" if "x \<in> region (dot_lit st) 2" for x
    using k1(5) [of x] assms(3) that by (auto simp: open_ready_def)
  have items: "m1 x = mem st x" if "x \<in> region ?items 4096" for x using k1(4) [OF assms(6) that] by simp
  have s1: "2 \<le> kheap_avail ?st1" "open_ready ?st1" "directories ?st1 (root_directory priv) = Some rd" "(?items, 4096) \<in> kheap_live ?st1"
    "path_nodes ?st1 path = Some \<lparr>path_name = q, path_next = 0\<rparr>" "string_in q name ?st1" "lists_file (mem ?st1) ?items ss j name"
    using a(4,5) assms(2,5,6,10) open_ready_cong [OF assms(3), of ?st1] dots string_kept [OF a(3) assms(11,1)]
      lists_file_cong [OF assms(7,9) items] by simp_all
  obtain item copy m2 where f: "find_item_in_directory dp (root_directory priv) path ?st1 = Some (item,
      ?st1\<lparr>mem := m2, fat_items := (fat_items ?st1)(item \<mapsto> \<lparr>item_ptr = copy, item_type = 1\<rparr>)\<rparr>)" "item \<noteq> 0"
    "heap_keeps (region (filename_buf ?st1) 100) ?st1 (?st1\<lparr>mem := m2\<rparr>)" "(copy, 4096) \<in> kheap_live (?st1\<lparr>mem := m2\<rparr>)"
    "\<And>i. i < 32 \<Longrightarrow> m2 (copy + of_nat i) = mem ?st1 (?items + 32 * of_nat j + of_nat i)"
    "kheap_avail ?st1 = kheap_avail (?st1\<lparr>mem := m2\<rparr>) + 2"
    by (rule find_file [OF k1(2) s1(1-4,7) assms(8,9) s1(5,6)]) (rule that)
  have k2: "heap_keeps ?f st (st\<lparr>mem := m2\<rparr>)" using heap_keeps_trans [OF a(3) f(3)] by simp
  have bytes: "m2 (copy + of_nat i) = mem st (?items + 32 * of_nat j + of_nat i)" if "i < 32" for i
    using f(5) [OF that] items subsetD [OF entry_region [OF assms(9)] region_add [OF that]] by simp
  have "dir_entry (mem st) (?items + 32 * of_nat j) (ss j)" using assms(7) by (simp add: lists_file_def)
  then have ent: "dir_entry m2 copy (ss j)" using bytes by (rule dir_entry_copy)
  have live: "(copy, 4096) \<in> kheap_live (st\<lparr>mem := m2\<rparr>)" using f(4) by simp
  let ?st3 = "st\<lparr>mem := m2, fat_items := (fat_items st)(item \<mapsto> \<lparr>item_ptr = copy, item_type = 1\<rparr>),
      fat_descriptors := (fat_descriptors st)(desc \<mapsto> \<lparr>desc_item = item, desc_pos = 0\<rparr>)\<rparr>"
  have st3: "mem ?st3 = m2" "filename_buf ?st3 = filename_buf st" "dot_lit ?st3 = dot_lit st" by simp_all
  obtain m where g: "get_fat16_filename copy (filename_buf st) ?st3 = Some (?st3\<lparr>mem := m\<rparr>)" "heap_keeps ?f st (st\<lparr>mem := m\<rparr>)"
    "\<And>i. i < 32 \<Longrightarrow> m (copy + of_nat i) = m2 (copy + of_nat i)"
    "kheap_live (st\<lparr>mem := m\<rparr>) = kheap_live (st\<lparr>mem := m2\<rparr>)" "kheap_avail (st\<lparr>mem := m\<rparr>) = kheap_avail (st\<lparr>mem := m2\<rparr>)"
    by (rule filename_of_copy [OF assms(3) k2 live ent st3]) (rule that)
  show ?thesis
  proof (rule that [OF _ a(2) g(2)])
    show "fat16_open dp path 0 st = Some (desc, st\<lparr>mem := m, fat_items := (fat_items st)(item \<mapsto> \<lparr>item_ptr = copy, item_type = 1\<rparr>),
      fat_descriptors := (fat_descriptors st)(desc \<mapsto> \<lparr>desc_item = item, desc_pos = 0\<rparr>)\<rparr>)"
      using assms(4) a(1,2) f(1,2) g(1)
      by (simp add: fat16_open_def get_fat16_directory_item_def disk_at_def mounted_def)
    show "m (copy + of_nat i) = mem st (?items + 32 * of_nat j + of_nat i)" if "i < 32" for i
      using bytes [OF that] g(3) [OF that] by simp
    show "(copy, 4096) \<in> kheap_live (st\<lparr>mem := m\<rparr>)" using live g(4) by simp
    show "kheap_avail st = kheap_avail (st\<lparr>mem := m\<rparr>) + 3" using a(5) f(6) g(5) by simp
  qed
qed

lemma first_cluster_copy:
  assumes "\<And>i. i < 32 \<Longrightarrow> m' (b + of_nat i) = m (a + of_nat i)"
  shows "get_first_cluster m' b = get_first_cluster m a"
proof -
  have e: "x + 20 + 1 = x + 21" "x + 26 + 1 = x + 27" for x :: addr by simp_all
  show ?thesis
    using assms [of 20] assms [of 21] assms [of 26] assms [of 27]
    by (simp only: get_first_cluster_def first_cluster_high_byte_def first_cluster_low_byte_def read16_def e, simp)
qed

end
