(* ===== verification/Zhios_Vfs.thy ===== *)
theory Zhios_Vfs
  imports Zhios_Open
begin

text \<open>
  Files by name: \<^verbatim>\<open>fopen\<close> and \<^verbatim>\<open>fread\<close> of \<^verbatim>\<open>src/src/fs/file.c\<close> above the path parser, the table of
  descriptors and the FAT16 driver.  The lemmas follow the calls of \<^verbatim>\<open>fopen\<close>: the path is parsed,
  the driver opens the file, and a descriptor is made for it.
\<close>

section \<open>What fopen relies on\<close>

definition vfs_ready :: "'a file_state_scheme \<Rightarrow> bool" where
  "vfs_ready st \<longleftrightarrow> fd_table_ok st \<and> 0 \<in> set (file_descriptors st) \<and>
     disk_addr st \<noteq> 0 \<and> disk_fs (disk st) = fat16_fs st \<and> fat16_fs st \<noteq> 0"

definition read_mode :: "addr \<Rightarrow> 'a file_state_scheme \<Rightarrow> bool" where
  "read_mode mode st \<longleftrightarrow> mem st mode = mem st (lit_r st) \<and> {mode, lit_r st} \<inter> (kheap_arena st \<union> kheap_reserved st) = {}"

lemma read_mode_kept:
  assumes "read_mode mode st" "heap_keeps {} st st'" "lit_r st' = lit_r st"
  shows "get_file_mode_from_string mode st' = FILE_MODE_READ"
proof -
  have "mem st' mode = mem st mode" "mem st' (lit_r st) = mem st (lit_r st)"
    using assms(1) heap_keepsD(5) [OF assms(2)] by (auto simp: read_mode_def)
  then have "mem st' mode = mem st' (lit_r st')" using assms(1,3) by (simp add: read_mode_def)
  then show ?thesis by (simp add: get_file_mode_from_string_def strncmp_def)
qed

text \<open>The name of a file in the root directory, as a path.\<close>

definition root_file_path :: "u8 list \<Rightarrow> u8 list \<Rightarrow> bool" where
  "root_file_path s name \<longleftrightarrow> valid_path s \<and> s ! 0 = 0x30 \<and> components (drop 2 s) = [name]"

lemma parse_root_file:
  fixes st :: "'a file_state_scheme"
  assumes "kheap_ok st" "3 \<le> kheap_avail st" "string_in fname s st" "root_file_path s name" "mem st (colon_slash st) = 0x3A"
  obtains rp r q m n ps st1 where "parse_path fname 0 st = Some (rp, st1)" "rp \<noteq> 0" "r \<noteq> 0"
    "st1 = st\<lparr>mem := m, path_nodes := n, root_paths := ps\<rparr>" "ps rp = Some \<lparr>drive_number = 0, root = r\<rparr>"
    "n r = Some \<lparr>path_name = q, path_next = 0\<rparr>" "string_in q name st1" "heap_keeps {} st st1" "kheap_avail st = kheap_avail st1 + 3"
proof -
  have s: "valid_path s" "atoi (s ! 0) = 0" "components (drop 2 s) = [name]"
    using assms(4) by (simp_all add: root_file_path_def atoi_def)
  have a: "2 + length (components (drop 2 s)) \<le> kheap_avail st" using assms(2) by (simp add: s(3))
  obtain rp r m n ps st1 where p: "parse_path fname 0 st = Some (rp, st1)" "rp \<noteq> 0"
    "st1 = st\<lparr>mem := m, path_nodes := n, root_paths := ps\<rparr>" "root_paths st1 rp = Some \<lparr>drive_number = 0, root = r\<rparr>"
    "path_list st1 r [name]" "heap_keeps {} st st1" "kheap_avail st = kheap_avail st1 + 2 + length [name]"
    using parse_path_spec [OF assms(1,3) s(1) assms(5) a, of 0, unfolded s(2,3)] by blast
  obtain nd where nd: "path_nodes st1 r = Some nd" "string_in (path_name nd) name st1" "path_next nd = 0" "r \<noteq> 0"
    using p(5) by (auto split: option.splits)
  have f: "n r = Some \<lparr>path_name = path_name nd, path_next = 0\<rparr>" "ps rp = Some \<lparr>drive_number = 0, root = r\<rparr>"
    using nd(1,3) p(3,4) by simp_all
  show ?thesis by (rule that [OF p(1,2) nd(4) p(3) f(2,1) nd(2) p(6)]) (use p(7) in simp)
qed

section \<open>Opening\<close>

text \<open>The state after \<^verbatim>\<open>fopen\<close>: \<open>i\<close> is the identifier, \<open>d\<close> the descriptor, \<open>desc\<close> the one of the driver.\<close>

definition opened :: "'a file_state_scheme \<Rightarrow> int \<Rightarrow> addr \<Rightarrow> addr \<Rightarrow> addr \<Rightarrow> addr \<Rightarrow> 'a file_state_scheme \<Rightarrow> bool" where
  "opened st i d desc item copy st' \<longleftrightarrow> 1 \<le> i \<and> i \<le> 256 \<and> get_file_descriptor i st = Some 0 \<and> get_file_descriptor i st' = Some d \<and>
     descriptors st' d = Some \<lparr>fd_id = i, fd_fs = fat16_fs st, private_data = desc, fd_disk = disk_addr st\<rparr> \<and>
     fat_descriptors st' desc = Some \<lparr>desc_item = item, desc_pos = 0\<rparr> \<and> fat_items st' item = Some \<lparr>item_ptr = copy, item_type = 1\<rparr> \<and>
     (\<exists>m n ps its fds ds fs. st' = st\<lparr>mem := m, path_nodes := n, root_paths := ps, fat_items := its, fat_descriptors := fds,
        descriptors := ds, file_descriptors := fs\<rparr>)"

lemma new_descriptor_step:
  fixes st :: "'a file_state_scheme"
  assumes "kheap_ok st" "0 < kheap_avail st" "fd_table_ok st" "0 \<in> set (file_descriptors st)"
  obtains d m k where "new_file_descriptor st = (d, st\<lparr>mem := m, descriptors := (descriptors st)(d \<mapsto>
        \<lparr>fd_id = int k + 1, fd_fs = 0, private_data = 0, fd_disk = 0\<rparr>), file_descriptors := (file_descriptors st)[k := d]\<rparr>)"
    "d \<noteq> 0" "k < 256" "file_descriptors st ! k = 0" "heap_keeps {} st (st\<lparr>mem := m\<rparr>)"
proof -
  obtain d st' where n: "new_file_descriptor st = (d, st')" by (rule prod.exhaust)
  have d: "d \<noteq> 0" by (rule new_descriptor_d [OF assms(1,2,4) n])
  obtain m k where k: "kzalloc 16 st = (d, st\<lparr>mem := m\<rparr>)" "k < 256" "file_descriptors st ! k = 0"
    "st' = st\<lparr>mem := m, descriptors := (descriptors st)(d \<mapsto>
        \<lparr>fd_id = int k + 1, fd_fs = 0, private_data = 0, fd_disk = 0\<rparr>), file_descriptors := (file_descriptors st)[k := d]\<rparr>"
    by (rule new_file_descriptor_spec [OF assms(3) n d]) (rule that)
  have "heap_keeps {} st (st\<lparr>mem := m\<rparr>)" by (rule kzalloc_heap_keeps [OF assms(1) _ _ assms(2) k(1)]) simp_all
  then show ?thesis using n k(2-4) d by (intro that [where d = d and m = m and k = k]) simp_all
qed

lemma heap_keeps_file_upd [simp]:
  "heap_keeps X st (st'\<lparr>fat_items := a\<rparr>) = heap_keeps X st st'" "heap_keeps X (st\<lparr>fat_items := a\<rparr>) st' = heap_keeps X st st'"
  "heap_keeps X st (st'\<lparr>fat_descriptors := b\<rparr>) = heap_keeps X st st'" "heap_keeps X (st\<lparr>fat_descriptors := b\<rparr>) st' = heap_keeps X st st'"
  by (simp_all add: heap_keeps_def kheap_defs kheap_arena_def)

lemma fopen_spec:
  fixes st :: "'a file_state_scheme"
  assumes "kheap_ok st" "7 \<le> kheap_avail st" "open_ready st" "mounted (disk_addr st) priv p st" "vfs_ready st" "read_mode mode st"
    and "directories st (root_directory priv) = Some rd" "(directory_item rd, 4096) \<in> kheap_live st"
    and "lists_file (mem st) (directory_item rd) ss j name" "int j < dir_total rd" "j < 128"
    and "string_in fname s st" "root_file_path s name" "mem st (colon_slash st) = 0x3A"
  obtains i d desc item copy st' where "fopen fname mode st = Some (i, st')" "opened st i d desc item copy st'"
    "heap_keeps (region (filename_buf st) 100) st st'"
    "\<And>i. i < 32 \<Longrightarrow> mem st' (copy + of_nat i) = mem st (directory_item rd + 32 * of_nat j + of_nat i)"
proof -
  let ?f = "region (filename_buf st) 100" and ?items = "directory_item rd"
  have av: "3 \<le> kheap_avail st" using assms(2) by simp
  obtain rp r q m1 n ps st1 where a: "parse_path fname 0 st = Some (rp, st1)" "rp \<noteq> 0" "r \<noteq> 0"
    "st1 = st\<lparr>mem := m1, path_nodes := n, root_paths := ps\<rparr>" "ps rp = Some \<lparr>drive_number = 0, root = r\<rparr>"
    "n r = Some \<lparr>path_name = q, path_next = 0\<rparr>" "string_in q name st1" "heap_keeps {} st st1" "kheap_avail st = kheap_avail st1 + 3"
    by (rule parse_root_file [OF assms(1) av assms(12-14)]) (rule that)
  note k1 = heap_keepsD [OF a(8)]
  have dots: "mem st1 x = mem st x" if "x \<in> region (dot_lit st) 2" for x
    using k1(5) [of x] assms(3) that by (auto simp: open_ready_def)
  have items: "mem st1 x = mem st x" if "x \<in> region ?items 4096" for x using k1(4) [OF assms(8) that] by simp
  have f1: "filename_buf st1 = filename_buf st" "dot_lit st1 = dot_lit st" "directories st1 = directories st" "lit_r st1 = lit_r st"
    "path_nodes st1 r = Some \<lparr>path_name = q, path_next = 0\<rparr>" "root_paths st1 rp = Some \<lparr>drive_number = 0, root = r\<rparr>"
    "disk_addr st1 = disk_addr st" "disk st1 = disk st" "fat16_fs st1 = fat16_fs st" "mounted (disk_addr st) priv p st1"
    using a(5,6) assms(4) by (simp_all add: a(4) mounted_def)
  have s1: "3 \<le> kheap_avail st1" "open_ready st1" "directories st1 (root_directory priv) = Some rd" "(?items, 4096) \<in> kheap_live st1"
    "lists_file (mem st1) ?items ss j name"
    using assms(2,7,8) a(9) k1(3) open_ready_cong [OF assms(3) k1(1) f1(1,2) dots] lists_file_cong [OF assms(9,11) items] f1(3) by auto
  obtain desc item copy m2 where o: "fat16_open (disk_addr st) r 0 st1 = Some (desc, st1\<lparr>mem := m2,
      fat_items := (fat_items st1)(item \<mapsto> \<lparr>item_ptr = copy, item_type = 1\<rparr>),
      fat_descriptors := (fat_descriptors st1)(desc \<mapsto> \<lparr>desc_item = item, desc_pos = 0\<rparr>)\<rparr>)" "desc \<noteq> 0"
    "heap_keeps (region (filename_buf st1) 100) st1 (st1\<lparr>mem := m2\<rparr>)"
    "\<And>i. i < 32 \<Longrightarrow> m2 (copy + of_nat i) = mem st1 (?items + 32 * of_nat j + of_nat i)"
    "(copy, 4096) \<in> kheap_live (st1\<lparr>mem := m2\<rparr>)" "kheap_avail st1 = kheap_avail (st1\<lparr>mem := m2\<rparr>) + 3"
    by (rule fat16_open_spec [OF k1(2) s1(1,2) f1(10) s1(3-5) assms(10,11) f1(5) a(7)]) (rule that)
  define st2 where "st2 = st1\<lparr>mem := m2, fat_items := (fat_items st1)(item \<mapsto> \<lparr>item_ptr = copy, item_type = 1\<rparr>),
      fat_descriptors := (fat_descriptors st1)(desc \<mapsto> \<lparr>desc_item = item, desc_pos = 0\<rparr>)\<rparr>"
  have k2: "heap_keeps ?f st1 st2" using o(3) f1(1) by (simp add: st2_def)
  have l2: "(copy, 4096) \<in> kheap_live st2" "kheap_avail st1 = kheap_avail st2 + 3" using o(5,6) by (simp_all add: st2_def kheap_defs)
  have s2: "kheap_ok st2" "0 < kheap_avail st2" "fd_table_ok st2" "0 \<in> set (file_descriptors st2)"
    using heap_keepsD(2) [OF k2] l2(2) a(9) assms(2,5) by (simp_all add: st2_def a(4) vfs_ready_def fd_table_ok_def)
  obtain d m3 k where c: "new_file_descriptor st2 = (d, st2\<lparr>mem := m3, descriptors := (descriptors st2)(d \<mapsto>
        \<lparr>fd_id = int k + 1, fd_fs = 0, private_data = 0, fd_disk = 0\<rparr>), file_descriptors := (file_descriptors st2)[k := d]\<rparr>)"
    "d \<noteq> 0" "k < 256" "file_descriptors st2 ! k = 0" "heap_keeps {} st2 (st2\<lparr>mem := m3\<rparr>)"
    by (rule new_descriptor_step [OF s2]) (rule that)
  let ?x = "\<lparr>fd_id = int k + 1, fd_fs = fat16_fs st, private_data = desc, fd_disk = disk_addr st\<rparr>"
  define st' where "st' = st2\<lparr>mem := m3, descriptors := (descriptors st2)(d \<mapsto> ?x), file_descriptors := (file_descriptors st2)[k := d]\<rparr>"
  show ?thesis
  proof (rule that [where st' = st' and i = "int k + 1"])
    show "fopen fname mode st = Some (int k + 1, st')"
      using a(1-3) f1 o(1) c(1,2) assms(5) read_mode_kept [OF assms(6) a(8) f1(4)]
      by (simp add: fopen_def get_disk_def disk_at_def fs_ops_def fat16_ops_def vfs_ready_def st'_def st2_def)
    have fr: "st' = st\<lparr>mem := m3, path_nodes := n, root_paths := ps,
        fat_items := (fat_items st)(item \<mapsto> \<lparr>item_ptr = copy, item_type = 1\<rparr>),
        fat_descriptors := (fat_descriptors st)(desc \<mapsto> \<lparr>desc_item = item, desc_pos = 0\<rparr>),
        descriptors := (descriptors st)(d \<mapsto> ?x), file_descriptors := (file_descriptors st)[k := d]\<rparr>"
      by (simp add: st'_def st2_def a(4))
    have t: "file_descriptors st ! k = 0" "fd_table_ok st" "fd_table_ok st'"
      using c(4) assms(5) by (simp_all add: st2_def a(4) fr fd_table_ok_def vfs_ready_def)
    have "get_file_descriptor (int k + 1) st = Some 0" "get_file_descriptor (int k + 1) st' = Some d"
      using t c(3) by (simp_all add: get_file_descriptor_eq, simp add: fr fd_table_ok_def)
    moreover have "descriptors st' d = Some ?x" "fat_descriptors st' desc = Some \<lparr>desc_item = item, desc_pos = 0\<rparr>"
      "fat_items st' item = Some \<lparr>item_ptr = copy, item_type = 1\<rparr>" by (simp_all add: fr)
    ultimately show "opened st (int k + 1) d desc item copy st'"
      using c(3) fr unfolding opened_def by (intro conjI exI) simp_all
    have "heap_keeps {} st2 st'" using c(5) by (simp add: st'_def heap_keeps_def kheap_defs kheap_arena_def)
    from heap_keeps_trans [OF heap_keeps_trans [OF a(8) k2] this] show "heap_keeps ?f st st'" by simp
    show "mem st' (copy + of_nat i) = mem st (?items + 32 * of_nat j + of_nat i)" if "i < 32" for i
    proof -
      have "copy + of_nat i \<in> region copy 4096" using that by (intro region_add) simp_all
      then have "mem st' (copy + of_nat i) = m2 (copy + of_nat i)" using heap_keepsD(4) [OF c(5) l2(1)] by (simp add: st'_def st2_def)
      also have "\<dots> = mem st (?items + 32 * of_nat j + of_nat i)"
        using o(4) [OF that] items subsetD [OF entry_region [OF assms(11)] region_add [OF that]] by simp
      finally show ?thesis .
    qed
  qed
qed

section \<open>Properties\<close>


text \<open>
  A disk with a file \<open>F\<close>, all of whose sectors are alike: the header's fields and the entry of the
  root directory share their bytes.  The path \<^verbatim>\<open>0:/f\<close> lies in a page of the heap; the literals \<^verbatim>\<open>.\<close>, \<^verbatim>\<open>r\<close> and
  \<^verbatim>\<open>:\<close> lie below it.
\<close>

definition open_sector :: "nat \<Rightarrow> u8" where
  "open_sector n = (if n = 0 then 0x46 else if n < 12 then 0x20 else if n \<in> {13, 14, 16, 22} then 1
     else if n = 17 then 16 else if n = 26 then 2 else if n = 38 then 0x29 else 0)"

lemma open_sector_image: "fat16_image (\<lambda>n. open_sector (n mod 512)) 2 16 1"
  by (simp add: fat16_image_def open_sector_def word_of_def entries_end_def)

definition open_path :: "u8 list" where
  "open_path = [0x30, 0x3A, 0x2F, 0x66]"

lemma open_path_root: "root_file_path open_path [0x66]" "0 \<notin> set open_path" "length open_path < 4096"
  by (simp_all add: open_path_def root_file_path_def valid_path_def is_digit_def components_def)

definition open_state_ex :: file_state where
  "open_state_ex = kheap_init (file_state_ex\<lparr>dev := sector_dev open_sector,
     mem := (\<lambda>_. 0)(0x7300 := 0x2E, 0x7310 := 0x72, 0x7312 := 0x3A), dot_lit := 0x7300, lit_r := 0x7310, colon_slash := 0x7312,
     entry_buf := 0x7400, result_buf := 0x7500, filename_buf := 0x7600\<rparr>)"

lemma open_state_ex_simps:
  "kheap_ok open_state_ex" "kheap_avail open_state_ex = 25600" "dev open_state_ex = sector_dev open_sector"
  "disk_ready open_state_ex" "disk_addr open_state_ex = 0x9000" "entry_buf open_state_ex = 0x7400"
  "dot_lit open_state_ex = 0x7300" "filename_buf open_state_ex = 0x7600" "result_buf open_state_ex = 0x7500"
  "kernel_heap open_state_ex = kernel_heap_layout" "lit_r open_state_ex = 0x7310" "colon_slash open_state_ex = 0x7312"
  "fat16_fs open_state_ex = 0x100" "file_descriptors open_state_ex = replicate 256 0"
  "mem open_state_ex 0x7300 = 0x2E" "mem open_state_ex 0x7301 = 0" "mem open_state_ex 0x7312 = 0x3A"
  unfolding open_state_ex_def
  by (simp_all add: kheap_init_ok)
    (simp_all add: kheap_init_eq file_state_ex_def disk_ready_def memset_eq region_def)

lemma open_state_outside:
  assumes "unat a + k \<le> 0x7E00" "kernel_heap st = kernel_heap_layout"
  shows "region a k \<inter> (kheap_arena st \<union> kheap_reserved st) = {}"
proof -
  have "region a k \<inter> region 0x01000000 (4096 * 25600) = {}" "region a k \<inter> region 0x7E00 25600 = {}"
    using assms(1) by (auto intro!: region_disjoint)
  then show ?thesis by (simp add: kheap_arena_def kheap_reserved_def assms(2) Int_Un_distrib)
qed

lemma open_named_ex:
  obtains p st m where "st = open_state_ex\<lparr>mem := m\<rparr>" "kheap_ok st" "kheap_avail st = 25599"
    "string_in p open_path st" "\<And>a. a \<in> region 0x7300 32 \<Longrightarrow> m a = mem open_state_ex a"
proof -
  note e = open_state_ex_simps
  have sz: "0 < unat (100 :: u32)" "unat (100 :: u32) \<le> 4096" "0 < kheap_avail open_state_ex" by (simp_all add: e)
  obtain p m where z: "kzalloc 100 open_state_ex = (p, open_state_ex\<lparr>mem := m\<rparr>)"
    "heap_keeps {} open_state_ex (open_state_ex\<lparr>mem := m\<rparr>)"
    "kheap_live (open_state_ex\<lparr>mem := m\<rparr>) = insert (p, 4096) (kheap_live open_state_ex)"
    by (rule alloc_step [OF e(1) sz]) (rule that)
  let ?st1 = "open_state_ex\<lparr>mem := m\<rparr>"
  define st2 where "st2 = ?st1\<lparr>mem := store (mem ?st1) p (open_path @ [0])\<rparr>"
  have s: "kheap_ok st2" "string_in p open_path st2" "kheap_avail open_state_ex = Suc (kheap_avail st2)"
    by (rule string_in_page [OF e(1) sz(3) z(1) open_path_root(2,3) st2_def])+
  have pa: "region p 4096 \<subseteq> kheap_arena open_state_ex"
    using kheap_live_arena [OF heap_keepsD(2) [OF z(2)], of p 4096] z(3) heap_keepsD(6) [OF z(2)] by simp
  have l: "length (open_path @ [0]) = 5" by (simp add: open_path_def)
  have "mem st2 a = mem open_state_ex a" if "a \<in> region 0x7300 32" for a
  proof -
    have o: "a \<notin> kheap_arena open_state_ex" "a \<notin> kheap_reserved open_state_ex"
      using open_state_outside [of "0x7300" 32 open_state_ex] that by (auto simp: e disjoint_iff)
    have "region p 5 \<subseteq> region p 4096" by (rule region_mono) simp
    then have "a \<notin> region p 5" using o(1) pa by blast
    then have "store m p (open_path @ [0]) a = m a" by (subst store_eq) (simp_all only: l, simp_all)
    then show ?thesis using heap_keepsD(5) [OF z(2) o] by (simp add: st2_def)
  qed
  then show ?thesis using s e(2) by (intro that [where st = st2 and m = "mem st2" and p = p]) (simp_all add: st2_def)
qed

text \<open>That disk mounted.\<close>

lemma open_mounted_ex:
  obtains q and s0 st :: file_state and priv pr rd where "fat16_resolve 0x9000 s0 = Some (0, st)" "kheap_ok st" "7 \<le> kheap_avail st"
    "open_ready st" "vfs_ready st" "read_mode 0x7310 st" "mem st (colon_slash st) = 0x3A"
    "dev st = sector_dev open_sector" "result_buf st = 0x7500" "mounted (disk_addr st) priv pr st" "(priv, 4096) \<in> kheap_live st"
    "directories st (root_directory priv) = Some rd" "(directory_item rd, 4096) \<in> kheap_live st" "dir_total rd = 1" "ending_sector_pos rd = 3"
    "string_in q open_path st" "kheap_arena st = region 0x01000000 (4096 * 25600)"
    "\<And>i. i < 62 \<Longrightarrow> mem st (priv + of_nat i) = open_sector i" "\<And>i. i < 32 \<Longrightarrow> mem st (directory_item rd + of_nat i) = open_sector i"
proof -
  note e = open_state_ex_simps
  let ?img = "\<lambda>n. open_sector (n mod 512)"
  obtain q s m0 where s: "s = open_state_ex\<lparr>mem := m0\<rparr>" "kheap_ok s" "kheap_avail s = 25599"
    "string_in q open_path s" "\<And>a. a \<in> region 0x7300 32 \<Longrightarrow> m0 a = mem open_state_ex a"
    by (rule open_named_ex) (rule that)
  have f: "dev s = sector_dev open_sector" "disk_ready s" "disk_addr s = 0x9000" "entry_buf s = 0x7400" "dot_lit s = 0x7300"
    "filename_buf s = 0x7600" "result_buf s = 0x7500" "kernel_heap s = kernel_heap_layout" "lit_r s = 0x7310" "colon_slash s = 0x7312"
    "fat16_fs s = 0x100" "file_descriptors s = replicate 256 0"
    unfolding s(1) using e(4) by (simp_all add: e disk_ready_def)
  have b: "region (entry_buf s) 32 \<inter> (kheap_arena s \<union> kheap_reserved s) = {}" unfolding f(4) by (rule open_state_outside [OF _ f(8)]) simp
  have av: "7 \<le> kheap_avail s" by (simp add: s(3))
  have at: "ata (dev s) ?img" unfolding f(1) by (rule sector_ata)
  obtain priv pr ents m log st f' prs dirs where r: "fat16_resolve (disk_addr s) s = Some (0, st)"
    "st = s\<lparr>io_log := log, mem := m, streams := f', fat_privates := prs, directories := dirs,
       disk := (disk s)\<lparr>fs_private := priv, disk_fs := fat16_fs s\<rparr>\<rparr>"
    "mounted (disk_addr s) priv pr st" "dirs (root_directory priv) = Some (root_record ?img 2 16 1 ents)"
    "\<And>i. i < 62 \<Longrightarrow> m (priv + of_nat i) = ?img i" "\<And>i. i < 32 * 16 \<Longrightarrow> m (ents + of_nat i) = ?img (512 * 2 + i)"
    "heap_keeps (region (entry_buf s) 32) s st" "kheap_avail s = kheap_avail st + 5" "{(priv, 4096), (ents, 4096)} \<subseteq> kheap_live st"
    by (rule fat16_resolve_spec [OF s(2) av at f(2) open_sector_image b]) (rule that)
  let ?rd = "root_record ?img 2 16 1 ents"
  have "region 0x7300 32 \<inter> region 0x7400 32 = {}" by (rule region_disjoint; simp)
  then have "mem st a = mem s a" if "a \<in> region 0x7300 32" for a
    using open_state_outside [of "0x7300" 32 s] that by (intro heap_keepsD(5) [OF r(7)]) (auto simp: f disjoint_iff)
  then have "mem st a = mem open_state_ex a" if "a \<in> region 0x7300 32" for a using s(1,5) that by simp
  from this [of "0x7300"] this [of "0x7301"] this [of "0x7312"]
  have d: "mem st 0x7300 = 0x2E" "mem st 0x7301 = 0" "mem st 0x7312 = 0x3A" by (simp_all add: e region_def)
  have g: "dev st = dev s" "dot_lit st = 0x7300" "filename_buf st = 0x7600" "result_buf st = 0x7500" "kernel_heap st = kernel_heap_layout"
    "mem st = m" "directories st = dirs" "lit_r st = 0x7310" "colon_slash st = 0x7312" "disk_addr st = 0x9000"
    "vfs_ready st" by (simp_all add: r(2) f vfs_ready_def fd_table_ok_def)
  note out = open_state_outside [where st = st, OF _ g(5)]
  have "region 0x7300 2 \<inter> region 0x7600 100 = {}" by (rule region_disjoint; simp)
  then have op: "open_ready st"
    using d(1,2) out [of "0x7600" 100] out [of "0x7300" 2]
    unfolding open_ready_def dot_ok_def g(2,3) by (simp add: Int_Un_distrib2)
  have rm: "read_mode 0x7310 st"
    using out [of "0x7310" 1] region_add [of 0 1 "0x7310"] by (auto simp: read_mode_def g(8) disjoint_iff)
  have str: "string_in q open_path st" using b by (intro string_kept [OF r(7) s(4,2)]) blast
  have u: "used_entries ?img 1024 [0..<1] = 1" by (simp add: used_entries_def open_sector_def)
  have rd: "directory_item ?rd = ents" "dir_total ?rd = 1" "ending_sector_pos ?rd = 3" using u by (simp_all add: root_record_def)
  have ok: "kheap_ok st" "7 \<le> kheap_avail st" using heap_keepsD(2) [OF r(7)] r(8) s(3) by simp_all
  have ar: "kheap_arena st = region 0x01000000 (4096 * 25600)" by (simp add: kheap_arena_def g(5))
  have h: "mem st (priv + of_nat i) = open_sector i" if "i < 62" for i using r(5) [OF that] that by (simp add: g(6))
  have en: "mem st (directory_item ?rd + of_nat i) = open_sector i" if "i < 32" for i
  proof -
    have "(512 * 2 + i) mod 512 = i" using that unfolding mod_mult_self4 by simp
    then show ?thesis using r(6) [of i] that unfolding g(6) rd(1) by simp
  qed
  have lv: "(priv, 4096) \<in> kheap_live st" "(directory_item ?rd, 4096) \<in> kheap_live st" unfolding rd(1) using r(9) by simp_all
  show ?thesis
    using r(1,3,4) d(3)
    by (intro that [OF _ ok op g(11) rm _ _ g(4) _ lv(1) _ lv(2) rd(2,3) str ar h en]) (simp_all add: f g)
qed


end
