(* ===== verification/Spec2Isabelle.thy ===== *)
theory Spec2Isabelle
  imports Zhios_Arguments Zhios_System Zhios_Boot Zhios_Vfs
begin

text \<open>
  \<^bold>\<open>zhios: a model of the kernel and its correctness\<close>

  zhios is a small 32-bit x86 kernel in C.  It boots, sets up a heap, a FAT16 file system on
  an ATA disk, paging and interrupts, loads a shell as its first process and then runs
  processes that call it through interrupt \<open>0x80\<close>.  This library models the C code under
  \<^verbatim>\<open>src/src\<close>, \<^verbatim>\<open>src/lib\<close>, \<^verbatim>\<open>src/syslib\<close> and \<^verbatim>\<open>src/programs\<close>, function by function, and proves what
  the functions do.

  \<^bold>\<open>The parts and their theories.\<close>  The theories of the kernel form a chain, each extending the
  state record of the one before it, in the order in which the components use each other;
  the last eight stand beside it:

  \<^item> \<open>Zhios_Base\<close>: machine words, the flat byte memory with little-endian accesses, regions of
    addresses; the constants of \<^verbatim>\<open>config.h\<close> and \<^verbatim>\<open>status.h\<close>.
  \<^item> \<open>Zhios_Memory\<close>, \<open>Zhios_String\<close>: \<^verbatim>\<open>lib/src/memory.c\<close> and \<^verbatim>\<open>string.c\<close>.
  \<^item> \<open>Zhios_Heap\<close>, \<open>Zhios_Kheap\<close>: the block allocator \<^verbatim>\<open>memory/heap/heap.c\<close> over a byte table in
    memory, and the kernel heap \<^verbatim>\<open>kheap.c\<close>.
  \<^item> \<open>Zhios_Paging\<close>: page directories and tables, \<^verbatim>\<open>memory/paging/paging.c\<close>.
  \<^item> \<open>Zhios_Path\<close>: \<^verbatim>\<open>fs/path.c\<close>.
  \<^item> \<open>Zhios_Disk\<close>: port instructions, \<^verbatim>\<open>disk/disk.c\<close> and \<^verbatim>\<open>disk/stream.c\<close>.
  \<^item> \<open>Zhios_Fat16\<close>: the driver \<^verbatim>\<open>fs/fat/fat16.c\<close>.
  \<^item> \<open>Zhios_File\<close>: file systems, descriptors and \<^verbatim>\<open>fopen\<close> to \<^verbatim>\<open>fclose\<close> of \<^verbatim>\<open>fs/file.c\<close>.
  \<^item> \<open>Zhios_Loader\<close>: \<^verbatim>\<open>loaders/loader.c\<close> with the ELF and binary formats.
  \<^item> \<open>Zhios_Task\<close>: the task list, scheduling, accesses to user memory of \<^verbatim>\<open>task/task.c\<close>.
  \<^item> \<open>Zhios_Process\<close>: \<^verbatim>\<open>task/process.c\<close>.
  \<^item> \<open>Zhios_Keyboard\<close>: \<^verbatim>\<open>keyboard/keyboard.c\<close> and \<^verbatim>\<open>classic.c\<close>.
  \<^item> \<open>Zhios_Screen\<close>: the frame buffer \<^verbatim>\<open>vesa/vesa.c\<close>, the font \<^verbatim>\<open>font/psf.c\<close>, \<^verbatim>\<open>terminal/terminal.c\<close>.
  \<^item> \<open>Zhios_Interrupts\<close>: \<^verbatim>\<open>interrupts/interrupts.c\<close> and the system calls of \<^verbatim>\<open>isr80h\<close>.
  \<^item> \<open>Zhios_Kernel\<close>: the descriptor table \<^verbatim>\<open>gdt/gdt.c\<close>, and \<^verbatim>\<open>kernel_main\<close>, which initialises all
    components in order and enters the first process.
  \<^item> \<open>Zhios_Mount\<close>: what \<^verbatim>\<open>fat16_resolve\<close> leaves when it has mounted a disk.
  \<^item> \<open>Zhios_Read\<close>: the chain of clusters of a file and what \<^verbatim>\<open>fat16_read\<close> delivers.
  \<^item> \<open>Zhios_Open\<close>: the search of the root directory and \<^verbatim>\<open>fat16_open\<close>.
  \<^item> \<open>Zhios_Vfs\<close>: \<^verbatim>\<open>fopen\<close> and \<^verbatim>\<open>fread\<close> above all of these: the bytes of a file that is opened by its path.
  \<^item> \<open>Zhios_Boot\<close>: the state in which \<^verbatim>\<open>kernel_main\<close> leaves all components before it turns to the
    terminal and the first program.
  \<^item> \<open>Zhios_Arguments\<close>: what \<^verbatim>\<open>process_map_args_to_stack\<close> of \<^verbatim>\<open>process.c\<close> leaves on a new stack.
  \<^item> \<open>Zhios_Syslib\<close>: the user library \<^verbatim>\<open>syslib\<close> (numbers, formatted output, lines, processes,
    arguments) and the programs \<^verbatim>\<open>shell\<close> and \<^verbatim>\<open>blank\<close>, seen from a process.
  \<^item> \<open>Zhios_System\<close>: runs of a machine, in which a program, its system calls and the keyboard
    alternate, and the user library above the handlers of the kernel.

  \<^bold>\<open>How the state corresponds to the code.\<close>  \<open>mem\<close> is the physical memory, a function from
  addresses to bytes: buffers, strings, page tables, disk sectors, packed headers and the
  table of the heap live there, and a write past the end of an object hits its neighbour as
  it does on the machine.  Structures that the C code reaches only through typed pointers
  (paths, descriptors, directory items, ELF files, tasks, processes) are entries of typed
  stores, maps from addresses to records; their addresses come from the kernel heap, and
  releasing an address leaves the entry, as the memory keeps its contents.  Static variables
  are fields, local arrays and string literals have addresses in fields, an output parameter
  is a value that goes in and comes back.  Function pointers are values of datatypes with a
  dispatch function (\<open>fs_ops\<close>, \<open>run_command\<close>, \<open>run_routine\<close>, \<open>run_init\<close>).  Integers keep their
  width where the code can leave it: addresses and sizes are 32-bit words, and C's
  \<^verbatim>\<open>int\<close> is \<^typ>\<open>int\<close> with conversions written out.

  \<^bold>\<open>Errors and endings.\<close>  Error codes are returned as in C.  \<open>None\<close> is the absence of a value: an
  endless loop, an access through a pointer to no object, an index outside an array, an
  uninitialised variable, a signed overflow.  A loop that may not end is a
  \<^theory_text>\<open>partial_function (option)\<close> (\<open>strlen\<close>, \<open>strcpy\<close>, \<open>wait_ready\<close>, \<open>create_path_loop\<close>); the others
  recurse on what is left of their counter, so no fuel is needed, and \<open>map_elf_loop\<close> has a
  measure from the 16-bit number of headers.  \<^verbatim>\<open>restore_task\<close> enters user mode and does not
  return; \<open>control\<close> is the sum of the two endings.

  \<^bold>\<open>Parameters.\<close>  The disk is not part of the sources: the field \<open>dev\<close> answers every port read
  from the history of port instructions, and the hypothesis \<open>ata\<close> states what the ATA
  standard promises for the read command.  The stubs that the assembler generates are
  addresses, and so are the bounds of the font.  The components below the terminal record
  their messages in \<open>console\<close>; those above it draw them.

  A user program sees the kernel through its calls: \<open>kernel\<close> answers a call from the history of
  calls, and \<open>keeps_memory\<close>, \<open>delivers\<close> and \<open>grants\<close> state what the library relies on.  The
  first two are theorems about \<open>kernel_of\<close>, the kernel made of the handlers (\<open>Zhios_System\<close>); the
  third is what the system call \<^verbatim>\<open>malloc\<close> is shown to do (\<open>Zhios_Interrupts\<close>).

  \<^bold>\<open>What is shown.\<close>
  \<^item> Heap: first fit, exact release, the conditions for the null pointer, and where the code
    leaves its table (a request that does not fit the last free run, sizes that wrap, the
    release of null).  The locale \<open>page_allocator\<close> is the contract for clients; \<open>kh\<close> interprets it.
  \<^item> Paging: a new chunk is the identity and is given back completely by its release; mapping
    a range changes exactly the entries of its pages, of which there is one more than needed.
    \<open>remaps\<close> is the frame that the loader and the processes use.
  \<^item> Strings and memory: what the routines write, with their deviations from the C library.
  \<^item> Paths, disk, FAT16, files: the components of a path in order; the bytes a stream delivers
    and where it reads outside its buffer; the state after mounting; names of directory entries;
    the bytes of a file, opened by its name, along its chain of clusters; descriptors (locale \<open>descriptor_table\<close>, interpretation \<open>fdt\<close>).
    \<open>heap_keeps\<close> is the frame of code that allocates and releases, on which mounting rests.
  \<^item> Loader: the bounds of an image, and the address space of a program, as a function of the
    program headers.
  \<^item> Tasks: the doubly linked list implements a sequence (creation, removal), every task gets
    its turn (locale \<open>round_robin\<close>, interpretation \<open>rr\<close>), and the prev link that removal forgets.
  \<^item> Processes: an allocation is fresh, zero and mapped, and its release undoes it.
    A new process finds its arguments on its stack, through its own address space.
  \<^item> Keyboard: the ring buffer is a queue for the first 1024 keys (locale \<open>key_queue\<close>,
    interpretation \<open>kq\<close>) and repeats old keys afterwards.
  \<^item> Screen: \<open>repainted\<close> is the frame of everything that draws; the pixels of a character,
    that backspace takes it back, and that all characters stay on the \<open>canvas\<close>.
  \<^item> Segments: the selectors of all components choose descriptors of the right type.
  \<^item> Interrupts: the gates and service routines after initialisation; the system calls \<^verbatim>\<open>sum\<close>,
    \<^verbatim>\<open>getkey\<close>, \<^verbatim>\<open>putchar\<close> and \<^verbatim>\<open>malloc\<close> from the interrupt back to the task, over the
    lemmas of the keyboard, of the screen and of the processes.
  \<^item> User library: decimal notation, the meaning of formats, the editing of a line, the list of
    the words of a command.
  \<^item> System: in every interleaving of user code, keys and calls the machine stays in order and
    no key is lost, repeated or invented; a line goes from the keyboard through the ring buffer,
    the handlers and the library into the buffer of the program.
  \<^item> Boot: from any contents of memory the initialisers run to their end and leave every
    component in order.

  \<^bold>\<open>Bounds.\<close>  The contract of the allocator speaks about requests of at most a page, which covers
  every structure of the kernel but the process record and the stack; sizes passed to
  \<^verbatim>\<open>map_page_range\<close> are below \<open>2 ^ 31 - 4096\<close>, where the signed page count of the code is exact.
  The kernel reaches its own data through the identity mapping that all address spaces
  share, so only accesses to user addresses are translated (\<open>mmu\<close>).

  \<^bold>\<open>Not modelled.\<close>  The boot sector and the start-up assembly (real mode, BIOS calls, the switch
  to protected mode), the interrupt stubs that save registers and call the handlers, and the
  assembly program in \<^verbatim>\<open>programs/blank\<close>: they are code of the processor and not of the C
  program.  The theorem about booting ends before \<^verbatim>\<open>init_terminal\<close>: the rest of \<^verbatim>\<open>kernel_main\<close> is modelled,
  but loading the shell from the disk is shown part by part and not as one theorem, since it
  needs runs of several free blocks, which the contract of the allocator does not promise.
\<close>

end
